(* ===== verification/Prelude.thy ===== *)
theory Prelude
  imports Complex_Main "HOL-Library.AList" "HOL-Library.List_Lexorder" "HOL-Library.Char_ord"
    "HOL-Library.Multiset"
begin

text \<open>
  Shared vocabulary of the development: the errors the control plane throws, results that may
  be errors, the JavaScript values that reach it as \<open>unknown\<close>, and the JavaScript containers
  and string functions its code relies on.

  Strings are lists of characters, each standing for a UTF-16 code unit below 256. Instants
  (\<open>Date\<close>, and the ISO strings that \<open>toISOString\<close> renders and \<open>Date.parse\<close> reads back) are
  the number of milliseconds they denote.
\<close>

named_theorems result_simps \<open>equations that push a result through its continuation\<close>
named_theorems js_simps \<open>equations of the JavaScript containers\<close>

type_synonym time = int

section \<open>Errors and results\<close>

text \<open>\<open>AthenaErrorCode\<close> of \<open>shared/contracts/base.ts\<close>.\<close>

datatype error_code =
    CONFIG_ERROR | AUTH_IDENTITY_MISSING | AUTH_TOKEN_MISSING | AUTH_TOKEN_INVALID
  | AUTHZ_DENIED | POLICY_CONCURRENCY_LIMIT_EXCEEDED | PAYLOAD_TOO_LARGE | SESSION_LOCK_TIMEOUT
  | SESSION_IO_ERROR | CONTEXT_OVERFLOW | PROVIDER_NOT_FOUND | PROVIDER_ERROR | RUN_TIMEOUT
  | RUN_CANCELLED | SCHEDULE_TIMEOUT

text \<open>
  A thrown value: an \<open>AthenaError\<close> (code, message, retryable flag) or another \<open>Error\<close> with
  its message.
\<close>

datatype error = AthenaError error_code string bool | JsError string

fun error_message :: "error \<Rightarrow> string" where
  "error_message (AthenaError c m r) = m"
| "error_message (JsError m) = m"

definition config_error :: "string \<Rightarrow> error" where
  "config_error m = AthenaError CONFIG_ERROR m False"

type_synonym 'a result = "error + 'a"

definition bindR :: "'a result \<Rightarrow> ('a \<Rightarrow> 'b result) \<Rightarrow> 'b result" where
  "bindR m f = (case m of Inl e \<Rightarrow> Inl e | Inr x \<Rightarrow> f x)"

lemma bindR_Inl [simp, result_simps]: "bindR (Inl e) f = Inl e"
  by (simp add: bindR_def)

lemma bindR_Inr [simp, result_simps]: "bindR (Inr x) f = f x"
  by (simp add: bindR_def)

lemma bindR_eq_Inr: "bindR m f = Inr y \<longleftrightarrow> (\<exists>x. m = Inr x \<and> f x = Inr y)"
  by (cases m) auto

lemma bindR_eq_Inl: "bindR m f = Inl e \<longleftrightarrow> m = Inl e \<or> (\<exists>x. m = Inr x \<and> f x = Inl e)"
  by (cases m) auto

lemma bindR_cong [fundef_cong]:
  "m = m' \<Longrightarrow> (\<And>x. m' = Inr x \<Longrightarrow> f x = f' x) \<Longrightarrow> bindR m f = bindR m' f'"
  by (cases m') auto

fun mapR :: "('a \<Rightarrow> 'b result) \<Rightarrow> 'a list \<Rightarrow> 'b list result" where
  "mapR f [] = Inr []"
| "mapR f (x # xs) = bindR (f x) (\<lambda>y. bindR (mapR f xs) (\<lambda>ys. Inr (y # ys)))"

fun foldR :: "('s \<Rightarrow> 'a \<Rightarrow> 's result) \<Rightarrow> 's \<Rightarrow> 'a list \<Rightarrow> 's result" where
  "foldR f s [] = Inr s"
| "foldR f s (x # xs) = bindR (f s x) (\<lambda>s'. foldR f s' xs)"

lemma foldR_append: "foldR f s (xs @ ys) = bindR (foldR f s xs) (\<lambda>s'. foldR f s' ys)"
  by (induction xs arbitrary: s) (auto simp: bindR_def split: sum.splits)

lemma foldR_invariant:
  assumes "foldR f s xs = Inr s'" and "P s"
    and "\<And>s x s'. x \<in> set xs \<Longrightarrow> P s \<Longrightarrow> f s x = Inr s' \<Longrightarrow> P s'"
  shows "P s'"
  using assms by (induction xs arbitrary: s) (auto simp: bindR_eq_Inr)

section \<open>JavaScript values\<close>

text \<open>A JavaScript number: a finite double (a rational), or one of the three other values.\<close>

datatype jsnum = Fin rat | NaN | PosInf | NegInf

datatype js =
    JUndefined
  | JNull
  | JBool bool
  | JNum jsnum
  | JStr string
  | JArr "js list"
  | JObj "(string \<times> js) list"

abbreviation JInt :: "int \<Rightarrow> js" where
  "JInt i \<equiv> JNum (Fin (of_int i))"

text \<open>\<open>Number.isInteger\<close>, \<open>Number.isFinite\<close> and \<open>Math.trunc\<close> of a finite number.\<close>

fun is_integer :: "jsnum \<Rightarrow> bool" where
  "is_integer (Fin r) = (of_int \<lfloor>r\<rfloor> = r)"
| "is_integer _ = False"

fun is_finite :: "jsnum \<Rightarrow> bool" where
  "is_finite (Fin r) = True"
| "is_finite _ = False"

definition trunc_rat :: "rat \<Rightarrow> int" where
  "trunc_rat r = (if 0 \<le> r then \<lfloor>r\<rfloor> else \<lceil>r\<rceil>)"

lemma is_integer_of_int [simp]: "is_integer (Fin (of_int i))"
  by simp

lemma trunc_rat_of_int [simp]: "trunc_rat (of_int i) = i"
  by (simp add: trunc_rat_def)

text \<open>\<open>isRecord\<close>: an object that is neither null nor an array.\<close>

fun is_record :: "js \<Rightarrow> bool" where
  "is_record (JObj _) = True"
| "is_record _ = False"

text \<open>Property access; an absent property, and any property of a primitive, is undefined.\<close>

fun js_get :: "js \<Rightarrow> string \<Rightarrow> js" where
  "js_get (JObj kvs) k = (case map_of kvs k of None \<Rightarrow> JUndefined | Some v \<Rightarrow> v)"
| "js_get _ k = JUndefined"

fun js_str :: "js \<Rightarrow> string option" where
  "js_str (JStr s) = Some s"
| "js_str _ = None"

lemma js_str_Some [simp]: "js_str v = Some s \<longleftrightarrow> v = JStr s"
  by (cases v) auto

text \<open>A number that is an integer; what is absent, null or undefined; \<open>key in object\<close>.\<close>

fun js_int :: "js \<Rightarrow> int option" where
  "js_int (JNum (Fin r)) = (if is_integer (Fin r) then Some \<lfloor>r\<rfloor> else None)"
| "js_int _ = None"

lemma js_int_JInt [simp]: "js_int (JInt i) = Some i"
  by simp

fun absent :: "js \<Rightarrow> bool" where
  "absent JUndefined = True"
| "absent JNull = True"
| "absent _ = False"

fun has_key :: "js \<Rightarrow> string \<Rightarrow> bool" where
  "has_key (JObj kvs) k = (k \<in> fst ` set kvs)"
| "has_key _ _ = False"

text \<open>A file that is read as JSON, and the optional member of an object literal, \<open>...(v ? {k: v} : {})\<close>.\<close>

datatype file_content = Json js | NotJson

definition opt_field :: "string \<Rightarrow> js option \<Rightarrow> (string \<times> js) list" where
  "opt_field k v = (case v of Some x \<Rightarrow> [(k, x)] | None \<Rightarrow> [])"

lemma map_of_opt_field [simp, js_simps]:
  "map_of (opt_field k v @ r) k' = (if k' = k then (case v of Some x \<Rightarrow> Some x | None \<Rightarrow> map_of r k') else map_of r k')"
  "map_of (opt_field k v) k' = (if k' = k then v else None)"
  by (auto simp: opt_field_def split: option.splits)

text \<open>
  What \<open>JSON.parse(JSON.stringify(v))\<close> returns: undefined members of objects disappear,
  undefined array entries and numbers that are not finite become null.
\<close>

fun json_value :: "js \<Rightarrow> js" where
  "json_value JUndefined = JNull"
| "json_value (JNum n) = (if is_finite n then JNum n else JNull)"
| "json_value (JArr vs) = JArr (map json_value vs)"
| "json_value (JObj kvs) =
     JObj (map (\<lambda>(k, v). (k, json_value v)) (filter (\<lambda>(k, v). v \<noteq> JUndefined) kvs))"
| "json_value v = v"

lemma json_value_not_undefined [simp]: "json_value v \<noteq> JUndefined"
  by (cases v) auto

lemma json_value_idem: "json_value (json_value v) = json_value v"
proof (induction v rule: json_value.induct)
  case (4 kvs)
  then show ?case by (auto simp: filter_map o_def split_def)
qed auto

section \<open>JavaScript containers\<close>

text \<open>
  A \<open>Set\<close> iterates in insertion order: it is a list without duplicates, extended at its end.
  A \<open>Map\<close> is an association list that \<open>AList.update\<close> overwrites in place or extends at its end.
\<close>

definition js_add :: "'a list \<Rightarrow> 'a \<Rightarrow> 'a list" where
  "js_add s x = (if x \<in> set s then s else s @ [x])"

definition js_set :: "'a list \<Rightarrow> 'a list" where
  "js_set xs = foldl js_add [] xs"

lemma set_js_add [simp, js_simps]: "set (js_add s x) = insert x (set s)"
  by (auto simp: js_add_def)

lemma distinct_js_add [simp, js_simps]: "distinct (js_add s x) = distinct s"
  by (auto simp: js_add_def)

lemma set_foldl_js_add: "set (foldl js_add s xs) = set s \<union> set xs"
  by (induction xs arbitrary: s) auto

lemma distinct_foldl_js_add: "distinct (foldl js_add s xs) = distinct s"
  by (induction xs arbitrary: s) auto

lemma set_js_set [simp, js_simps]: "set (js_set xs) = set xs"
  by (simp add: js_set_def set_foldl_js_add)

lemma distinct_js_set [simp, js_simps]: "distinct (js_set xs)"
  by (simp add: js_set_def distinct_foldl_js_add)

lemma foldl_js_add_disjoint:
  "distinct xs \<Longrightarrow> set s \<inter> set xs = {} \<Longrightarrow> foldl js_add s xs = s @ xs"
  by (induction xs arbitrary: s) (auto simp: js_add_def)

lemma js_set_distinct [simp]: "distinct xs \<Longrightarrow> js_set xs = xs"
  by (simp add: js_set_def foldl_js_add_disjoint)

text \<open>\<open>map.get(k) ?? d\<close>.\<close>

definition lookup_or :: "'v \<Rightarrow> ('k \<times> 'v) list \<Rightarrow> 'k \<Rightarrow> 'v" where
  "lookup_or d m k = (case map_of m k of None \<Rightarrow> d | Some v \<Rightarrow> v)"

lemma lookup_or_update [simp, js_simps]:
  "lookup_or d (AList.update k v m) k' = (if k' = k then v else lookup_or d m k')"
  by (auto simp: lookup_or_def update_conv')

lemma lookup_or_Nil [simp]: "lookup_or d [] k = d"
  by (simp add: lookup_or_def)

lemma lookup_or_Cons [simp]:
  "lookup_or d ((k, v) # m) k' = (if k' = k then v else lookup_or d m k')"
  by (simp add: lookup_or_def)

text \<open>\<open>new Map(entries)\<close>: later entries overwrite earlier ones in place.\<close>

definition js_map :: "('k \<times> 'v) list \<Rightarrow> ('k \<times> 'v) list" where
  "js_map kvs = foldl (\<lambda>m (k, v). AList.update k v m) [] kvs"

lemma map_of_foldl_update:
  "map_of (foldl (\<lambda>m (k, v). AList.update k v m) m kvs) k =
     (case map_of (rev kvs) k of None \<Rightarrow> map_of m k | Some v \<Rightarrow> Some v)"
proof (induction kvs arbitrary: m)
  case (Cons p kvs)
  obtain k' v' where [simp]: "p = (k', v')" by (cases p)
  show ?case
    by (simp add: Cons.IH) (auto simp: update_conv' map_add_def split: option.splits)
qed simp

lemma lookup_or_js_map:
  assumes "distinct (map fst kvs)"
  shows "lookup_or d (js_map kvs) k = lookup_or d kvs k"
proof -
  have "map_of (rev kvs) = map_of kvs"
    using assms by (intro map_of_inject_set [THEN iffD2]) (auto simp: rev_map [symmetric])
  then show ?thesis
    by (simp add: lookup_or_def js_map_def map_of_foldl_update split: option.splits)
qed

text \<open>\<open>findIndex\<close> (\<open>None\<close> for -1), \<open>find\<close> and \<open>slice(-n)\<close>.\<close>

fun find_index :: "('a \<Rightarrow> bool) \<Rightarrow> 'a list \<Rightarrow> nat option" where
  "find_index P [] = None"
| "find_index P (x # xs) = (if P x then Some 0 else map_option Suc (find_index P xs))"

lemma find_index_Some:
  "find_index P xs = Some i \<Longrightarrow> i < length xs \<and> P (xs ! i) \<and> (\<forall>j < i. \<not> P (xs ! j))"
  by (induction xs arbitrary: i) (auto simp: less_Suc_eq_0_disj split: if_splits)

lemma find_index_None: "find_index P xs = None \<longleftrightarrow> (\<forall>x \<in> set xs. \<not> P x)"
  by (induction xs) auto

definition take_last :: "nat \<Rightarrow> 'a list \<Rightarrow> 'a list" where
  "take_last n xs = drop (length xs - n) xs"

lemma length_take_last [simp]: "length (take_last n xs) = min n (length xs)"
  by (simp add: take_last_def min_def)

lemma set_take_last: "set (take_last n xs) \<subseteq> set xs"
  by (simp add: take_last_def set_drop_subset)

section \<open>JavaScript strings\<close>

text \<open>The white space that \<open>trim\<close> removes, among the code units below 256.\<close>

definition is_space :: "char \<Rightarrow> bool" where
  "is_space c \<longleftrightarrow> (let n = of_char c :: nat in (9 \<le> n \<and> n \<le> 13) \<or> n = 32 \<or> n = 160)"

definition trim :: "string \<Rightarrow> string" where
  "trim s = rev (dropWhile is_space (rev (dropWhile is_space s)))"

definition lower_char :: "char \<Rightarrow> char" where
  "lower_char c = (let n = of_char c :: nat in
     if (65 \<le> n \<and> n \<le> 90) \<or> (192 \<le> n \<and> n \<le> 222 \<and> n \<noteq> 215) then char_of (n + 32) else c)"

definition to_lower :: "string \<Rightarrow> string" where
  "to_lower s = map lower_char s"

text \<open>The decimal rendering of a natural number.\<close>

fun nat_str :: "nat \<Rightarrow> string" where
  "nat_str n = (if n < 10 then [char_of (48 + n)]
     else nat_str (n div 10) @ [char_of (48 + n mod 10)])"

declare nat_str.simps [simp del]

text \<open>A string in single quotes, and \<open>join(sep)\<close>.\<close>

definition quoted :: "string \<Rightarrow> string" where
  "quoted s = [CHR 0x27] @ s @ [CHR 0x27]"

fun join :: "string \<Rightarrow> string list \<Rightarrow> string" where
  "join sep [] = []"
| "join sep [x] = x"
| "join sep (x # y # ys) = x @ sep @ join sep (y # ys)"

text \<open>\<open>split(sep)\<close> for a separator of one character.\<close>

fun split_on :: "char \<Rightarrow> string \<Rightarrow> string list" where
  "split_on c [] = [[]]"
| "split_on c (x # xs) =
     (if x = c then [] # split_on c xs
      else (case split_on c xs of [] \<Rightarrow> [[x]] | p # ps \<Rightarrow> (x # p) # ps))"

lemma split_on_nonempty [simp]: "split_on c s \<noteq> []"
  by (induction s) (auto split: list.splits)

lemma dropWhile_hd_not: "dropWhile P xs \<noteq> [] \<Longrightarrow> \<not> P (hd (dropWhile P xs))"
  by (induction xs) auto

lemma dropWhile_twice: "dropWhile P (dropWhile P xs) = dropWhile P xs"
  by (induction xs) auto

lemma trim_trim [simp]: "trim (trim s) = trim s"
proof -
  have h: "dropWhile is_space (trim s) = trim s"
  proof (cases "trim s")
    case (Cons c cs)
    let ?t = "dropWhile is_space s"
    have "?t \<noteq> []" using Cons by (metis dropWhile.simps(1) list.distinct(1) rev.simps(1) trim_def)
    moreover have "\<exists>r. ?t = trim s @ r"
    proof -
      have "rev ?t = takeWhile is_space (rev ?t) @ dropWhile is_space (rev ?t)" by simp
      then have "?t = rev (dropWhile is_space (rev ?t)) @ rev (takeWhile is_space (rev ?t))"
        by (metis rev_append rev_rev_ident)
      then show ?thesis by (auto simp: trim_def)
    qed
    ultimately have "\<not> is_space c"
      using dropWhile_hd_not [of is_space s] Cons by auto
    then show ?thesis using Cons by simp
  qed simp
  have "dropWhile is_space (rev (trim s)) = rev (trim s)"
    by (simp add: trim_def dropWhile_twice)
  then show ?thesis using h unfolding trim_def by simp
qed

text \<open>Decimal digits and \<open>Number.parseInt(s, 10)\<close> (\<open>None\<close> for \<open>NaN\<close>).\<close>

definition is_digit :: "char \<Rightarrow> bool" where
  "is_digit c \<longleftrightarrow> 48 \<le> (of_char c :: nat) \<and> (of_char c :: nat) \<le> 57"

definition digits_value :: "string \<Rightarrow> nat" where
  "digits_value ds = foldl (\<lambda>n c. 10 * n + (of_char c - 48)) 0 ds"

definition parse_int :: "string \<Rightarrow> int option" where
  "parse_int s = (let t = dropWhile is_space s;
     neg = (t \<noteq> [] \<and> hd t = CHR ''-'');
     body = (if t \<noteq> [] \<and> (hd t = CHR ''-'' \<or> hd t = CHR ''+'') then tl t else t);
     ds = takeWhile is_digit body
     in if ds = [] then None else Some ((if neg then -1 else 1) * int (digits_value ds)))"

lemma digits_value_snoc: "digits_value (ds @ [c]) = 10 * digits_value ds + (of_char c - 48)"
  by (simp add: digits_value_def)

lemma nat_str_digits: "nat_str n \<noteq> [] \<and> (\<forall>c \<in> set (nat_str n). is_digit c) \<and> digits_value (nat_str n) = n"
proof (induction n rule: nat_str.induct)
  case (1 n)
  show ?case
  proof (cases "n < 10")
    case True
    then show ?thesis by (simp add: nat_str.simps [of n] is_digit_def digits_value_def)
  next
    case False
    have "n mod 10 < 10" by simp
    then have "is_digit (char_of (48 + n mod 10))" "(of_char (char_of (48 + n mod 10) :: char) :: nat) - 48 = n mod 10"
      by (simp_all add: is_digit_def)
    then show ?thesis using 1 False by (auto simp: nat_str.simps [of n] digits_value_snoc)
  qed
qed

lemma digit_not_space: "is_digit c \<Longrightarrow> \<not> is_space c \<and> c \<noteq> CHR ''-'' \<and> c \<noteq> CHR ''+''"
  by (auto simp: is_digit_def is_space_def Let_def)

lemma parse_int_nat_str: "parse_int (nat_str n) = Some (int n)"
proof -
  obtain c cs where n: "nat_str n = c # cs" "is_digit c" "\<forall>c \<in> set cs. is_digit c"
    using nat_str_digits [of n] by (cases "nat_str n") auto
  then have tw: "takeWhile is_digit cs = cs" by (simp add: takeWhile_eq_all_conv)
  show ?thesis
    using n digit_not_space [OF n(2)] nat_str_digits [of n] by (simp add: parse_int_def Let_def tw)
qed

text \<open>A rendering of times with its parser, for the concrete runs of the development.\<close>

definition demo_iso :: "time \<Rightarrow> string" where
  "demo_iso t = nat_str (if 0 \<le> t then 2 * nat t else 2 * nat (- t) + 1)"

definition demo_date :: "string \<Rightarrow> time option" where
  "demo_date s = map_option (\<lambda>n. if even n then n div 2 else - (n div 2)) (parse_int s)"

lemma demo_iso_inverse: "demo_date (demo_iso t) = Some t"
  by (auto simp: demo_iso_def demo_date_def parse_int_nat_str)

text \<open>\<open>startsWith\<close>, \<open>endsWith\<close>, \<open>includes\<close>, and \<open>split(/\r?\n/)\<close>.\<close>

definition starts_with :: "string \<Rightarrow> string \<Rightarrow> bool" where
  "starts_with p s \<longleftrightarrow> take (length p) s = p"

definition ends_with :: "string \<Rightarrow> string \<Rightarrow> bool" where
  "ends_with p s \<longleftrightarrow> length p \<le> length s \<and> drop (length s - length p) s = p"

fun has_substring :: "string \<Rightarrow> string \<Rightarrow> bool" where
  "has_substring p [] = (p = [])"
| "has_substring p (c # cs) = (starts_with p (c # cs) \<or> has_substring p cs)"

definition chomp :: "string \<Rightarrow> string" where
  "chomp l = (if l \<noteq> [] \<and> last l = CHR 0x0D then butlast l else l)"

definition split_lines :: "string \<Rightarrow> string list" where
  "split_lines s = (let ls = split_on CHR 0x0A s in map chomp (butlast ls) @ [last ls])"

lemma starts_with_append [simp]: "starts_with p (p @ s)"
  by (simp add: starts_with_def)

lemma split_on_append:
  "c \<notin> set x \<Longrightarrow> split_on c (x @ c # y) = x # split_on c y"
  by (induction x) auto

lemma split_on_single: "c \<notin> set x \<Longrightarrow> split_on c x = [x]"
  by (induction x) auto

lemma trim_id: "s \<noteq> [] \<Longrightarrow> \<not> is_space (hd s) \<Longrightarrow> \<not> is_space (last s) \<Longrightarrow> trim s = s"
proof -
  assume s: "s \<noteq> []" "\<not> is_space (hd s)" "\<not> is_space (last s)"
  have "dropWhile is_space s = s" using s by (cases s) auto
  moreover have "dropWhile is_space (rev s) = rev s" using s by (cases "rev s") (auto simp: last_rev [symmetric])
  ultimately show ?thesis by (simp add: trim_def)
qed

section \<open>Finding rows\<close>

lemma find_filter_hd: "find P xs = (case filter P xs of [] \<Rightarrow> None | x # _ \<Rightarrow> Some x)"
  by (induction xs) auto

lemma find_filter_conj: "find P (filter Q xs) = find (\<lambda>x. Q x \<and> P x) xs"
  by (induction xs) auto

lemma find_map_comp: "find P (map f xs) = map_option f (find (\<lambda>x. P (f x)) xs)"
  by (induction xs) auto

lemma find_eq_None: "find P xs = None \<longleftrightarrow> (\<forall>x \<in> set xs. \<not> P x)"
  by (induction xs) auto

lemma find_SomeD: "find P xs = Some x \<Longrightarrow> x \<in> set xs \<and> P x"
  by (induction xs) (auto split: if_splits)

lemma find_append: "find P (xs @ ys) = (case find P xs of None \<Rightarrow> find P ys | Some x \<Rightarrow> Some x)"
  by (induction xs) auto

lemma find_sort_key: "find (\<lambda>x. f x = k) (sort_key f xs) = find (\<lambda>x. f x = k) xs"
proof -
  have "filter (\<lambda>x. f x = k) (sort_key f xs) = filter (\<lambda>x. f x = k) xs"
    by (rule sort_key_stable)
  then show ?thesis by (simp add: find_filter_hd)
qed

lemma find_key_update:
  assumes "\<And>x. key (f x) = key x"
  shows "find (\<lambda>x. key x = k) (map (\<lambda>x. if key x = k' then f x else x) xs) =
    (if k = k' then map_option f (find (\<lambda>x. key x = k) xs) else find (\<lambda>x. key x = k) xs)"
  by (induction xs) (auto simp: assms)

lemma find_key_distinct:
  "distinct (map key xs) \<Longrightarrow> x \<in> set xs \<Longrightarrow> find (\<lambda>y. key y = key x) xs = Some x"
  by (induction xs) force+

lemma find_key_append:
  "find (\<lambda>x. key x = k) (xs @ [y]) =
     (if find (\<lambda>x. key x = k) xs = None \<and> key y = k then Some y else find (\<lambda>x. key x = k) xs)"
  by (induction xs) auto

lemma find_key_replace:
  "find (\<lambda>x. key x = k) (map (\<lambda>x. if key x = key y then y else x) xs) =
    (if k = key y then map_option (\<lambda>_. y) (find (\<lambda>x. key x = k) xs) else find (\<lambda>x. key x = k) xs)"
  by (induction xs) auto

end
