(* ===== verification/WorkflowDag.thy ===== *)
theory WorkflowDag
  imports Prelude
begin

text \<open>
  The dependency graph of a workflow template: \<open>control-plane/workflow-template-dag.ts\<close>.
  Template tasks arrive as untyped JavaScript values. They are normalised, checked (ids,
  dependency lists, missing and self dependencies, cycles) and ordered by Kahn's algorithm with a
  ready list kept in template order.

  The cycle check is proved sound and complete, an accepted template is characterised
  independently of the code, and the order is proved to be a topological permutation of the ids.
\<close>

section \<open>Definitions\<close>

record dag_issue =
  issue_path :: string
  issue_message :: string
  issue_keyword :: string

record dag_task =
  task_id :: string
  task_index :: nat
  task_deps :: "string list"

record dag_definition =
  taskOrder :: "string list"
  dependenciesByTaskId :: "(string \<times> string list) list"

record normalize_state =
  ns_normalized :: "dag_task list"
  ns_issues :: "dag_issue list"
  ns_seen :: "string list"
  ns_duplicates :: "string list"

definition mk_issue :: "string \<Rightarrow> string \<Rightarrow> string \<Rightarrow> dag_issue" where
  "mk_issue p m k = \<lparr>issue_path = p, issue_message = m, issue_keyword = k\<rparr>"

definition normalizeDependencyList ::
    "js \<Rightarrow> string \<Rightarrow> dag_issue list \<Rightarrow> string list \<times> dag_issue list" where
  "normalizeDependencyList value p issues =
     (if value = JUndefined then ([], issues)
      else case (case value of JArr vs \<Rightarrow> those (map js_str vs) | _ \<Rightarrow> None) of
        None \<Rightarrow> ([], issues @ [mk_issue p (p @ '' must be an array of strings.'') ''type''])
      | Some ss \<Rightarrow> (js_set ss, issues))"

definition normalizeDagTask :: "string \<Rightarrow> normalize_state \<Rightarrow> nat \<times> js \<Rightarrow> normalize_state" where
  "normalizeDagTask p st it = (case it of (i, task) \<Rightarrow>
     (case (if is_record task then js_str (js_get task ''id'') else None) of
        None \<Rightarrow> st\<lparr>ns_issues := ns_issues st @
          [mk_issue (p @ ''.'' @ nat_str i @ ''.id'')
            (''Workflow task template at index '' @ nat_str i @ '' must include an id.'')
            ''required'']\<rparr>
      | Some tid \<Rightarrow>
          if tid = [] then st\<lparr>ns_issues := ns_issues st @
            [mk_issue (p @ ''.'' @ nat_str i @ ''.id'')
              (''Workflow task template at index '' @ nat_str i @ '' must include an id.'')
              ''required'']\<rparr>
          else
            (let dups = (if tid \<in> set (ns_seen st) then js_add (ns_duplicates st) tid
                         else ns_duplicates st);
                 (deps, issues) = normalizeDependencyList (js_get task ''dependsOn'')
                   (p @ ''.'' @ nat_str i @ ''.dependsOn'') (ns_issues st)
             in \<lparr>ns_normalized = ns_normalized st @
                   [\<lparr>task_id = tid, task_index = i, task_deps = deps\<rparr>],
                 ns_issues = issues,
                 ns_seen = js_add (ns_seen st) tid,
                 ns_duplicates = dups\<rparr>)))"

definition normalizeDagTasks :: "js list \<Rightarrow> string \<Rightarrow> dag_task list \<times> dag_issue list" where
  "normalizeDagTasks tasks p =
     (let st = foldl (normalizeDagTask p)
            \<lparr>ns_normalized = [], ns_issues = [], ns_seen = [], ns_duplicates = []\<rparr>
            (enumerate 0 tasks)
      in (ns_normalized st,
          if ns_duplicates st \<noteq> []
          then ns_issues st @
            [mk_issue p (''Workflow task ids must be unique: '' @ join '', '' (sort (ns_duplicates st)))
              ''uniqueTaskIds'']
          else ns_issues st))"

subsection \<open>The cycle search\<close>

record dfs_state =
  visited :: "string list"
  visiting :: "string list"
  stack :: "string list"

abbreviation dfs_init :: dfs_state where
  "dfs_init \<equiv> \<lparr>visited = [], visiting = [], stack = []\<rparr>"

abbreviation deps_of :: "(string \<times> string list) list \<Rightarrow> string \<Rightarrow> string list" where
  "deps_of deps t \<equiv> lookup_or [] deps t"

definition index_of :: "'a \<Rightarrow> 'a list \<Rightarrow> nat" where
  "index_of x xs = length (takeWhile (\<lambda>y. y \<noteq> x) xs)"

definition enter :: "string \<Rightarrow> dfs_state \<Rightarrow> dfs_state" where
  "enter t s = s\<lparr>visiting := js_add (visiting s) t, stack := stack s @ [t]\<rparr>"

definition leave :: "string \<Rightarrow> dfs_state \<Rightarrow> dfs_state" where
  "leave t s = s\<lparr>stack := butlast (stack s), visiting := removeAll t (visiting s),
     visited := js_add (visited s) t\<rparr>"

text \<open>
  \<open>visit_all\<close> is the loop over a list of ids that stops at the first cycle: the loop of
  \<open>findCycle\<close> over the tasks and the loop of \<open>visit\<close> over the dependencies.
\<close>

function visit :: "(string \<times> string list) list \<Rightarrow> string \<Rightarrow> dfs_state \<Rightarrow>
      string list option \<times> dfs_state"
  and visit_all :: "(string \<times> string list) list \<Rightarrow> string list \<Rightarrow> dfs_state \<Rightarrow>
      string list option \<times> dfs_state" where
  "visit deps t s =
     (if t \<in> set (visited s) then (None, s)
      else if t \<in> set (visiting s)
      then (Some (drop (index_of t (stack s)) (stack s) @ [t]), s)
      else case visit_all deps (deps_of deps t) (enter t s) of
        (Some c, s') \<Rightarrow> (Some c, s')
      | (None, s') \<Rightarrow> (None, leave t s'))"
| "visit_all deps [] s = (None, s)"
| "visit_all deps (t # ts) s =
     (case visit deps t s of
        (Some c, s') \<Rightarrow> (Some c, s')
      | (None, s') \<Rightarrow> visit_all deps ts s')"
  by pat_completeness auto

definition seen_ids :: "dfs_state \<Rightarrow> string set" where
  "seen_ids s = set (visited s) \<union> set (visiting s)"

lemma seen_ids_enter [simp]: "seen_ids (enter t s) = insert t (seen_ids s)"
  by (auto simp: enter_def seen_ids_def)

lemma seen_ids_leave [simp]: "seen_ids (leave t s) = insert t (seen_ids s)"
  by (auto simp: leave_def seen_ids_def)

lemma visit_seen_mono:
  "visit_visit_all_dom (Inl (deps, t, s)) \<Longrightarrow> seen_ids s \<subseteq> seen_ids (snd (visit deps t s))"
  "visit_visit_all_dom (Inr (deps, ts, s)) \<Longrightarrow> seen_ids s \<subseteq> seen_ids (snd (visit_all deps ts s))"
proof (induction deps t s and deps ts s rule: visit_visit_all.pinduct)
  case (1 deps t s)
  show ?case
  proof (cases "t \<in> seen_ids s")
    case True
    then show ?thesis using 1(1) by (auto simp: visit.psimps seen_ids_def)
  next
    case False
    then have "seen_ids (enter t s) \<subseteq> seen_ids (snd (visit_all deps (deps_of deps t) (enter t s)))"
      using 1(2) by (simp add: seen_ids_def)
    moreover have "t \<notin> set (visited s)" "t \<notin> set (visiting s)"
      using False by (auto simp: seen_ids_def)
    ultimately show ?thesis using 1(1)
      by (cases "visit_all deps (deps_of deps t) (enter t s)"; cases "fst (visit_all deps (deps_of deps t) (enter t s))")
         (auto simp: visit.psimps)
  qed
next
  case (2 deps s)
  then show ?case by (simp add: visit_all.psimps)
next
  case (3 deps t ts s)
  show ?case
  proof (cases "visit deps t s")
    case (Pair r s')
    show ?thesis
    proof (cases r)
      case None
      then show ?thesis using 3 Pair by (auto simp: visit_all.psimps)
    next
      case (Some c)
      then show ?thesis using 3 Pair by (simp add: visit_all.psimps)
    qed
  qed
qed

definition dag_universe :: "(string \<times> string list) list \<Rightarrow> string set" where
  "dag_universe deps = set (map fst deps) \<union> \<Union> (set ` set (map snd deps))"

lemma finite_dag_universe [simp]: "finite (dag_universe deps)"
  by (simp add: dag_universe_def)

lemma deps_of_outside [simp]: "t \<notin> dag_universe deps \<Longrightarrow> deps_of deps t = []"
  by (auto simp: dag_universe_def lookup_or_def dest!: map_of_SomeD split: option.splits)
     (metis fst_conv image_eqI)

abbreviation dfs_measure where
  "dfs_measure \<equiv> inv_image (finite_psubset <*lex*> less_than)
     (\<lambda>x. case x of Inl (deps, t, s) \<Rightarrow> (dag_universe deps - seen_ids s, 1::nat)
                  | Inr (deps, ts, s) \<Rightarrow> (dag_universe deps - seen_ids s, 2 * length ts))"

termination visit
proof (relation dfs_measure, goal_cases)
  case 1
  show ?case by (intro wf_inv_image wf_lex_prod) auto
next
  case (2 deps t s)
  then have "t \<notin> seen_ids s" by (simp add: seen_ids_def)
  then show ?case
    by (cases "t \<in> dag_universe deps") auto
next
  case (3 deps t ts s)
  show ?case by simp
next
  case (4 deps t ts s x s')
  then have "seen_ids s \<subseteq> seen_ids s'"
    using visit_seen_mono(1) [of deps t s] by (metis snd_conv)
  then have "dag_universe deps - seen_ids s' \<subseteq> dag_universe deps - seen_ids s" by blast
  then show ?case by auto
qed

declare visit.simps [simp del] visit_all.simps(2) [simp del]

definition findCycle :: "dag_task list \<Rightarrow> string list option" where
  "findCycle tasks =
     fst (visit_all (js_map (map (\<lambda>t. (task_id t, task_deps t)) tasks)) (map task_id tasks) dfs_init)"

subsection \<open>Validation\<close>

definition dependency_issue :: "string list \<Rightarrow> string \<Rightarrow> dag_task \<Rightarrow> string \<Rightarrow> dag_issue list" where
  "dependency_issue taskIds p t d =
     (if d = task_id t then
        [mk_issue (p @ ''.'' @ nat_str (task_index t) @ ''.dependsOn'')
          (''Workflow task '' @ quoted (task_id t) @ '' cannot depend on itself.'') ''selfDependency'']
      else if d \<notin> set taskIds then
        [mk_issue (p @ ''.'' @ nat_str (task_index t) @ ''.dependsOn'')
          (''Workflow task '' @ quoted (task_id t) @ '' depends on missing task '' @ quoted d @ ''.'')
          ''missingDependency'']
      else [])"

definition validateNormalizedDagTasks :: "dag_task list \<Rightarrow> string \<Rightarrow> dag_issue list" where
  "validateNormalizedDagTasks normalized p =
     (let taskIds = js_set (map task_id normalized);
          issues = concat (map (\<lambda>t. concat (map (dependency_issue taskIds p t) (task_deps t))) normalized)
      in if issues \<noteq> [] then issues
         else case findCycle normalized of
           Some cycle \<Rightarrow>
             [mk_issue p (''Workflow task dependencies must not contain cycles: '' @ join '' -> '' cycle @ ''.'')
               ''cycle'']
         | None \<Rightarrow> [])"

definition validateWorkflowTemplateDag :: "js \<Rightarrow> string \<Rightarrow> dag_issue list" where
  "validateWorkflowTemplateDag tasks p =
     (case tasks of
        JArr ts \<Rightarrow>
          if ts = [] then
            [mk_issue p ''Workflow template must include at least one task.'' ''minItems'']
          else (case normalizeDagTasks ts p of (normalized, issues) \<Rightarrow>
            if issues \<noteq> [] then issues else validateNormalizedDagTasks normalized p)
      | _ \<Rightarrow> [mk_issue p ''Workflow template must include at least one task.'' ''minItems''])"

subsection \<open>Kahn's algorithm\<close>

fun release_dependents :: "(string \<Rightarrow> nat) \<Rightarrow> string list \<Rightarrow> (string \<times> int) list \<Rightarrow> string list \<Rightarrow>
      (string \<times> int) list \<times> string list" where
  "release_dependents ix [] indegree ready = (indegree, ready)"
| "release_dependents ix (d # ds) indegree ready =
     (let n = lookup_or 0 indegree d - 1;
          indegree' = AList.update d n indegree
      in release_dependents ix ds indegree'
           (if n = 0 then sort_key ix (ready @ [d]) else ready))"

definition pending_work :: "(string \<times> int) list \<Rightarrow> string list \<Rightarrow> nat" where
  "pending_work indegree ready = length ready + sum_list (map (\<lambda>kv. nat (snd kv)) indegree)"

lemma pending_work_update:
  "sum_list (map (\<lambda>kv. nat (snd kv)) (AList.update d (lookup_or 0 m d - 1) m)) +
     (if 1 \<le> lookup_or 0 m d then 1 else 0) = sum_list (map (\<lambda>kv. nat (snd kv)) m)"
  by (induction m) auto

lemma pending_work_release:
  "pending_work (fst (release_dependents ix ds m ready)) (snd (release_dependents ix ds m ready))
     \<le> pending_work m ready"
proof (induction ds arbitrary: m ready)
  case (Cons d ds)
  let ?n = "lookup_or 0 m d - 1"
  let ?r = "if ?n = 0 then sort_key ix (ready @ [d]) else ready"
  have "pending_work (AList.update d ?n m) ?r \<le> pending_work m ready"
    using pending_work_update [of d m] by (auto simp: pending_work_def split: if_splits)
  then show ?case
    using Cons.IH [of "AList.update d ?n m" ?r] by (simp add: Let_def)
qed simp

function kahn :: "(string \<Rightarrow> nat) \<Rightarrow> (string \<times> string list) list \<Rightarrow> string list \<Rightarrow>
      (string \<times> int) list \<Rightarrow> string list \<Rightarrow> string list" where
  "kahn ix dependents [] indegree order = order"
| "kahn ix dependents (t # ready) indegree order =
     (case release_dependents ix (lookup_or [] dependents t) indegree ready of
        (indegree', ready') \<Rightarrow> kahn ix dependents ready' indegree' (order @ [t]))"
  by pat_completeness auto

termination
proof (relation "measure (\<lambda>(ix, dependents, ready, indegree, order). pending_work indegree ready)",
    goal_cases)
  case (2 ix dependents t ready indegree order indegree' ready')
  then have "pending_work indegree' ready' \<le> pending_work indegree ready"
    using pending_work_release [of ix "lookup_or [] dependents t" indegree ready] by (metis fst_conv snd_conv)
  then show ?case by (simp add: pending_work_def)
qed simp

definition add_dependents :: "(string \<times> string list) list \<Rightarrow> dag_task \<Rightarrow> (string \<times> string list) list" where
  "add_dependents m t =
     foldl (\<lambda>m d. AList.update d (lookup_or [] m d @ [task_id t]) m) m (task_deps t)"

definition buildWorkflowTemplateDag :: "js list \<Rightarrow> string \<Rightarrow> dag_definition result" where
  "buildWorkflowTemplateDag tasks p =
     (let normalized = fst (normalizeDagTasks tasks p);
          issues = validateNormalizedDagTasks normalized p
      in if issues \<noteq> [] then Inl (AthenaError CONFIG_ERROR (join ''; '' (map issue_message issues)) False)
         else
           let dependencies = js_map (map (\<lambda>t. (task_id t, task_deps t)) normalized);
               index_by_id = js_map (map (\<lambda>t. (task_id t, task_index t)) normalized);
               indegree = js_map (map (\<lambda>t. (task_id t, int (length (task_deps t)))) normalized);
               ix = lookup_or 0 index_by_id;
               dependents = map (\<lambda>(k, v). (k, sort_key ix v)) (foldl add_dependents [] normalized);
               ready = map task_id (filter (\<lambda>t. task_deps t = []) normalized)
           in Inr \<lparr>taskOrder = kahn ix dependents ready indegree [],
                   dependenciesByTaskId = dependencies\<rparr>)"

definition parseWorkflowTemplateDag :: "js \<Rightarrow> string \<Rightarrow> dag_definition result" where
  "parseWorkflowTemplateDag tasks p =
     (let issues = validateWorkflowTemplateDag tasks p
      in if issues \<noteq> [] then Inl (AthenaError CONFIG_ERROR (join ''; '' (map issue_message issues)) False)
         else buildWorkflowTemplateDag (case tasks of JArr ts \<Rightarrow> ts | _ \<Rightarrow> []) p)"

section \<open>The cycle search is sound and complete\<close>

definition dep_edges :: "(string \<times> string list) list \<Rightarrow> (string \<times> string) set" where
  "dep_edges deps = {(t, d). d \<in> set (deps_of deps t)}"

definition is_cycle :: "(string \<times> string list) list \<Rightarrow> string list \<Rightarrow> bool" where
  "is_cycle deps c \<longleftrightarrow> 2 \<le> length c \<and> hd c = last c \<and>
     successively (\<lambda>x y. (x, y) \<in> dep_edges deps) c"

text \<open>
  The stack is the current path, its elements are the ids being visited; a visited id has only
  visited dependencies and lies on no cycle.
\<close>

definition dfs_inv :: "(string \<times> string list) list \<Rightarrow> dfs_state \<Rightarrow> bool" where
  "dfs_inv deps s \<longleftrightarrow>
     successively (\<lambda>x y. (x, y) \<in> dep_edges deps) (stack s) \<and>
     set (stack s) = set (visiting s) \<and>
     set (visited s) \<inter> set (visiting s) = {} \<and>
     (\<forall>v \<in> set (visited s). set (deps_of deps v) \<subseteq> set (visited s) \<and> (v, v) \<notin> (dep_edges deps)\<^sup>+)"

definition extends_path :: "(string \<times> string list) list \<Rightarrow> dfs_state \<Rightarrow> string \<Rightarrow> bool" where
  "extends_path deps s t \<longleftrightarrow> (stack s \<noteq> [] \<longrightarrow> (last (stack s), t) \<in> dep_edges deps)"

definition dfs_done :: "(string \<times> string list) list \<Rightarrow> string set \<Rightarrow> dfs_state \<Rightarrow>
    string list option \<times> dfs_state \<Rightarrow> bool" where
  "dfs_done deps ts s r = (case r of
     (Some c, _) \<Rightarrow> is_cycle deps c
   | (None, s') \<Rightarrow> dfs_inv deps s' \<and> stack s' = stack s \<and> set (visiting s') = set (visiting s) \<and>
       set (visited s) \<subseteq> set (visited s') \<and> ts \<subseteq> set (visited s'))"

lemma closed_trancl:
  assumes "\<forall>v \<in> V. set (deps_of deps v) \<subseteq> V" and "v \<in> V" and "(v, w) \<in> (dep_edges deps)\<^sup>*"
  shows "w \<in> V"
  using assms(3,2) by (induction) (use assms(1) in \<open>auto simp: dep_edges_def\<close>)

lemma drop_index_of:
  assumes "t \<in> set xs"
  shows "drop (index_of t xs) xs \<noteq> []" "hd (drop (index_of t xs) xs) = t"
  using assms by (induction xs) (auto simp: index_of_def)

lemma back_edge_is_cycle:
  assumes "dfs_inv deps s" "extends_path deps s t" "t \<in> set (visiting s)"
  shows "is_cycle deps (drop (index_of t (stack s)) (stack s) @ [t])"
proof -
  let ?d = "drop (index_of t (stack s)) (stack s)"
  have t: "t \<in> set (stack s)" using assms by (simp add: dfs_inv_def)
  have d: "?d \<noteq> []" "hd ?d = t" using drop_index_of [OF t] by auto
  have "successively (\<lambda>x y. (x, y) \<in> dep_edges deps) ?d"
    using assms(1) append_take_drop_id [of "index_of t (stack s)" "stack s"]
    unfolding dfs_inv_def by (metis successively_append_iff)
  moreover have "(last ?d, t) \<in> dep_edges deps"
    using assms(2) d t by (auto simp: extends_path_def)
  ultimately show ?thesis
    using d by (simp add: is_cycle_def successively_append_iff Suc_le_eq)
qed

lemma leave_inv:
  assumes inv: "dfs_inv deps s" and new: "t \<notin> seen_ids s"
    and r: "dfs_done deps (set (deps_of deps t)) (enter t s) (None, s')"
  shows "dfs_done deps {t} s (None, leave t s')"
proof -
  have s': "dfs_inv deps s'" "stack s' = stack s @ [t]" "set (visiting s') = insert t (set (visiting s))"
      "set (visited s) \<subseteq> set (visited s')" "set (deps_of deps t) \<subseteq> set (visited s')"
    using r by (auto simp: dfs_done_def enter_def)
  have t: "t \<notin> set (visited s')" using s' by (auto simp: dfs_inv_def)
  have closed: "\<forall>v \<in> set (visited s'). set (deps_of deps v) \<subseteq> set (visited s')"
    using s'(1) by (auto simp: dfs_inv_def)
  have "(t, t) \<notin> (dep_edges deps)\<^sup>+"
  proof
    assume "(t, t) \<in> (dep_edges deps)\<^sup>+"
    then obtain d where "(t, d) \<in> dep_edges deps" "(d, t) \<in> (dep_edges deps)\<^sup>*"
      by (meson tranclD)
    then show False
      using closed_trancl [OF closed, of d t] s'(5) t by (auto simp: dep_edges_def)
  qed
  then show ?thesis
    using s' inv new t
    by (auto simp: dfs_done_def dfs_inv_def leave_def seen_ids_def successively_append_iff)
qed

lemma visit_correct:
  "dfs_inv deps s \<Longrightarrow> extends_path deps s t \<Longrightarrow> dfs_done deps {t} s (visit deps t s)"
  "dfs_inv deps s \<Longrightarrow> (\<forall>t \<in> set ts. extends_path deps s t) \<Longrightarrow>
     dfs_done deps (set ts) s (visit_all deps ts s)"
proof (induction deps t s and deps ts s rule: visit_visit_all.induct)
  case (1 deps t s)
  consider "t \<in> set (visited s)" | "t \<notin> set (visited s)" "t \<in> set (visiting s)" | "t \<notin> seen_ids s"
    by (auto simp: seen_ids_def)
  then show ?case
  proof cases
    case 1
    then show ?thesis using "1.prems" by (simp add: visit.simps dfs_done_def)
  next
    case 2
    then show ?thesis
      using back_edge_is_cycle [OF "1.prems"] by (simp add: visit.simps dfs_done_def)
  next
    case 3
    then have n: "t \<notin> set (visited s)" "t \<notin> set (visiting s)" by (auto simp: seen_ids_def)
    have "dfs_inv deps (enter t s)"
      using "1.prems" n by (auto simp: dfs_inv_def enter_def extends_path_def successively_append_iff)
    moreover have "\<forall>d \<in> set (deps_of deps t). extends_path deps (enter t s) d"
      by (simp add: extends_path_def enter_def dep_edges_def)
    ultimately have r: "dfs_done deps (set (deps_of deps t)) (enter t s)
        (visit_all deps (deps_of deps t) (enter t s))"
      using "1.IH" n by blast
    obtain o' s' where v: "visit_all deps (deps_of deps t) (enter t s) = (o', s')" by fastforce
    show ?thesis
    proof (cases o')
      case None
      then show ?thesis
        using leave_inv [OF "1.prems"(1) 3] r v n by (simp add: visit.simps)
    next
      case (Some c)
      then show ?thesis using r v n by (simp add: visit.simps dfs_done_def)
    qed
  qed
next
  case (2 deps s)
  then show ?case by (simp add: dfs_done_def)
next
  case (3 deps t ts s)
  obtain o' s' where v: "visit deps t s = (o', s')" by fastforce
  have r: "dfs_done deps {t} s (o', s')" using 3 v by simp
  show ?case
  proof (cases o')
    case None
    then have "\<forall>t \<in> set ts. extends_path deps s' t"
      using r "3.prems" by (auto simp: dfs_done_def extends_path_def)
    then have "dfs_done deps (set ts) s' (visit_all deps ts s')"
      using 3 v None r by (auto simp: dfs_done_def)
    then show ?thesis
      using r v None by (auto simp: visit_all.simps dfs_done_def split: option.splits prod.splits)
  next
    case (Some c)
    then show ?thesis using r v by (simp add: visit_all.simps dfs_done_def)
  qed
qed


abbreviation task_deps_map :: "dag_task list \<Rightarrow> (string \<times> string list) list" where
  "task_deps_map tasks \<equiv> js_map (map (\<lambda>t. (task_id t, task_deps t)) tasks)"

lemma successively_rtrancl:
  "successively (\<lambda>x y. (x, y) \<in> r) (x # xs) \<Longrightarrow> (x, last (x # xs)) \<in> r\<^sup>*"
  by (induction xs arbitrary: x) (auto intro: converse_rtrancl_into_rtrancl)

lemma is_cycle_not_acyclic: "is_cycle deps c \<Longrightarrow> \<not> acyclic (dep_edges deps)"
proof -
  assume c: "is_cycle deps c"
  then obtain x y r where c': "c = x # y # r"
    by (cases c rule: remdups_adj.cases) (auto simp: is_cycle_def)
  have "(x, y) \<in> dep_edges deps" "(y, x) \<in> (dep_edges deps)\<^sup>*"
    using c successively_rtrancl [of "dep_edges deps" y r] by (auto simp: is_cycle_def c')
  then show ?thesis by (auto simp: acyclic_def intro: rtrancl_into_trancl2)
qed

lemma map_of_js_map_None: "map_of (js_map kvs) k = None \<longleftrightarrow> k \<notin> fst ` set kvs"
  by (auto simp: js_map_def map_of_foldl_update map_of_eq_None_iff split: option.splits
      dest: map_of_SomeD) (metis fst_conv image_eqI map_of_SomeD set_rev)

lemma findCycle_run:
  "dfs_done (task_deps_map tasks) (task_id ` set tasks) dfs_init
     (visit_all (task_deps_map tasks) (map task_id tasks) dfs_init)"
  using visit_correct(2) [of "task_deps_map tasks" dfs_init "map task_id tasks"]
  by (simp add: dfs_inv_def extends_path_def)

lemma findCycle_Some:
  assumes "findCycle tasks = Some c"
  shows "is_cycle (task_deps_map tasks) c"
  using findCycle_run [of tasks] assms
  by (auto simp: findCycle_def dfs_done_def split: prod.splits)

lemma findCycle_None: "findCycle tasks = None \<longleftrightarrow> acyclic (dep_edges (task_deps_map tasks))"
proof
  assume none: "findCycle tasks = None"
  then obtain s' where r: "visit_all (task_deps_map tasks) (map task_id tasks) dfs_init = (None, s')"
    by (cases "visit_all (task_deps_map tasks) (map task_id tasks) dfs_init") (auto simp: findCycle_def)
  then have fin: "dfs_inv (task_deps_map tasks) s'" "task_id ` set tasks \<subseteq> set (visited s')"
    using findCycle_run [of tasks] by (auto simp: dfs_done_def)
  show "acyclic (dep_edges (task_deps_map tasks))"
    unfolding acyclic_def
  proof (intro allI notI)
    fix x assume x: "(x, x) \<in> (dep_edges (task_deps_map tasks))\<^sup>+"
    then obtain y where "(x, y) \<in> dep_edges (task_deps_map tasks)" by (meson tranclD)
    then have "map_of (task_deps_map tasks) x \<noteq> None"
      by (cases "map_of (task_deps_map tasks) x") (auto simp: dep_edges_def lookup_or_def)
    then have "x \<in> task_id ` set tasks" by (auto simp: map_of_js_map_None image_image)
    then show False using fin x by (auto simp: dfs_inv_def)
  qed
next
  assume "acyclic (dep_edges (task_deps_map tasks))"
  then show "findCycle tasks = None"
    using findCycle_Some is_cycle_not_acyclic by (cases "findCycle tasks") auto
qed

section \<open>Accepted templates\<close>

text \<open>What the workflow format asks of a task and of a template, read off its values.\<close>

definition template_id :: "js \<Rightarrow> string" where
  "template_id v = (case js_get v ''id'' of JStr s \<Rightarrow> s | _ \<Rightarrow> [])"

definition template_deps :: "js \<Rightarrow> string list" where
  "template_deps v = (case js_get v ''dependsOn'' of
     JArr vs \<Rightarrow> map (\<lambda>x. case x of JStr s \<Rightarrow> s | _ \<Rightarrow> []) vs | _ \<Rightarrow> [])"

definition is_string :: "js \<Rightarrow> bool" where
  "is_string v = (case v of JStr _ \<Rightarrow> True | _ \<Rightarrow> False)"

definition valid_template_task :: "js \<Rightarrow> bool" where
  "valid_template_task v \<longleftrightarrow> is_record v \<and> template_id v \<noteq> [] \<and>
     (case js_get v ''dependsOn'' of
        JUndefined \<Rightarrow> True | JArr vs \<Rightarrow> list_all is_string vs | _ \<Rightarrow> False)"

definition template_edges :: "js list \<Rightarrow> (string \<times> string) set" where
  "template_edges ts = {(template_id v, d) | v d. v \<in> set ts \<and> d \<in> set (template_deps v)}"

definition well_formed_template :: "js \<Rightarrow> bool" where
  "well_formed_template tasks \<longleftrightarrow> (case tasks of
     JArr ts \<Rightarrow> ts \<noteq> [] \<and> (\<forall>v \<in> set ts. valid_template_task v) \<and>
       distinct (map template_id ts) \<and> snd ` template_edges ts \<subseteq> template_id ` set ts \<and>
       acyclic (template_edges ts)
   | _ \<Rightarrow> False)"

definition template_task :: "nat \<times> js \<Rightarrow> dag_task" where
  "template_task iv = \<lparr>task_id = template_id (snd iv), task_index = fst iv,
     task_deps = js_set (template_deps (snd iv))\<rparr>"

lemma those_js_str:
  "those (map js_str vs) =
     (if list_all is_string vs then Some (map (\<lambda>x. case x of JStr s \<Rightarrow> s | _ \<Rightarrow> []) vs) else None)"
  by (induction vs) (auto simp: is_string_def split: js.splits)

lemma normalizeDependencyList_valid:
  assumes "valid_template_task v"
  shows "normalizeDependencyList (js_get v ''dependsOn'') p issues = (js_set (template_deps v), issues)"
  using assms
  by (auto simp: valid_template_task_def normalizeDependencyList_def template_deps_def js_set_def
      those_js_str split: js.splits)

lemma normalizeDependencyList_invalid:
  assumes "\<not> valid_template_task v" "is_record v" "template_id v \<noteq> []"
  shows "snd (normalizeDependencyList (js_get v ''dependsOn'') p issues) \<noteq> []"
  using assms
  by (auto simp: valid_template_task_def normalizeDependencyList_def those_js_str split: js.splits)

lemma normalizeDagTask_valid:
  assumes "valid_template_task v"
  shows "normalizeDagTask p st (i, v) =
     \<lparr>ns_normalized = ns_normalized st @ [template_task (i, v)], ns_issues = ns_issues st,
      ns_seen = js_add (ns_seen st) (template_id v),
      ns_duplicates = (if template_id v \<in> set (ns_seen st)
        then js_add (ns_duplicates st) (template_id v) else ns_duplicates st)\<rparr>"
proof -
  have "is_record v" "template_id v \<noteq> []" "js_get v ''id'' = JStr (template_id v)"
    using assms by (auto simp: valid_template_task_def template_id_def split: js.splits)
  then show ?thesis
    using normalizeDependencyList_valid [OF assms]
    by (simp add: normalizeDagTask_def template_task_def)
qed

lemma normalizeDagTask_invalid:
  assumes "\<not> valid_template_task v"
  shows "ns_issues (normalizeDagTask p st (i, v)) \<noteq> []"
proof (cases "is_record v \<and> template_id v \<noteq> []")
  case True
  then have "js_get v ''id'' = JStr (template_id v)"
    by (auto simp: template_id_def split: js.splits)
  then show ?thesis
    using True normalizeDependencyList_invalid [OF assms, of "p @ ''.'' @ nat_str i @ ''.dependsOn''" "ns_issues st"]
    by (auto simp: normalizeDagTask_def Let_def split: prod.splits)
next
  case False
  then show ?thesis
    by (auto simp: normalizeDagTask_def template_id_def split: js.splits option.splits)
qed

lemma normalizeDependencyList_issues:
  "issues \<noteq> [] \<Longrightarrow> snd (normalizeDependencyList value p issues) \<noteq> []"
  by (auto simp: normalizeDependencyList_def split: js.splits option.splits)

lemma normalizeDagTask_issues:
  "ns_issues st \<noteq> [] \<Longrightarrow> ns_issues (normalizeDagTask p st iv) \<noteq> []"
proof (cases iv)
  case (Pair i v)
  assume "ns_issues st \<noteq> []"
  then show ?thesis
    using normalizeDependencyList_issues
      [of "ns_issues st" "js_get v ''dependsOn''" "p @ ''.'' @ nat_str i @ ''.dependsOn''"]
    by (auto simp: Pair normalizeDagTask_def Let_def split: prod.splits option.splits)
qed

lemma foldl_normalize_issues:
  "ns_issues (foldl (normalizeDagTask p) st (enumerate n ts)) = [] \<longleftrightarrow>
     ns_issues st = [] \<and> (\<forall>v \<in> set ts. valid_template_task v)"
proof (induction ts arbitrary: n st)
  case (Cons v ts)
  show ?case
    using normalizeDagTask_issues [of st p "(n, v)"] normalizeDagTask_invalid [of v p st n]
      normalizeDagTask_valid [of v p st n]
    by (cases "valid_template_task v") (auto simp: Cons.IH)
qed simp

lemma foldl_normalize_valid:
  assumes "\<forall>v \<in> set ts. valid_template_task v"
  shows "ns_normalized (foldl (normalizeDagTask p) st (enumerate n ts)) =
      ns_normalized st @ map template_task (enumerate n ts)"
    and "ns_duplicates (foldl (normalizeDagTask p) st (enumerate n ts)) = [] \<longleftrightarrow>
      ns_duplicates st = [] \<and> distinct (map template_id ts) \<and>
      template_id ` set ts \<inter> set (ns_seen st) = {}"
  using assms
proof (induction ts arbitrary: n st)
  case (Cons v ts)
  { case 1 then show ?case using Cons.IH(1) by (simp add: normalizeDagTask_valid) }
  { case 2
    have "js_add xs x \<noteq> []" for xs :: "string list" and x by (auto simp: js_add_def)
    then show ?case using 2 Cons.IH(2) by (auto simp: normalizeDagTask_valid) }
qed simp_all

lemma normalizeDagTasks_accepts:
  "snd (normalizeDagTasks ts p) = [] \<longleftrightarrow>
     (\<forall>v \<in> set ts. valid_template_task v) \<and> distinct (map template_id ts)"
  using foldl_normalize_valid(2) [of ts p _ 0]
    foldl_normalize_issues [of p "\<lparr>ns_normalized = [], ns_issues = [], ns_seen = [], ns_duplicates = []\<rparr>" 0 ts]
  by (auto simp: normalizeDagTasks_def Let_def)

lemma normalizeDagTasks_normalized:
  assumes "snd (normalizeDagTasks ts p) = []"
  shows "fst (normalizeDagTasks ts p) = map template_task (enumerate 0 ts)"
  using assms foldl_normalize_valid(1) [of ts p _ 0] normalizeDagTasks_accepts [of ts p]
  by (simp add: normalizeDagTasks_def Let_def)


lemma map_enumerate_snd: "map (\<lambda>iv. f (snd iv)) (enumerate n xs) = map f xs"
  by (induction xs arbitrary: n) auto

lemma template_task_pairs:
  "map (\<lambda>t. (task_id t, task_deps t)) (map template_task (enumerate n ts)) =
     map (\<lambda>v. (template_id v, js_set (template_deps v))) ts"
  "map task_id (map template_task (enumerate n ts)) = map template_id ts"
  using map_enumerate_snd [of "\<lambda>v. (template_id v, js_set (template_deps v))" n ts]
    map_enumerate_snd [of template_id n ts]
  by (simp_all add: template_task_def o_def)

lemma deps_of_template:
  assumes "distinct (map template_id ts)" "v \<in> set ts"
  shows "deps_of (js_map (map (\<lambda>v. (template_id v, js_set (template_deps v))) ts)) (template_id v) =
    js_set (template_deps v)"
proof -
  let ?m = "map (\<lambda>v. (template_id v, js_set (template_deps v))) ts"
  have d: "distinct (map fst ?m)" using assms(1) by (simp add: o_def)
  moreover have "map_of ?m (template_id v) = Some (js_set (template_deps v))"
    using assms(2) map_of_is_SomeI [OF d] by force
  ultimately show ?thesis
    unfolding lookup_or_js_map [OF d] by (simp add: lookup_or_def)
qed

lemma dep_edges_template:
  assumes "distinct (map template_id ts)"
  shows "dep_edges (task_deps_map (map template_task (enumerate n ts))) = template_edges ts"
proof -
  let ?m = "js_map (map (\<lambda>v. (template_id v, js_set (template_deps v))) ts)"
  have "(t, d) \<in> dep_edges ?m \<longleftrightarrow> (t, d) \<in> template_edges ts" for t d
  proof (cases "t \<in> template_id ` set ts")
    case True
    then obtain v where v: "v \<in> set ts" "t = template_id v" by auto
    have "(template_id v, d) \<in> template_edges ts \<longleftrightarrow> d \<in> set (template_deps v)"
      using assms v(1) by (auto simp: template_edges_def distinct_map dest: inj_onD)
    then show ?thesis using deps_of_template [OF assms v(1)] v by (simp add: dep_edges_def)
  next
    case False
    then have "map_of ?m t = None" by (simp add: map_of_js_map_None image_image)
    then have "deps_of ?m t = []" by (simp add: lookup_or_def)
    then show ?thesis using False by (auto simp: dep_edges_def template_edges_def)
  qed
  then show ?thesis unfolding template_task_pairs by auto
qed

lemma validateNormalizedDagTasks_accepts:
  "validateNormalizedDagTasks normalized p = [] \<longleftrightarrow>
     (\<forall>t \<in> set normalized. \<forall>d \<in> set (task_deps t). d \<noteq> task_id t \<and> d \<in> task_id ` set normalized) \<and>
     acyclic (dep_edges (task_deps_map normalized))"
proof -
  have "dependency_issue (js_set (map task_id normalized)) p t d = [] \<longleftrightarrow>
      d \<noteq> task_id t \<and> d \<in> task_id ` set normalized" for t d
    by (simp add: dependency_issue_def)
  then show ?thesis
    by (auto simp: validateNormalizedDagTasks_def Let_def simp flip: findCycle_None split: option.splits)
qed

lemma template_task_members:
  "(\<forall>t \<in> set (map template_task (enumerate n ts)). P (task_id t) (task_deps t)) \<longleftrightarrow>
     (\<forall>v \<in> set ts. P (template_id v) (js_set (template_deps v)))"
proof -
  have "set (map (\<lambda>t. (task_id t, task_deps t)) (map template_task (enumerate n ts))) =
      (\<lambda>v. (template_id v, js_set (template_deps v))) ` set ts"
    unfolding template_task_pairs by simp
  then have "(\<forall>x \<in> (\<lambda>t. (task_id t, task_deps t)) ` set (map template_task (enumerate n ts)). P (fst x) (snd x)) \<longleftrightarrow>
      (\<forall>x \<in> (\<lambda>v. (template_id v, js_set (template_deps v))) ` set ts. P (fst x) (snd x))"
    by (simp only: set_map)
  then show ?thesis by simp
qed

lemma acyclic_irrefl: "acyclic r \<Longrightarrow> (x, x) \<notin> r"
  by (auto simp: acyclic_def)

lemma validateNormalizedDagTasks_template:
  assumes "distinct (map template_id ts)"
  shows "validateNormalizedDagTasks (map template_task (enumerate n ts)) p = [] \<longleftrightarrow>
    snd ` template_edges ts \<subseteq> template_id ` set ts \<and> acyclic (template_edges ts)"
proof -
  have ids: "task_id ` set (map template_task (enumerate n ts)) = template_id ` set ts"
    using template_task_pairs(2) [of n ts] by (metis set_map)
  have closed: "snd ` template_edges ts \<subseteq> template_id ` set ts \<longleftrightarrow>
      (\<forall>v \<in> set ts. \<forall>d \<in> set (template_deps v). d \<in> template_id ` set ts)"
    by (force simp: template_edges_def)
  have self: "d \<noteq> template_id v"
    if "acyclic (template_edges ts)" "v \<in> set ts" "d \<in> set (template_deps v)" for v d
    using that acyclic_irrefl [of "template_edges ts" "template_id v"] by (auto simp: template_edges_def)
  have "(\<forall>v \<in> set ts. \<forall>d \<in> set (js_set (template_deps v)). d \<noteq> template_id v \<and> d \<in> template_id ` set ts)
     \<and> acyclic (template_edges ts) \<longleftrightarrow>
     snd ` template_edges ts \<subseteq> template_id ` set ts \<and> acyclic (template_edges ts)"
    unfolding closed set_js_set using self by metis
  then show ?thesis
    unfolding validateNormalizedDagTasks_accepts dep_edges_template [OF assms] ids
    using template_task_members [of n ts "\<lambda>i ds. \<forall>d \<in> set ds. d \<noteq> i \<and> d \<in> template_id ` set ts"]
    by (simp only:)
qed

lemma validate_accepts:
  "validateWorkflowTemplateDag tasks p = [] \<longleftrightarrow> well_formed_template tasks"
proof (cases tasks)
  case (JArr ts)
  show ?thesis
  proof (cases "snd (normalizeDagTasks ts p) = []")
    case True
    then have d: "distinct (map template_id ts)" by (simp add: normalizeDagTasks_accepts)
    have "normalizeDagTasks ts p = (map template_task (enumerate 0 ts), [])"
      using True normalizeDagTasks_normalized [OF True] by (simp add: prod_eq_iff)
    then show ?thesis
      using True validateNormalizedDagTasks_template [OF d, of 0 p] normalizeDagTasks_accepts [of ts p]
      by (simp add: JArr validateWorkflowTemplateDag_def well_formed_template_def)
  next
    case False
    then show ?thesis
      using normalizeDagTasks_accepts [of ts p]
      by (auto simp: JArr validateWorkflowTemplateDag_def well_formed_template_def split: prod.splits)
  qed
qed (simp_all add: validateWorkflowTemplateDag_def well_formed_template_def)


section \<open>The order is the greedy topological order\<close>

text \<open>
  \<open>available V D done t\<close>: task \<open>t\<close> is not done and all its dependencies are. An order is greedy
  when each of its entries is available after the entries before it and has the least template
  index among the available tasks.
\<close>

definition available :: "'a set \<Rightarrow> ('a \<Rightarrow> 'a list) \<Rightarrow> 'a set \<Rightarrow> 'a \<Rightarrow> bool" where
  "available V D fin t \<longleftrightarrow> t \<in> V \<and> t \<notin> fin \<and> set (D t) \<subseteq> fin"

definition greedy_order :: "'a set \<Rightarrow> ('a \<Rightarrow> 'a list) \<Rightarrow> ('a \<Rightarrow> nat) \<Rightarrow> 'a list \<Rightarrow> bool" where
  "greedy_order V D ix order \<longleftrightarrow>
     (\<forall>i < length order. available V D (set (take i order)) (order ! i) \<and>
        (\<forall>u. available V D (set (take i order)) u \<longrightarrow> ix (order ! i) \<le> ix u))"

lemma greedy_order_Nil [simp]: "greedy_order V D ix []"
  by (simp add: greedy_order_def)

lemma greedy_order_snoc [simp]:
  "greedy_order V D ix (order @ [t]) \<longleftrightarrow> greedy_order V D ix order \<and>
     available V D (set order) t \<and> (\<forall>u. available V D (set order) u \<longrightarrow> ix t \<le> ix u)"
  by (auto simp: greedy_order_def nth_append less_Suc_eq)

lemma greedy_order_closed:
  "greedy_order V D ix order \<Longrightarrow>
     distinct order \<and> set order \<subseteq> V \<and> (\<forall>t \<in> set order. set (D t) \<subseteq> set order)"
  by (induction order rule: rev_induct) (auto simp: available_def)

lemma greedy_order_deps_before:
  assumes "greedy_order V D ix order" "i < length order" "d \<in> set (D (order ! i))"
  shows "\<exists>j < i. order ! j = d"
proof -
  have "d \<in> set (take i order)"
    using assms by (auto simp: greedy_order_def available_def)
  then show ?thesis by (auto simp: in_set_conv_nth)
qed

text \<open>What releasing the dependents of one task does to the indegrees and the ready list.\<close>

lemma release_dependents_correct:
  assumes "distinct ds" and "release_dependents ix ds m ready = (m', ready')"
  shows "(\<forall>x. lookup_or 0 m' x = lookup_or 0 m x - (if x \<in> set ds then 1 else 0)) \<and>
    mset ready' = mset ready + mset (filter (\<lambda>d. lookup_or 0 m d = 1) ds) \<and>
    (sorted (map ix ready) \<longrightarrow> sorted (map ix ready'))"
  using assms
proof (induction ds arbitrary: m ready)
  case (Cons d ds)
  let ?m = "AList.update d (lookup_or 0 m d - 1) m"
  let ?r = "if lookup_or 0 m d = 1 then sort_key ix (ready @ [d]) else ready"
  have rec: "release_dependents ix ds ?m ?r = (m', ready')" and d: "distinct ds" "d \<notin> set ds"
    using Cons.prems by (simp_all add: Let_def)
  have "filter (\<lambda>x. lookup_or 0 ?m x = 1) ds = filter (\<lambda>x. lookup_or 0 m x = 1) ds"
    using d(2) by (auto intro: filter_cong)
  then show ?case using Cons.IH [OF d(1) rec] d(2) by (simp split: if_splits)
qed simp

definition kahn_inv :: "string set \<Rightarrow> (string \<Rightarrow> string list) \<Rightarrow> (string \<Rightarrow> nat) \<Rightarrow>
    (string \<times> int) list \<Rightarrow> string list \<Rightarrow> string list \<Rightarrow> bool" where
  "kahn_inv V D ix indegree ready order \<longleftrightarrow>
     greedy_order V D ix order \<and> distinct ready \<and> sorted (map ix ready) \<and>
     set ready = Collect (available V D (set order)) \<and>
     (\<forall>x \<in> V. lookup_or 0 indegree x = int (card (set (D x) - set order)))"

lemma card_Diff_snoc:
  assumes "t \<notin> F"
  shows "int (card (set ds - insert t F)) = int (card (set ds - F)) - (if t \<in> set ds then 1 else 0)"
proof (cases "t \<in> set ds")
  case True
  then have "set ds - F = insert t (set ds - insert t F)" using assms by auto
  then have "card (set ds - F) = card (insert t (set ds - insert t F))" by (rule arg_cong)
  then show ?thesis using True by simp
next
  case False
  then have "set ds - insert t F = set ds - F" by auto
  then show ?thesis using False by simp
qed

lemma card_Diff_one:
  assumes "t \<in> set ds" "t \<notin> F"
  shows "int (card (set ds - F)) = 1 \<longleftrightarrow> set ds \<subseteq> insert t F"
proof -
  have "card (set ds - F) = Suc (card (set ds - insert t F))"
    using card_Diff_snoc [OF assms(2), of ds] assms(1) by simp
  then show ?thesis by auto
qed

lemma kahn_step:
  assumes inv: "kahn_inv V D ix m (t # ready) order"
    and R: "set R = {x \<in> V. t \<in> set (D x)}" "distinct R"
    and rel: "release_dependents ix R m ready = (m', ready')"
  shows "kahn_inv V D ix m' ready' (order @ [t])"
proof -
  have g: "greedy_order V D ix order" and dr: "distinct (t # ready)"
    and so: "sorted (map ix (t # ready))" and av: "set (t # ready) = Collect (available V D (set order))"
    and m: "\<forall>x \<in> V. lookup_or 0 m x = int (card (set (D x) - set order))"
    using inv unfolding kahn_inv_def by blast+
  have t: "available V D (set order) t" using av by auto
  then have tn: "t \<notin> set order" "t \<in> V" "set (D t) \<subseteq> set order" by (auto simp: available_def)
  let ?new = "filter (\<lambda>d. lookup_or 0 m d = 1) R"
  have rd: "lookup_or 0 m' x = lookup_or 0 m x - (if x \<in> set R then 1 else 0)"
      "mset ready' = mset (ready @ ?new)" "sorted (map ix ready')" for x
    using release_dependents_correct [OF R(2) rel] so by simp_all
  have new: "set ?new = {x \<in> V. t \<in> set (D x) \<and> set (D x) \<subseteq> insert t (set order)}"
    using R(1) m card_Diff_one [OF _ tn(1)] by auto
  have ready_av: "set ready = {x. available V D (set order) x \<and> x \<noteq> t}"
    using av dr by auto
  have fresh: "x \<notin> set order \<and> x \<noteq> t" if "x \<in> V" "t \<in> set (D x)" for x
    using that greedy_order_closed [OF g] tn by auto
  have "set ready' = set ready \<union> set ?new"
    using arg_cong [OF rd(2), of set_mset] by simp
  also have "\<dots> = Collect (available V D (insert t (set order)))"
    unfolding new ready_av available_def using fresh by blast
  finally have s: "set ready' = Collect (available V D (insert t (set order)))" .
  have "set ready \<inter> set ?new = {}"
    unfolding new ready_av available_def using tn(1) by blast
  then have "distinct (ready @ ?new)" using dr R(2) by simp
  then have d: "distinct ready'" using mset_eq_imp_distinct_iff [OF rd(2)] by simp
  have least: "ix t \<le> ix u" if "available V D (set order) u" for u
    using that so av by auto
  have "\<forall>x \<in> V. lookup_or 0 m' x = int (card (set (D x) - insert t (set order)))"
    using rd(1) m R(1) card_Diff_snoc [OF tn(1)] by simp
  then show ?thesis using g t s d least rd(3) by (simp add: kahn_inv_def)
qed

lemma kahn_result:
  "\<forall>t. set (lookup_or [] dependents t) = {x \<in> V. t \<in> set (D x)} \<and> distinct (lookup_or [] dependents t) \<Longrightarrow>
   kahn_inv V D ix m ready order \<Longrightarrow>
   \<exists>m'. kahn_inv V D ix m' [] (kahn ix dependents ready m order)"
proof (induction ix dependents ready m order rule: kahn.induct)
  case (2 ix dependents t ready m order)
  then show ?case
    using kahn_step [of V D ix m t ready order "lookup_or [] dependents t"]
    by (auto split: prod.splits)
qed auto


lemma lookup_or_map_values:
  "lookup_or [] (map (\<lambda>(k, v). (k, sort_key ix v)) m) k = sort_key ix (lookup_or [] m k)"
  by (induction m) auto

lemma foldl_dependent_updates:
  "distinct ds \<Longrightarrow>
   lookup_or [] (foldl (\<lambda>m d. AList.update d (lookup_or [] m d @ [x]) m) m ds) k =
     lookup_or [] m k @ (if k \<in> set ds then [x] else [])"
  by (induction ds arbitrary: m) auto

lemma dependents_of_tasks:
  "\<forall>t \<in> set tasks. distinct (task_deps t) \<Longrightarrow>
   lookup_or [] (foldl add_dependents m tasks) k =
     lookup_or [] m k @ map task_id (filter (\<lambda>t. k \<in> set (task_deps t)) tasks)"
  by (induction tasks arbitrary: m) (auto simp: add_dependents_def foldl_dependent_updates)

lemma kahn_exhaustive:
  assumes "kahn_inv V D ix m [] order" "finite V" "\<forall>t \<in> V. set (D t) \<subseteq> V"
    and "acyclic {(t, d). t \<in> V \<and> d \<in> set (D t)}"
  shows "set order = V"
proof (rule ccontr)
  assume "set order \<noteq> V"
  moreover have "set order \<subseteq> V" using assms(1) greedy_order_closed [of V D ix order] by (simp add: kahn_inv_def)
  ultimately obtain x where x: "x \<in> V - set order" by auto
  let ?r = "{(t, d). t \<in> V \<and> d \<in> set (D t)}"
  have "?r \<subseteq> V \<times> V" using assms(3) by auto
  then have "finite ?r" using assms(2) by (meson finite_SigmaI finite_subset)
  then have "wf (?r\<inverse>)" using assms(4) by (rule finite_acyclic_wf_converse)
  then obtain z where z: "z \<in> V - set order" "\<And>y. (y, z) \<in> ?r\<inverse> \<Longrightarrow> y \<notin> V - set order"
    using wfE_min [OF _ x] by blast
  then have "available V D (set order) z" using assms(3) by (auto simp: available_def)
  then show False using assms(1) by (simp add: kahn_inv_def)
qed

lemma lookup_or_js_map_task:
  assumes "distinct (map task_id tasks)" "t \<in> set tasks"
  shows "lookup_or d (js_map (map (\<lambda>t. (task_id t, f t)) tasks)) (task_id t) = f t"
proof -
  have d: "distinct (map fst (map (\<lambda>t. (task_id t, f t)) tasks))" using assms(1) by (simp add: o_def)
  have "map_of (map (\<lambda>t. (task_id t, f t)) tasks) (task_id t) = Some (f t)"
    using assms(2) map_of_is_SomeI [OF d] by force
  then show ?thesis unfolding lookup_or_js_map [OF d] by (simp add: lookup_or_def)
qed

lemma kahn_initial_inv:
  assumes ids: "distinct (map task_id tasks)" and deps: "\<forall>t \<in> set tasks. distinct (task_deps t)"
    and D: "\<forall>t \<in> set tasks. D (task_id t) = task_deps t"
    and ix: "\<forall>t \<in> set tasks. ix (task_id t) = task_index t" and so: "sorted (map task_index tasks)"
  shows "kahn_inv (task_id ` set tasks) D ix
    (js_map (map (\<lambda>t. (task_id t, int (length (task_deps t)))) tasks))
    (map task_id (filter (\<lambda>t. task_deps t = []) tasks)) []"
proof -
  let ?r = "filter (\<lambda>t. task_deps t = []) tasks"
  have "map ix (map task_id ?r) = map task_index ?r" using ix by simp
  moreover have "sorted (map task_index ?r)" using so by (rule sorted_filter)
  ultimately have "sorted (map ix (map task_id ?r))" by metis
  moreover have "distinct (map task_id ?r)" using ids by (rule distinct_map_filter)
  moreover have "set (map task_id ?r) = Collect (available (task_id ` set tasks) D {})"
    using D by (auto simp: available_def)
  moreover have "lookup_or 0 (js_map (map (\<lambda>t. (task_id t, int (length (task_deps t)))) tasks)) (task_id t)
      = int (card (set (D (task_id t))))" if "t \<in> set tasks" for t
    using lookup_or_js_map_task [OF ids that] deps D that by (simp add: distinct_card)
  ultimately show ?thesis by (auto simp: kahn_inv_def)
qed

lemma dependents_correct:
  assumes ids: "distinct (map task_id tasks)" and deps: "\<forall>t \<in> set tasks. distinct (task_deps t)"
    and D: "\<forall>t \<in> set tasks. D (task_id t) = task_deps t"
  shows "set (lookup_or [] (map (\<lambda>(k, v). (k, sort_key ix v)) (foldl add_dependents [] tasks)) k)
      = {x \<in> task_id ` set tasks. k \<in> set (D x)} \<and>
    distinct (lookup_or [] (map (\<lambda>(k, v). (k, sort_key ix v)) (foldl add_dependents [] tasks)) k)"
  using D distinct_map_filter [OF ids] dependents_of_tasks [OF deps, of "[]" k]
  by (auto simp: lookup_or_map_values)

text \<open>A template id's position among the ids is the index the code sorts by.\<close>

definition template_index :: "js list \<Rightarrow> string \<Rightarrow> nat" where
  "template_index ts t = index_of t (map template_id ts)"

lemma index_of_nth: "distinct xs \<Longrightarrow> i < length xs \<Longrightarrow> index_of (xs ! i) xs = i"
  by (induction xs arbitrary: i) (auto simp: index_of_def nth_Cons split: nat.splits)

lemma template_task_facts:
  assumes "distinct (map template_id ts)"
  shows "distinct (map task_id (map template_task (enumerate 0 ts)))"
    and "\<forall>t \<in> set (map template_task (enumerate 0 ts)). distinct (task_deps t)"
    and "\<forall>t \<in> set (map template_task (enumerate 0 ts)). template_index ts (task_id t) = task_index t"
    and "sorted (map task_index (map template_task (enumerate 0 ts)))"
    and "task_id ` set (map template_task (enumerate 0 ts)) = template_id ` set ts"
proof -
  show "distinct (map task_id (map template_task (enumerate 0 ts)))"
    unfolding template_task_pairs by (rule assms)
  show "\<forall>t \<in> set (map template_task (enumerate 0 ts)). distinct (task_deps t)"
    by (auto simp: template_task_def)
  show "\<forall>t \<in> set (map template_task (enumerate 0 ts)). template_index ts (task_id t) = task_index t"
    using index_of_nth [OF assms]
    by (auto simp: template_task_def template_index_def in_set_enumerate_eq)
  have "map task_index (map template_task (enumerate 0 ts)) = map fst (enumerate 0 ts)"
    by (simp add: template_task_def o_def)
  then show "sorted (map task_index (map template_task (enumerate 0 ts)))" by simp
  show "task_id ` set (map template_task (enumerate 0 ts)) = template_id ` set ts"
    using template_task_pairs(2) [of 0 ts] by (metis set_map)
qed


lemma sort_key_same:
  assumes "\<forall>x \<in> set xs. f x = g x"
  shows "sort_key f xs = sort_key g xs"
proof -
  have "insort_key f x ys = insort_key g x ys" if "f x = g x" "\<forall>y \<in> set ys. f y = g y" for x ys
    using that by (induction ys) auto
  then show ?thesis using assms by (induction xs) auto
qed

lemma kahn_ix_cong:
  assumes "\<forall>d. set (lookup_or [] dependents d) \<subseteq> V" "\<forall>x \<in> V. ix x = ix' x" "set ready \<subseteq> V"
  shows "kahn ix dependents ready m order = kahn ix' dependents ready m order"
proof -
  have rel: "release_dependents ix ds m ready = release_dependents ix' ds m ready \<and>
      set (snd (release_dependents ix' ds m ready)) \<subseteq> V"
    if "set ds \<subseteq> V" "set ready \<subseteq> V" for ds m ready
    using that
  proof (induction ds arbitrary: m ready)
    case (Cons d ds)
    have "sort_key ix (ready @ [d]) = sort_key ix' (ready @ [d])"
      using Cons.prems assms(2) by (intro sort_key_same) auto
    then show ?case using Cons by (simp add: Let_def)
  qed simp
  show ?thesis
    using assms(3)
  proof (induction "pending_work m ready" arbitrary: m ready order rule: less_induct)
    case less
    show ?case
    proof (cases ready)
      case (Cons t rest)
      obtain m' r' where r: "release_dependents ix' (lookup_or [] dependents t) m rest = (m', r')"
        by fastforce
      have rest: "set rest \<subseteq> V" using less.prems Cons by simp
      have "pending_work m' r' < pending_work m ready"
        using pending_work_release [of ix' "lookup_or [] dependents t" m rest] r Cons
        by (simp add: pending_work_def)
      moreover have "release_dependents ix (lookup_or [] dependents t) m rest = (m', r')" "set r' \<subseteq> V"
        using rel [OF assms(1) [rule_format, of t] rest, of m] r by (metis, metis snd_conv)
      ultimately show ?thesis using less.hyps [of m' r'] r Cons by simp
    qed simp
  qed
qed

text \<open>
  What an accepted template is built into: the greedy order of its ids, and the dependencies
  without repetitions.
\<close>

lemma template_edges_deps:
  assumes "distinct (map template_id ts)"
    and "deps = js_map (map (\<lambda>v. (template_id v, js_set (template_deps v))) ts)"
  shows "{(t, d). t \<in> template_id ` set ts \<and> d \<in> set (deps_of deps t)} = template_edges ts"
    and "snd ` template_edges ts \<subseteq> V \<Longrightarrow> \<forall>t \<in> template_id ` set ts. set (deps_of deps t) \<subseteq> V"
proof -
  have "deps_of deps (template_id v) = js_set (template_deps v)" if "v \<in> set ts" for v
    using deps_of_template [OF assms(1) that] assms(2) by simp
  then show e: "{(t, d). t \<in> template_id ` set ts \<and> d \<in> set (deps_of deps t)} = template_edges ts"
    by (auto simp: template_edges_def)
  show "\<forall>t \<in> template_id ` set ts. set (deps_of deps t) \<subseteq> V" if "snd ` template_edges ts \<subseteq> V"
    using that unfolding e [symmetric] by force
qed

lemma build_correct:
  assumes wf: "well_formed_template (JArr ts)"
  obtains dag where "buildWorkflowTemplateDag ts p = Inr dag"
    "dependenciesByTaskId dag = js_map (map (\<lambda>v. (template_id v, js_set (template_deps v))) ts)"
    "greedy_order (template_id ` set ts) (deps_of (dependenciesByTaskId dag)) (template_index ts) (taskOrder dag)"
    "set (taskOrder dag) = template_id ` set ts"
proof -
  obtain N where N: "N = map template_task (enumerate 0 ts)" by simp
  obtain V where V: "V = template_id ` set ts" by simp
  obtain deps where deps: "deps = js_map (map (\<lambda>v. (template_id v, js_set (template_deps v))) ts)" by simp
  obtain ix where ix: "ix = lookup_or 0 (js_map (map (\<lambda>t. (task_id t, task_index t)) N))" by simp
  obtain dep where dep: "dep = map (\<lambda>(k, v). (k, sort_key ix v)) (foldl add_dependents [] N)" by simp
  let ?ready = "map task_id (filter (\<lambda>t. task_deps t = []) N)"
  let ?m = "js_map (map (\<lambda>t. (task_id t, int (length (task_deps t)))) N)"
  have ids: "distinct (map template_id ts)" and valid: "\<forall>v \<in> set ts. valid_template_task v"
    and closed: "snd ` template_edges ts \<subseteq> V" and acyc: "acyclic (template_edges ts)"
    using wf by (simp_all add: well_formed_template_def V)
  note facts = template_task_facts [OF ids, folded N V]
  note edges = template_edges_deps [OF ids deps, folded V]
  have Ndeps: "task_deps_map N = deps" unfolding N deps template_task_pairs ..
  have ixN: "\<forall>t \<in> set N. ix (task_id t) = task_index t"
    using lookup_or_js_map_task [OF facts(1), of _ 0 task_index] unfolding ix by simp
  have D: "\<forall>t \<in> set N. deps_of deps (task_id t) = task_deps t"
    using lookup_or_js_map_task [OF facts(1), of _ "[]" task_deps] unfolding Ndeps [symmetric] by simp
  have dependents: "\<forall>k. set (lookup_or [] dep k) = {x \<in> V. k \<in> set (deps_of deps x)} \<and>
      distinct (lookup_or [] dep k)"
    using dependents_correct [OF facts(1,2) D] unfolding facts(5) dep by blast
  have "\<forall>x \<in> V. ix x = template_index ts x"
    unfolding facts(5) [symmetric] using ixN facts(3) by simp
  moreover have "set ?ready \<subseteq> V" unfolding facts(5) [symmetric] by auto
  ultimately have same: "kahn ix dep ?ready ?m [] = kahn (template_index ts) dep ?ready ?m []"
    using dependents by (intro kahn_ix_cong [of _ V]) auto
  have "kahn_inv V (deps_of deps) (template_index ts) ?m ?ready []"
    using kahn_initial_inv [OF facts(1,2) D facts(3,4)] unfolding facts(5) .
  then obtain m' where res: "kahn_inv V (deps_of deps) (template_index ts) m' []
      (kahn (template_index ts) dep ?ready ?m [])"
    using kahn_result [OF dependents] by blast
  have all: "set (kahn (template_index ts) dep ?ready ?m []) = V"
    using kahn_exhaustive [OF res] edges(2) [OF closed] acyc V unfolding edges(1) by simp
  have "snd (normalizeDagTasks ts p) = []" using ids valid by (simp add: normalizeDagTasks_accepts)
  moreover have "validateNormalizedDagTasks N p = []"
    using validateNormalizedDagTasks_template [OF ids, of 0] closed acyc by (simp add: N V)
  ultimately have "buildWorkflowTemplateDag ts p =
      Inr \<lparr>taskOrder = kahn ix dep ?ready ?m [], dependenciesByTaskId = deps\<rparr>"
    unfolding buildWorkflowTemplateDag_def Let_def ix dep Ndeps [symmetric]
    by (simp add: normalizeDagTasks_normalized N)
  then show ?thesis
    using that res all unfolding same deps [symmetric] V [symmetric] by (auto simp: kahn_inv_def)
qed


lemma parse_well_formed:
  "well_formed_template (JArr ts) \<Longrightarrow>
     parseWorkflowTemplateDag (JArr ts) p = buildWorkflowTemplateDag ts p"
  by (simp add: parseWorkflowTemplateDag_def validate_accepts)

lemma parse_ill_formed:
  "\<not> well_formed_template tasks \<Longrightarrow> parseWorkflowTemplateDag tasks p =
     Inl (AthenaError CONFIG_ERROR
       (join ''; '' (map issue_message (validateWorkflowTemplateDag tasks p))) False)"
  by (simp add: parseWorkflowTemplateDag_def validate_accepts)

section \<open>Properties\<close>

text \<open>
  C1 A template is parsed exactly when it is well formed (a non-empty array of tasks with
  distinct non-empty ids, known dependencies and no cycle). The parsed order then lists every
  task id once, each entry being the task of least template index whose dependencies all come
  before it, and the parsed dependencies are the template's without repetitions. Any other input
  is a CONFIG_ERROR carrying the messages of the issues found.
\<close>

theorem parse_template_correct:
  "case parseWorkflowTemplateDag (JArr ts) p of
     Inr dag \<Rightarrow> well_formed_template (JArr ts) \<and>
       distinct (taskOrder dag) \<and> set (taskOrder dag) = template_id ` set ts \<and>
       greedy_order (template_id ` set ts) (deps_of (dependenciesByTaskId dag)) (template_index ts)
         (taskOrder dag) \<and>
       dependenciesByTaskId dag = js_map (map (\<lambda>v. (template_id v, js_set (template_deps v))) ts)
   | Inl e \<Rightarrow> \<not> well_formed_template (JArr ts) \<and>
       e = AthenaError CONFIG_ERROR
         (join ''; '' (map issue_message (validateWorkflowTemplateDag (JArr ts) p))) False"
proof (cases "well_formed_template (JArr ts)")
  case True
  obtain dag where dag: "buildWorkflowTemplateDag ts p = Inr dag"
    "dependenciesByTaskId dag = js_map (map (\<lambda>v. (template_id v, js_set (template_deps v))) ts)"
    "greedy_order (template_id ` set ts) (deps_of (dependenciesByTaskId dag)) (template_index ts) (taskOrder dag)"
    "set (taskOrder dag) = template_id ` set ts"
    using build_correct [OF True] .
  then show ?thesis
    using greedy_order_closed [OF dag(3)] True by (simp add: parse_well_formed)
next
  case False
  then show ?thesis by (simp add: parse_ill_formed)
qed

text \<open>
  The depth-first search reports a cycle exactly when the dependency graph has one, and what
  it reports is a cycle: a path of at least one edge along dependencies back to its first id.
\<close>

theorem findCycle_correct:
  "case findCycle tasks of
     Some c \<Rightarrow> is_cycle (task_deps_map tasks) c \<and> \<not> acyclic (dep_edges (task_deps_map tasks))
   | None \<Rightarrow> acyclic (dep_edges (task_deps_map tasks))"
  using findCycle_Some [of tasks] findCycle_None [of tasks]
  by (auto simp: is_cycle_not_acyclic split: option.splits)

end
