(* ===== verification/WorkflowStore.thy ===== *)
theory WorkflowStore
  imports Prelude "HOL-Library.Product_Lexorder"
begin

text \<open>
  The repository of workflow runs: \<open>control-plane/app-state/workflow-state-repository.ts\<close> over
  the four tables of \<open>migrations.ts\<close> it prepares statements for. A table is the list of its rows
  in \<open>rowid\<close> order; primary keys, foreign keys and \<open>on conflict\<close> are written out, and a violated
  constraint is the error SQLite raises. Columns that hold the JSON of a typed value hold that
  value; the \<open>failure\<close>, \<open>output\<close> and \<open>payload\<close> columns hold the JSON value \<open>json_value\<close> gives.

  An operation returns the new database with its result, or an error without a database: a
  transaction that throws leaves the caller with the database it started from.
\<close>

section \<open>Rows and records\<close>

datatype run_status = RunPending | RunRunning | RunCompleted | RunFailed | RunResumable | RunCancelled

datatype step_status =
  StepPending | StepRunning | StepCompleted | StepFailed | StepSkipped | StepCancelled

datatype attempt_status = AttemptRunning | AttemptCompleted | AttemptFailed | AttemptCancelled

datatype event_level = LevelInfo | LevelWarning | LevelError

text \<open>
  Event ids: given by the caller, or drawn by \<open>randomUUID\<close>, which never repeats a value and
  never hits a given id.
\<close>

datatype event_id = GivenId string | Uuid nat

record run_row =
  run_id :: string
  run_template_id :: string
  run_template_version :: "string option"
  run_plugin_id :: "string option"
  run_plugin_version :: "string option"
  run_status_col :: run_status
  run_step_order :: "string list"
  run_dependencies :: "(string \<times> string list) list"
  run_failure_json :: "js option"
  run_created_at :: time
  run_updated_at :: time
  run_started_at :: "time option"
  run_finished_at :: "time option"

record step_row =
  step_run_id :: string
  step_step_id :: string
  step_status_col :: step_status
  step_attempt :: nat
  step_ready :: nat
  step_dependencies :: "string list"
  step_blocking :: "string list"
  step_started_at :: "time option"
  step_finished_at :: "time option"
  step_failure_json :: "js option"
  step_output_json :: "js option"
  step_updated_at :: time

record attempt_row =
  att_run_id :: string
  att_step_id :: string
  att_attempt :: nat
  att_status :: attempt_status
  att_started_at :: time
  att_finished_at :: "time option"
  att_failure_json :: "js option"
  att_output_json :: "js option"
  att_updated_at :: time

record event_row =
  ev_id :: event_id
  ev_run_id :: string
  ev_step_id :: "string option"
  ev_type :: string
  ev_level :: event_level
  ev_message :: string
  ev_payload :: js
  ev_timestamp :: time

record dag_db =
  db_runs :: "run_row list"
  db_steps :: "step_row list"
  db_attempts :: "attempt_row list"
  db_events :: "event_row list"

record run_record =
  rr_id :: string
  rr_workflowTemplateId :: string
  rr_workflowTemplateVersion :: "string option"
  rr_pluginId :: "string option"
  rr_pluginVersion :: "string option"
  rr_status :: run_status
  rr_stepOrder :: "string list"
  rr_dependencies :: "(string \<times> string list) list"
  rr_failure :: js
  rr_createdAt :: time
  rr_updatedAt :: time
  rr_startedAt :: "time option"
  rr_finishedAt :: "time option"

record step_record =
  sr_runId :: string
  sr_stepId :: string
  sr_status :: step_status
  sr_attempt :: nat
  sr_ready :: bool
  sr_dependencies :: "string list"
  sr_blockingStepIds :: "string list"
  sr_startedAt :: "time option"
  sr_finishedAt :: "time option"
  sr_failure :: js
  sr_output :: js
  sr_updatedAt :: time

record attempt_record =
  ar_runId :: string
  ar_stepId :: string
  ar_attempt :: nat
  ar_status :: attempt_status
  ar_startedAt :: time
  ar_finishedAt :: "time option"
  ar_failure :: js
  ar_output :: js
  ar_updatedAt :: time

record event_record =
  er_id :: event_id
  er_runId :: string
  er_stepId :: "string option"
  er_type :: string
  er_level :: event_level
  er_message :: string
  er_payload :: js
  er_timestamp :: time

record snapshot =
  snap_run :: run_record
  snap_steps :: "step_record list"
  snap_attempts :: "attempt_record list"
  snap_events :: "event_record list"

section \<open>Columns\<close>

text \<open>\<open>jsonOrNull\<close>; a nullable text column read with a truthiness test; a JSON column read back.\<close>

definition jsonOrNull :: "js \<Rightarrow> js option" where
  "jsonOrNull value = (if value = JUndefined then None else Some (json_value value))"

definition text_col :: "string option \<Rightarrow> string option" where
  "text_col c = (case c of None \<Rightarrow> None | Some s \<Rightarrow> if s = [] then None else Some s)"

definition json_col :: "js option \<Rightarrow> js" where
  "json_col c = (case c of None \<Rightarrow> JUndefined | Some v \<Rightarrow> v)"

definition mapWorkflowDagRunRow :: "run_row \<Rightarrow> run_record" where
  "mapWorkflowDagRunRow row = \<lparr>
     rr_id = run_id row,
     rr_workflowTemplateId = run_template_id row,
     rr_workflowTemplateVersion = text_col (run_template_version row),
     rr_pluginId = text_col (run_plugin_id row),
     rr_pluginVersion = text_col (run_plugin_version row),
     rr_status = run_status_col row,
     rr_stepOrder = run_step_order row,
     rr_dependencies = run_dependencies row,
     rr_failure = json_col (run_failure_json row),
     rr_createdAt = run_created_at row,
     rr_updatedAt = run_updated_at row,
     rr_startedAt = run_started_at row,
     rr_finishedAt = run_finished_at row\<rparr>"

definition mapWorkflowDagStepRow :: "step_row \<Rightarrow> step_record" where
  "mapWorkflowDagStepRow row = \<lparr>
     sr_runId = step_run_id row,
     sr_stepId = step_step_id row,
     sr_status = step_status_col row,
     sr_attempt = step_attempt row,
     sr_ready = (step_ready row = 1),
     sr_dependencies = step_dependencies row,
     sr_blockingStepIds = step_blocking row,
     sr_startedAt = step_started_at row,
     sr_finishedAt = step_finished_at row,
     sr_failure = json_col (step_failure_json row),
     sr_output = json_col (step_output_json row),
     sr_updatedAt = step_updated_at row\<rparr>"

definition mapWorkflowDagStepAttemptRow :: "attempt_row \<Rightarrow> attempt_record" where
  "mapWorkflowDagStepAttemptRow row = \<lparr>
     ar_runId = att_run_id row,
     ar_stepId = att_step_id row,
     ar_attempt = att_attempt row,
     ar_status = att_status row,
     ar_startedAt = att_started_at row,
     ar_finishedAt = att_finished_at row,
     ar_failure = json_col (att_failure_json row),
     ar_output = json_col (att_output_json row),
     ar_updatedAt = att_updated_at row\<rparr>"

definition mapWorkflowDagRunEventRow :: "event_row \<Rightarrow> event_record" where
  "mapWorkflowDagRunEventRow row = \<lparr>
     er_id = ev_id row,
     er_runId = ev_run_id row,
     er_stepId = text_col (ev_step_id row),
     er_type = ev_type row,
     er_level = ev_level row,
     er_message = ev_message row,
     er_payload = ev_payload row,
     er_timestamp = ev_timestamp row\<rparr>"

section \<open>Statements\<close>

definition insertRun :: "dag_db \<Rightarrow> run_row \<Rightarrow> dag_db result" where
  "insertRun db row =
     (if run_id row \<in> run_id ` set (db_runs db)
      then Inl (JsError ''UNIQUE constraint failed: workflow_dag_runs.id'')
      else Inr (db\<lparr>db_runs := db_runs db @ [row]\<rparr>))"

definition step_key :: "step_row \<Rightarrow> string \<times> string" where
  "step_key s = (step_run_id s, step_step_id s)"

definition attempt_key :: "attempt_row \<Rightarrow> string \<times> string \<times> nat" where
  "attempt_key a = (att_run_id a, att_step_id a, att_attempt a)"

definition insertStep :: "dag_db \<Rightarrow> step_row \<Rightarrow> dag_db result" where
  "insertStep db row =
     (if step_key row \<in> step_key ` set (db_steps db)
      then Inl (JsError ''UNIQUE constraint failed: workflow_dag_run_steps.run_id, workflow_dag_run_steps.step_id'')
      else if step_run_id row \<notin> run_id ` set (db_runs db)
      then Inl (JsError ''FOREIGN KEY constraint failed'')
      else Inr (db\<lparr>db_steps := db_steps db @ [row]\<rparr>))"

definition upsertAttempt :: "dag_db \<Rightarrow> attempt_row \<Rightarrow> dag_db result" where
  "upsertAttempt db row =
     (if attempt_key row \<in> attempt_key ` set (db_attempts db)
      then Inr (db\<lparr>db_attempts :=
        map (\<lambda>a. if attempt_key a = attempt_key row then row else a) (db_attempts db)\<rparr>)
      else if (att_run_id row, att_step_id row) \<notin> step_key ` set (db_steps db)
      then Inl (JsError ''FOREIGN KEY constraint failed'')
      else Inr (db\<lparr>db_attempts := db_attempts db @ [row]\<rparr>))"

definition appendEventInternal :: "dag_db \<Rightarrow> event_record \<Rightarrow> dag_db result" where
  "appendEventInternal db e =
     (if er_id e \<in> ev_id ` set (db_events db)
      then Inl (JsError ''UNIQUE constraint failed: workflow_dag_run_events.id'')
      else if er_runId e \<notin> run_id ` set (db_runs db)
      then Inl (JsError ''FOREIGN KEY constraint failed'')
      else Inr (db\<lparr>db_events := db_events db @ [\<lparr>
        ev_id = er_id e, ev_run_id = er_runId e, ev_step_id = er_stepId e, ev_type = er_type e,
        ev_level = er_level e, ev_message = er_message e, ev_payload = json_value (er_payload e),
        ev_timestamp = er_timestamp e\<rparr>]\<rparr>))"

definition randomUuid :: "dag_db \<Rightarrow> event_id" where
  "randomUuid db = Uuid (length (db_events db))"

lemma key_of_new_row [simp]:
  "step_key \<lparr>step_run_id = i, step_step_id = s, step_status_col = st, step_attempt = n, step_ready = r,
     step_dependencies = d, step_blocking = b, step_started_at = sa, step_finished_at = fa,
     step_failure_json = f, step_output_json = ou, step_updated_at = u\<rparr> = (i, s)"
  "attempt_key \<lparr>att_run_id = i, att_step_id = s, att_attempt = n, att_status = ast,
     att_started_at = sta, att_finished_at = fa, att_failure_json = f, att_output_json = ou,
     att_updated_at = u\<rparr> = (i, s, n)"
  by (simp_all add: step_key_def attempt_key_def)

section \<open>Queries\<close>

definition get_run :: "dag_db \<Rightarrow> string \<Rightarrow> run_record option" where
  "get_run db i = map_option mapWorkflowDagRunRow (find (\<lambda>r. run_id r = i) (db_runs db))"

definition require_run :: "dag_db \<Rightarrow> string \<Rightarrow> run_record result" where
  "require_run db i = (case get_run db i of
     None \<Rightarrow> Inl (JsError (''Workflow DAG run not found: '' @ i)) | Some r \<Rightarrow> Inr r)"

definition listSteps :: "dag_db \<Rightarrow> string \<Rightarrow> step_record list" where
  "listSteps db i = map mapWorkflowDagStepRow (filter (\<lambda>s. step_run_id s = i) (db_steps db))"

definition listAttempts :: "dag_db \<Rightarrow> string \<Rightarrow> attempt_record list" where
  "listAttempts db i = map mapWorkflowDagStepAttemptRow
     (sort_key (\<lambda>a. (att_step_id a, att_attempt a)) (filter (\<lambda>a. att_run_id a = i) (db_attempts db)))"

definition listEvents :: "dag_db \<Rightarrow> string \<Rightarrow> event_record list" where
  "listEvents db i = map mapWorkflowDagRunEventRow
     (sort_key ev_timestamp (filter (\<lambda>e. ev_run_id e = i) (db_events db)))"

definition getSnapshot :: "dag_db \<Rightarrow> string \<Rightarrow> snapshot option" where
  "getSnapshot db i = map_option (\<lambda>r. \<lparr>snap_run = r, snap_steps = listSteps db i,
     snap_attempts = listAttempts db i, snap_events = listEvents db i\<rparr>) (get_run db i)"

definition requireSnapshot :: "dag_db \<Rightarrow> string \<Rightarrow> snapshot result" where
  "requireSnapshot db i = (case getSnapshot db i of
     None \<Rightarrow> Inl (JsError (''Workflow DAG run not found: '' @ i)) | Some s \<Rightarrow> Inr s)"

definition requireStep :: "dag_db \<Rightarrow> string \<Rightarrow> string \<Rightarrow> step_record result" where
  "requireStep db i sid = (case find (\<lambda>s. sr_stepId s = sid) (listSteps db i) of
     None \<Rightarrow> Inl (JsError (''Workflow DAG step not found: '' @ i @ ''/'' @ sid)) | Some s \<Rightarrow> Inr s)"

definition requireAttempt :: "dag_db \<Rightarrow> string \<Rightarrow> string \<Rightarrow> nat \<Rightarrow> attempt_record result" where
  "requireAttempt db i sid n =
     (case find (\<lambda>a. ar_stepId a = sid \<and> ar_attempt a = n) (listAttempts db i) of
        None \<Rightarrow> Inl (JsError (''Workflow DAG step attempt not found: '' @ i @ ''/'' @ sid @ ''/'' @ nat_str n))
      | Some a \<Rightarrow> Inr a)"

text \<open>
  The two run listings order by \<open>updated_at desc, created_at desc\<close>; rows that tie on both come
  in \<open>rowid\<close> order here, which SQL leaves open.
\<close>

definition newest_first :: "run_row list \<Rightarrow> run_row list" where
  "newest_first = sort_key (\<lambda>r. (- run_updated_at r, - run_created_at r))"

definition listForTemplate :: "dag_db \<Rightarrow> string \<Rightarrow> run_record list" where
  "listForTemplate db t =
     map mapWorkflowDagRunRow (newest_first (filter (\<lambda>r. run_template_id r = t) (db_runs db)))"

definition clampWorkflowDagRunListLimit :: "jsnum option \<Rightarrow> int" where
  "clampWorkflowDagRunListLimit limit = (case limit of
     Some (Fin r) \<Rightarrow> max 1 (min (trunc_rat r) 1000)
   | _ \<Rightarrow> 500)"

definition listRuns :: "dag_db \<Rightarrow> run_status option \<Rightarrow> jsnum option \<Rightarrow> run_record list" where
  "listRuns db status limit = map mapWorkflowDagRunRow
     (take (nat (clampWorkflowDagRunListLimit limit))
       (newest_first (filter (\<lambda>r. status = None \<or> status = Some (run_status_col r)) (db_runs db))))"

section \<open>Operations\<close>

record create_run_input =
  cr_id :: "string option"
  cr_workflowTemplateId :: string
  cr_workflowTemplateVersion :: "string option"
  cr_pluginId :: "string option"
  cr_pluginVersion :: "string option"
  cr_stepOrder :: "string list"
  cr_dependencies :: "(string \<times> string list) list"

definition initial_step_row :: "string \<Rightarrow> (string \<times> string list) list \<Rightarrow> time \<Rightarrow> string \<Rightarrow> step_row" where
  "initial_step_row i deps now sid =
     (let dependencies = lookup_or [] deps sid in
      \<lparr>step_run_id = i, step_step_id = sid, step_status_col = StepPending, step_attempt = 0,
       step_ready = (if length dependencies = 0 then 1 else 0), step_dependencies = dependencies,
       step_blocking = dependencies, step_started_at = None, step_finished_at = None,
       step_failure_json = None, step_output_json = None, step_updated_at = now\<rparr>)"

text \<open>\<open>fresh\<close> is the id that \<open>randomUUID\<close> yields when the caller gives none.\<close>

definition create :: "dag_db \<Rightarrow> string \<Rightarrow> create_run_input \<Rightarrow> time \<Rightarrow> (dag_db \<times> snapshot) result" where
  "create db fresh input now =
     (let i = (case cr_id input of Some i \<Rightarrow> i | None \<Rightarrow> ''workflow-run-'' @ fresh) in
      bindR (insertRun db \<lparr>run_id = i, run_template_id = cr_workflowTemplateId input,
          run_template_version = cr_workflowTemplateVersion input, run_plugin_id = cr_pluginId input,
          run_plugin_version = cr_pluginVersion input, run_status_col = RunPending,
          run_step_order = cr_stepOrder input, run_dependencies = cr_dependencies input,
          run_failure_json = None, run_created_at = now, run_updated_at = now,
          run_started_at = None, run_finished_at = None\<rparr>) (\<lambda>db1.
      bindR (foldR (\<lambda>d sid. insertStep d (initial_step_row i (cr_dependencies input) now sid)) db1
          (cr_stepOrder input)) (\<lambda>db2.
      bindR (appendEventInternal db2 \<lparr>er_id = randomUuid db2, er_runId = i, er_stepId = None,
          er_type = ''workflow.created'', er_level = LevelInfo,
          er_message = ''Workflow DAG run state created.'', er_payload = JObj [],
          er_timestamp = now\<rparr>) (\<lambda>db3.
      bindR (requireSnapshot db3 i) (\<lambda>s. Inr (db3, s))))))"

text \<open>
  Update inputs: an absent field is \<open>None\<close> (\<open>JUndefined\<close> for the untyped ones), a null
  timestamp is \<open>Some None\<close>.
\<close>

record run_update =
  ru_status :: "run_status option"
  ru_failure :: js
  ru_startedAt :: "time option option"
  ru_finishedAt :: "time option option"

record step_update =
  su_status :: "step_status option"
  su_attempt :: "nat option"
  su_ready :: "bool option"
  su_blockingStepIds :: "string list option"
  su_startedAt :: "time option option"
  su_finishedAt :: "time option option"
  su_failure :: js
  su_output :: js

abbreviation no_run_update :: run_update where
  "no_run_update \<equiv> \<lparr>ru_status = None, ru_failure = JUndefined, ru_startedAt = None, ru_finishedAt = None\<rparr>"

abbreviation no_step_update :: step_update where
  "no_step_update \<equiv> \<lparr>su_status = None, su_attempt = None, su_ready = None, su_blockingStepIds = None,
     su_startedAt = None, su_finishedAt = None, su_failure = JUndefined, su_output = JUndefined\<rparr>"

text \<open>\<open>x ?? d\<close> for a value that may be absent.\<close>

fun or_else :: "'a option \<Rightarrow> 'a \<Rightarrow> 'a" where
  "or_else (Some y) d = y"
| "or_else None d = d"

definition updateRun :: "dag_db \<Rightarrow> string \<Rightarrow> run_update \<Rightarrow> time \<Rightarrow> (dag_db \<times> run_record) result" where
  "updateRun db i input now =
     bindR (require_run db i) (\<lambda>existing.
       let db' = db\<lparr>db_runs := map (\<lambda>r. if run_id r = i then
             r\<lparr>run_status_col := or_else (ru_status input) (rr_status existing),
               run_failure_json := (if ru_failure input = JUndefined then jsonOrNull (rr_failure existing)
                                    else jsonOrNull (ru_failure input)),
               run_updated_at := now,
               run_started_at := or_else (ru_startedAt input) (rr_startedAt existing),
               run_finished_at := or_else (ru_finishedAt input) (rr_finishedAt existing)\<rparr>
             else r) (db_runs db)\<rparr>
       in bindR (require_run db' i) (\<lambda>r. Inr (db', r)))"

definition updateStep :: "dag_db \<Rightarrow> string \<Rightarrow> string \<Rightarrow> step_update \<Rightarrow> time \<Rightarrow>
    (dag_db \<times> step_record) result" where
  "updateStep db i sid input now =
     bindR (requireStep db i sid) (\<lambda>existing.
       let db' = db\<lparr>db_steps := map (\<lambda>s. if step_key s = (i, sid) then
             s\<lparr>step_status_col := or_else (su_status input) (sr_status existing),
               step_attempt := or_else (su_attempt input) (sr_attempt existing),
               step_ready := (if or_else (su_ready input) (sr_ready existing) then 1 else 0),
               step_blocking := or_else (su_blockingStepIds input) (sr_blockingStepIds existing),
               step_started_at := or_else (su_startedAt input) (sr_startedAt existing),
               step_finished_at := or_else (su_finishedAt input) (sr_finishedAt existing),
               step_failure_json := (if su_failure input = JUndefined then jsonOrNull (sr_failure existing)
                                     else jsonOrNull (su_failure input)),
               step_output_json := (if su_output input = JUndefined then jsonOrNull (sr_output existing)
                                    else jsonOrNull (su_output input)),
               step_updated_at := now\<rparr>
             else s) (db_steps db)\<rparr>
       in bindR (requireStep db' i sid) (\<lambda>s. Inr (db', s)))"

definition startAttempt :: "dag_db \<Rightarrow> string \<Rightarrow> string \<Rightarrow> nat \<Rightarrow> time \<Rightarrow> time \<Rightarrow>
    (dag_db \<times> attempt_record) result" where
  "startAttempt db i sid n startedAt now =
     bindR (upsertAttempt db \<lparr>att_run_id = i, att_step_id = sid, att_attempt = n,
         att_status = AttemptRunning, att_started_at = startedAt, att_finished_at = None,
         att_failure_json = None, att_output_json = None, att_updated_at = now\<rparr>) (\<lambda>db'.
     bindR (requireAttempt db' i sid n) (\<lambda>a. Inr (db', a)))"

definition finishAttempt :: "dag_db \<Rightarrow> string \<Rightarrow> string \<Rightarrow> nat \<Rightarrow> attempt_status \<Rightarrow> time \<Rightarrow> js \<Rightarrow> js \<Rightarrow>
    time \<Rightarrow> (dag_db \<times> attempt_record) result" where
  "finishAttempt db i sid n status finishedAt failure output now =
     (let db1 = db\<lparr>db_attempts := map (\<lambda>a. if attempt_key a = (i, sid, n) then
              a\<lparr>att_status := status, att_finished_at := Some finishedAt,
                att_failure_json := jsonOrNull failure, att_output_json := jsonOrNull output,
                att_updated_at := now\<rparr> else a) (db_attempts db)\<rparr>
      in bindR (if (i, sid, n) \<in> attempt_key ` set (db_attempts db) then Inr db1
           else upsertAttempt db1 \<lparr>att_run_id = i, att_step_id = sid, att_attempt = n,
             att_status = status, att_started_at = finishedAt, att_finished_at = Some finishedAt,
             att_failure_json = jsonOrNull failure, att_output_json = jsonOrNull output,
             att_updated_at = now\<rparr>) (\<lambda>db2.
         bindR (requireAttempt db2 i sid n) (\<lambda>a. Inr (db2, a))))"

record event_input =
  ei_id :: "string option"
  ei_runId :: string
  ei_stepId :: "string option"
  ei_type :: string
  ei_level :: "event_level option"
  ei_message :: "string option"
  ei_payload :: js
  ei_timestamp :: "time option"

definition appendEvent :: "dag_db \<Rightarrow> event_input \<Rightarrow> time \<Rightarrow> (dag_db \<times> event_record) result" where
  "appendEvent db input now =
     (let event = \<lparr>er_id = (case ei_id input of Some i \<Rightarrow> GivenId i | None \<Rightarrow> randomUuid db),
            er_runId = ei_runId input, er_stepId = text_col (ei_stepId input), er_type = ei_type input,
            er_level = or_else (ei_level input) LevelInfo, er_message = or_else (ei_message input) [],
            er_payload = (if ei_payload input = JUndefined \<or> ei_payload input = JNull then JObj []
                          else ei_payload input),
            er_timestamp = or_else (ei_timestamp input) now\<rparr>
      in bindR (appendEventInternal db event) (\<lambda>db'. Inr (db', event)))"

section \<open>The database as maps\<close>

text \<open>
  What the statements read and write, row by row: a run by its id, a step and an attempt by their
  keys. Every operation of the repository is shown to be one update of these maps.
\<close>

named_theorems db_simps \<open>how the updates act on the maps of the database\<close>

definition run_of :: "dag_db \<Rightarrow> string \<Rightarrow> run_row option" where
  "run_of db i = find (\<lambda>r. run_id r = i) (db_runs db)"

definition step_of :: "dag_db \<Rightarrow> string \<times> string \<Rightarrow> step_row option" where
  "step_of db k = find (\<lambda>s. step_key s = k) (db_steps db)"

definition attempt_of :: "dag_db \<Rightarrow> string \<times> string \<times> nat \<Rightarrow> attempt_row option" where
  "attempt_of db k = find (\<lambda>a. attempt_key a = k) (db_attempts db)"

definition step_keys :: "dag_db \<Rightarrow> (string \<times> string) list" where
  "step_keys db = map step_key (db_steps db)"

definition event_count :: "dag_db \<Rightarrow> nat" where
  "event_count db = length (db_events db)"

text \<open>
  The constraints of the schema, and that ids drawn by \<open>randomUUID\<close> lie below the number of
  events.
\<close>

fun uuid_below :: "nat \<Rightarrow> event_id \<Rightarrow> bool" where
  "uuid_below m (Uuid n) = (n < m)"
| "uuid_below m (GivenId _) = True"

lemma uuid_below_Suc: "uuid_below m i \<Longrightarrow> uuid_below (Suc m) i"
  by (cases i) auto

definition events_ok :: "dag_db \<Rightarrow> bool" where
  "events_ok db \<longleftrightarrow> distinct (map ev_id (db_events db)) \<and>
     (\<forall>e \<in> set (db_events db). run_of db (ev_run_id e) \<noteq> None \<and>
       uuid_below (length (db_events db)) (ev_id e))"

definition wf_db :: "dag_db \<Rightarrow> bool" where
  "wf_db db \<longleftrightarrow> distinct (map run_id (db_runs db)) \<and> distinct (step_keys db) \<and>
     distinct (map attempt_key (db_attempts db)) \<and>
     (\<forall>k \<in> set (step_keys db). run_of db (fst k) \<noteq> None) \<and>
     (\<forall>k \<in> set (map attempt_key (db_attempts db)). step_of db (fst k, fst (snd k)) \<noteq> None) \<and>
     events_ok db"

lemma run_of_None: "run_of db i = None \<longleftrightarrow> i \<notin> run_id ` set (db_runs db)"
  by (auto simp: run_of_def find_eq_None)

lemma step_of_None: "step_of db k = None \<longleftrightarrow> k \<notin> set (step_keys db)"
  by (auto simp: step_of_def step_keys_def find_eq_None)

lemma attempt_of_None: "attempt_of db k = None \<longleftrightarrow> k \<notin> attempt_key ` set (db_attempts db)"
  by (auto simp: attempt_of_def find_eq_None)

lemma step_of_SomeD: "step_of db k = Some s \<Longrightarrow> s \<in> set (db_steps db) \<and> step_key s = k"
  by (auto simp: step_of_def dest: find_SomeD)

lemma run_of_SomeD: "run_of db i = Some r \<Longrightarrow> r \<in> set (db_runs db) \<and> run_id r = i"
  by (auto simp: run_of_def dest: find_SomeD)

lemma attempt_of_SomeD: "attempt_of db k = Some a \<Longrightarrow> k \<in> attempt_key ` set (db_attempts db)"
  by (auto simp: attempt_of_def dest!: find_SomeD)

lemma wf_db_step_run: "wf_db db \<Longrightarrow> step_of db (i, sid) = Some s \<Longrightarrow> run_of db i \<noteq> None"
  using step_of_None [of db "(i, sid)"] by (force simp: wf_db_def)

lemma wf_db_attempt_step: "wf_db db \<Longrightarrow> attempt_of db (i, sid, n) \<noteq> None \<Longrightarrow> step_of db (i, sid) \<noteq> None"
proof -
  assume wf: "wf_db db" and "attempt_of db (i, sid, n) \<noteq> None"
  then have "(i, sid, n) \<in> set (map attempt_key (db_attempts db))" by (simp add: attempt_of_None)
  then show ?thesis using wf unfolding wf_db_def by fastforce
qed

subsection \<open>Queries\<close>

lemma get_run_eq: "get_run db i = map_option mapWorkflowDagRunRow (run_of db i)"
  by (simp add: get_run_def run_of_def)

lemma require_run_eq:
  "require_run db i = (case run_of db i of
     None \<Rightarrow> Inl (JsError (''Workflow DAG run not found: '' @ i))
   | Some r \<Rightarrow> Inr (mapWorkflowDagRunRow r))"
  by (simp add: require_run_def get_run_eq split: option.splits)

lemma find_listSteps:
  "find (\<lambda>s. sr_stepId s = sid) (listSteps db i) = map_option mapWorkflowDagStepRow (step_of db (i, sid))"
  by (simp add: listSteps_def find_map_comp find_filter_conj step_of_def step_key_def
      mapWorkflowDagStepRow_def)

lemma requireStep_eq:
  "requireStep db i sid = (case step_of db (i, sid) of
     None \<Rightarrow> Inl (JsError (''Workflow DAG step not found: '' @ i @ ''/'' @ sid))
   | Some s \<Rightarrow> Inr (mapWorkflowDagStepRow s))"
  by (simp add: requireStep_def find_listSteps split: option.splits)

lemma requireAttempt_eq:
  "requireAttempt db i sid n = (case attempt_of db (i, sid, n) of
     None \<Rightarrow> Inl (JsError (''Workflow DAG step attempt not found: '' @ i @ ''/'' @ sid @ ''/'' @ nat_str n))
   | Some a \<Rightarrow> Inr (mapWorkflowDagStepAttemptRow a))"
proof -
  have "find (\<lambda>a. (att_step_id a, att_attempt a) = (sid, n))
        (sort_key (\<lambda>a. (att_step_id a, att_attempt a)) (filter (\<lambda>a. att_run_id a = i) (db_attempts db)))
      = attempt_of db (i, sid, n)"
    unfolding find_sort_key by (simp add: attempt_of_def find_filter_conj attempt_key_def)
  then show ?thesis
    by (simp add: requireAttempt_def listAttempts_def find_map_comp mapWorkflowDagStepAttemptRow_def
        split: option.splits)
qed

definition snapshot_of :: "dag_db \<Rightarrow> run_row \<Rightarrow> snapshot" where
  "snapshot_of db r = \<lparr>snap_run = mapWorkflowDagRunRow r, snap_steps = listSteps db (run_id r),
     snap_attempts = listAttempts db (run_id r), snap_events = listEvents db (run_id r)\<rparr>"

lemma requireSnapshot_eq:
  "requireSnapshot db i = (case run_of db i of
     None \<Rightarrow> Inl (JsError (''Workflow DAG run not found: '' @ i)) | Some r \<Rightarrow> Inr (snapshot_of db r))"
  by (auto simp: requireSnapshot_def getSnapshot_def get_run_eq snapshot_of_def dest: run_of_SomeD
      split: option.splits)

lemma record_of_row [simp]:
  "rr_id (mapWorkflowDagRunRow r) = run_id r"
  "rr_status (mapWorkflowDagRunRow r) = run_status_col r"
  "rr_stepOrder (mapWorkflowDagRunRow r) = run_step_order r"
  "rr_dependencies (mapWorkflowDagRunRow r) = run_dependencies r"
  "rr_failure (mapWorkflowDagRunRow r) = json_col (run_failure_json r)"
  "rr_startedAt (mapWorkflowDagRunRow r) = run_started_at r"
  "rr_finishedAt (mapWorkflowDagRunRow r) = run_finished_at r"
  "sr_stepId (mapWorkflowDagStepRow s) = step_step_id s"
  "sr_status (mapWorkflowDagStepRow s) = step_status_col s"
  "sr_attempt (mapWorkflowDagStepRow s) = step_attempt s"
  "sr_ready (mapWorkflowDagStepRow s) = (step_ready s = 1)"
  "sr_dependencies (mapWorkflowDagStepRow s) = step_dependencies s"
  "sr_blockingStepIds (mapWorkflowDagStepRow s) = step_blocking s"
  "sr_startedAt (mapWorkflowDagStepRow s) = step_started_at s"
  "sr_finishedAt (mapWorkflowDagStepRow s) = step_finished_at s"
  "sr_failure (mapWorkflowDagStepRow s) = json_col (step_failure_json s)"
  "sr_output (mapWorkflowDagStepRow s) = json_col (step_output_json s)"
  by (simp_all add: mapWorkflowDagRunRow_def mapWorkflowDagStepRow_def)

subsection \<open>Updates\<close>

definition apply_run_update :: "run_update \<Rightarrow> time \<Rightarrow> run_row \<Rightarrow> run_row \<Rightarrow> run_row" where
  "apply_run_update u now e r = r\<lparr>run_status_col := or_else (ru_status u) (run_status_col e),
     run_failure_json := (if ru_failure u = JUndefined then jsonOrNull (json_col (run_failure_json e))
                          else jsonOrNull (ru_failure u)),
     run_updated_at := now,
     run_started_at := or_else (ru_startedAt u) (run_started_at e),
     run_finished_at := or_else (ru_finishedAt u) (run_finished_at e)\<rparr>"

definition put_run :: "string \<Rightarrow> run_update \<Rightarrow> time \<Rightarrow> dag_db \<Rightarrow> dag_db" where
  "put_run i u now db = (case run_of db i of None \<Rightarrow> db | Some e \<Rightarrow>
     db\<lparr>db_runs := map (\<lambda>r. if run_id r = i then apply_run_update u now e r else r) (db_runs db)\<rparr>)"

definition apply_step_update :: "step_update \<Rightarrow> time \<Rightarrow> step_row \<Rightarrow> step_row \<Rightarrow> step_row" where
  "apply_step_update u now e s = s\<lparr>step_status_col := or_else (su_status u) (step_status_col e),
     step_attempt := or_else (su_attempt u) (step_attempt e),
     step_ready := (if or_else (su_ready u) (step_ready e = 1) then 1 else 0),
     step_blocking := or_else (su_blockingStepIds u) (step_blocking e),
     step_started_at := or_else (su_startedAt u) (step_started_at e),
     step_finished_at := or_else (su_finishedAt u) (step_finished_at e),
     step_failure_json := (if su_failure u = JUndefined then jsonOrNull (json_col (step_failure_json e))
                           else jsonOrNull (su_failure u)),
     step_output_json := (if su_output u = JUndefined then jsonOrNull (json_col (step_output_json e))
                          else jsonOrNull (su_output u)),
     step_updated_at := now\<rparr>"

definition put_step :: "string \<times> string \<Rightarrow> step_update \<Rightarrow> time \<Rightarrow> dag_db \<Rightarrow> dag_db" where
  "put_step k u now db = (case step_of db k of None \<Rightarrow> db | Some e \<Rightarrow>
     db\<lparr>db_steps := map (\<lambda>s. if step_key s = k then apply_step_update u now e s else s) (db_steps db)\<rparr>)"

lemma apply_run_update_id [simp]:
  "run_id (apply_run_update u now e r) = run_id r"
  "run_step_order (apply_run_update u now e r) = run_step_order r"
  "run_dependencies (apply_run_update u now e r) = run_dependencies r"
  "run_status_col (apply_run_update u now e r) = or_else (ru_status u) (run_status_col e)"
  by (simp_all add: apply_run_update_def)

lemma apply_step_update_fields [simp]:
  "step_key (apply_step_update u now e s) = step_key s"
  "step_run_id (apply_step_update u now e s) = step_run_id s"
  "step_step_id (apply_step_update u now e s) = step_step_id s"
  "step_dependencies (apply_step_update u now e s) = step_dependencies s"
  "step_status_col (apply_step_update u now e s) = or_else (su_status u) (step_status_col e)"
  "step_attempt (apply_step_update u now e s) = or_else (su_attempt u) (step_attempt e)"
  "step_ready (apply_step_update u now e s) = (if or_else (su_ready u) (step_ready e = 1) then 1 else 0)"
  "step_blocking (apply_step_update u now e s) = or_else (su_blockingStepIds u) (step_blocking e)"
  by (simp_all add: apply_step_update_def step_key_def)

lemma put_run_fields [simp, db_simps]:
  "db_steps (put_run i u now db) = db_steps db"
  "db_attempts (put_run i u now db) = db_attempts db"
  "db_events (put_run i u now db) = db_events db"
  "map run_id (db_runs (put_run i u now db)) = map run_id (db_runs db)"
  by (auto simp: put_run_def split: option.splits)

lemma put_step_fields [simp, db_simps]:
  "db_runs (put_step k u now db) = db_runs db"
  "db_attempts (put_step k u now db) = db_attempts db"
  "db_events (put_step k u now db) = db_events db"
  "step_keys (put_step k u now db) = step_keys db"
  by (auto simp: put_step_def step_keys_def split: option.splits)

lemma run_of_put_run [simp, db_simps]:
  "run_of (put_run i u now db) j =
     (if j = i then map_option (\<lambda>r. apply_run_update u now r r) (run_of db j) else run_of db j)"
proof (cases "run_of db i")
  case (Some e)
  then show ?thesis
    using find_key_update [of run_id "apply_run_update u now e" j i "db_runs db"]
    by (auto simp: put_run_def run_of_def)
qed (auto simp: put_run_def)

lemma step_of_put_step [simp, db_simps]:
  "step_of (put_step k u now db) k' =
     (if k' = k then map_option (\<lambda>s. apply_step_update u now s s) (step_of db k') else step_of db k')"
proof (cases "step_of db k")
  case (Some e)
  then show ?thesis
    using find_key_update [of step_key "apply_step_update u now e" k' k "db_steps db"]
    by (auto simp: put_step_def step_of_def)
qed (auto simp: put_step_def)

lemma maps_cong:
  "db_runs db' = db_runs db \<Longrightarrow> run_of db' i = run_of db i"
  "db_steps db' = db_steps db \<Longrightarrow> step_of db' k = step_of db k"
  "db_steps db' = db_steps db \<Longrightarrow> step_keys db' = step_keys db"
  "db_attempts db' = db_attempts db \<Longrightarrow> attempt_of db' a = attempt_of db a"
  by (simp_all add: run_of_def step_of_def step_keys_def attempt_of_def)

lemma put_maps [simp, db_simps]:
  "step_of (put_run i u now db) k = step_of db k"
  "step_keys (put_run i u now db) = step_keys db"
  "attempt_of (put_run i u now db) a = attempt_of db a"
  "run_of (put_step k' su now db) i = run_of db i"
  "attempt_of (put_step k' su now db) a = attempt_of db a"
  by (simp_all add: step_of_def step_keys_def attempt_of_def run_of_def)

lemma updateRun_eq:
  assumes "run_of db i = Some e"
  shows "updateRun db i u now = Inr (put_run i u now db, mapWorkflowDagRunRow (apply_run_update u now e e))"
proof -
  have "updateRun db i u now = bindR (require_run (put_run i u now db) i) (\<lambda>r. Inr (put_run i u now db, r))"
    by (simp add: updateRun_def require_run_eq assms put_run_def apply_run_update_def Let_def
        cong: if_cong)
  then show ?thesis by (simp add: require_run_eq assms)
qed

lemma updateStep_eq:
  assumes "step_of db (i, sid) = Some e"
  shows "updateStep db i sid u now =
    Inr (put_step (i, sid) u now db, mapWorkflowDagStepRow (apply_step_update u now e e))"
proof -
  have "updateStep db i sid u now =
      bindR (requireStep (put_step (i, sid) u now db) i sid) (\<lambda>s. Inr (put_step (i, sid) u now db, s))"
    by (simp add: updateStep_def requireStep_eq assms put_step_def apply_step_update_def Let_def
        cong: if_cong)
  then show ?thesis by (simp add: requireStep_eq assms)
qed

subsection \<open>Attempts and events\<close>

definition put_attempt :: "attempt_row \<Rightarrow> dag_db \<Rightarrow> dag_db" where
  "put_attempt row db = (if attempt_key row \<in> attempt_key ` set (db_attempts db)
     then db\<lparr>db_attempts := map (\<lambda>a. if attempt_key a = attempt_key row then row else a) (db_attempts db)\<rparr>
     else db\<lparr>db_attempts := db_attempts db @ [row]\<rparr>)"

definition close_attempt :: "attempt_status \<Rightarrow> time \<Rightarrow> js \<Rightarrow> js \<Rightarrow> time \<Rightarrow> attempt_row \<Rightarrow> attempt_row" where
  "close_attempt status finishedAt failure output now a =
     a\<lparr>att_status := status, att_finished_at := Some finishedAt, att_failure_json := jsonOrNull failure,
       att_output_json := jsonOrNull output, att_updated_at := now\<rparr>"

definition end_attempt :: "string \<times> string \<times> nat \<Rightarrow> attempt_status \<Rightarrow> time \<Rightarrow> js \<Rightarrow> js \<Rightarrow> time \<Rightarrow>
    dag_db \<Rightarrow> dag_db" where
  "end_attempt k status finishedAt failure output now db =
     (if k \<in> attempt_key ` set (db_attempts db)
      then db\<lparr>db_attempts := map (\<lambda>a. if attempt_key a = k
             then close_attempt status finishedAt failure output now a else a) (db_attempts db)\<rparr>
      else put_attempt \<lparr>att_run_id = fst k, att_step_id = fst (snd k), att_attempt = snd (snd k),
             att_status = status, att_started_at = finishedAt, att_finished_at = Some finishedAt,
             att_failure_json = jsonOrNull failure, att_output_json = jsonOrNull output,
             att_updated_at = now\<rparr> db)"

definition put_event :: "event_record \<Rightarrow> dag_db \<Rightarrow> dag_db" where
  "put_event e db = db\<lparr>db_events := db_events db @ [\<lparr>
        ev_id = er_id e, ev_run_id = er_runId e, ev_step_id = er_stepId e, ev_type = er_type e,
        ev_level = er_level e, ev_message = er_message e, ev_payload = json_value (er_payload e),
        ev_timestamp = er_timestamp e\<rparr>]\<rparr>"

lemma put_attempt_fields [simp, db_simps]:
  "db_runs (put_attempt row db) = db_runs db"
  "db_steps (put_attempt row db) = db_steps db"
  "db_events (put_attempt row db) = db_events db"
  by (auto simp: put_attempt_def)

lemma end_attempt_fields [simp, db_simps]:
  "db_runs (end_attempt k st fa f ou now db) = db_runs db"
  "db_steps (end_attempt k st fa f ou now db) = db_steps db"
  "db_events (end_attempt k st fa f ou now db) = db_events db"
  by (auto simp: end_attempt_def)

lemma put_event_fields [simp, db_simps]:
  "db_runs (put_event e db) = db_runs db"
  "db_steps (put_event e db) = db_steps db"
  "db_attempts (put_event e db) = db_attempts db"
  by (auto simp: put_event_def)

lemma log_maps [simp, db_simps]:
  "run_of (put_attempt row db) i = run_of db i"
  "step_of (put_attempt row db) k = step_of db k"
  "step_keys (put_attempt row db) = step_keys db"
  "run_of (end_attempt a st fa f ou now db) i = run_of db i"
  "step_of (end_attempt a st fa f ou now db) k = step_of db k"
  "step_keys (end_attempt a st fa f ou now db) = step_keys db"
  "run_of (put_event e db) i = run_of db i"
  "step_of (put_event e db) k = step_of db k"
  "step_keys (put_event e db) = step_keys db"
  "attempt_of (put_event e db) a = attempt_of db a"
  by (simp_all add: step_of_def step_keys_def attempt_of_def run_of_def)

lemma close_attempt_key [simp]:
  "attempt_key (close_attempt st fa f ou now a) = attempt_key a"
  "att_status (close_attempt st fa f ou now a) = st"
  by (simp_all add: close_attempt_def attempt_key_def)

lemma attempt_of_put_attempt [simp, db_simps]:
  "attempt_of (put_attempt row db) k = (if k = attempt_key row then Some row else attempt_of db k)"
proof (cases "attempt_of db (attempt_key row)")
  case None
  then have "attempt_key row \<notin> attempt_key ` set (db_attempts db)" by (simp add: attempt_of_None)
  then show ?thesis using None by (auto simp: put_attempt_def attempt_of_def find_key_append)
next
  case (Some a)
  then have "attempt_key row \<in> attempt_key ` set (db_attempts db)"
    by (rule attempt_of_SomeD)
  then show ?thesis using Some by (simp add: put_attempt_def attempt_of_def find_key_replace)
qed

lemma attempt_of_end_attempt [simp, db_simps]:
  "attempt_of (end_attempt k st fa f ou now db) k' =
     (if k' = k then Some (case attempt_of db k of
        Some a \<Rightarrow> close_attempt st fa f ou now a
      | None \<Rightarrow> \<lparr>att_run_id = fst k, att_step_id = fst (snd k), att_attempt = snd (snd k),
             att_status = st, att_started_at = fa, att_finished_at = Some fa,
             att_failure_json = jsonOrNull f, att_output_json = jsonOrNull ou, att_updated_at = now\<rparr>)
      else attempt_of db k')"
proof (cases "attempt_of db k")
  case None
  then have "k \<notin> attempt_key ` set (db_attempts db)" by (simp add: attempt_of_None)
  then show ?thesis using None by (simp add: end_attempt_def)
next
  case (Some a)
  then have "k \<in> attempt_key ` set (db_attempts db)" by (rule attempt_of_SomeD)
  then show ?thesis
    using Some find_key_update [of attempt_key "close_attempt st fa f ou now" k' k "db_attempts db"]
    by (simp add: end_attempt_def attempt_of_def)
qed

lemma upsertAttempt_eq:
  assumes "wf_db db" "step_of db (att_run_id row, att_step_id row) \<noteq> None"
  shows "upsertAttempt db row = Inr (put_attempt row db)"
  using assms step_of_None [of db "(att_run_id row, att_step_id row)"]
  by (auto simp: upsertAttempt_def put_attempt_def step_keys_def)

lemma startAttempt_eq:
  assumes "wf_db db" "step_of db (i, sid) \<noteq> None"
  obtains a where "startAttempt db i sid n startedAt now = Inr (put_attempt \<lparr>att_run_id = i,
     att_step_id = sid, att_attempt = n, att_status = AttemptRunning, att_started_at = startedAt,
     att_finished_at = None, att_failure_json = None, att_output_json = None, att_updated_at = now\<rparr> db, a)"
  using assms by (simp add: startAttempt_def upsertAttempt_eq requireAttempt_eq)

lemma finishAttempt_eq:
  assumes "wf_db db" "step_of db (i, sid) \<noteq> None"
  obtains a where "finishAttempt db i sid n st fa f ou now = Inr (end_attempt (i, sid, n) st fa f ou now db, a)"
proof (cases "(i, sid, n) \<in> attempt_key ` set (db_attempts db)")
  case True
  then have "finishAttempt db i sid n st fa f ou now =
      bindR (requireAttempt (end_attempt (i, sid, n) st fa f ou now db) i sid n)
        (\<lambda>a. Inr (end_attempt (i, sid, n) st fa f ou now db, a))"
    by (simp add: finishAttempt_def end_attempt_def close_attempt_def Let_def cong: if_cong)
  then show ?thesis using that by (simp add: requireAttempt_eq)
next
  case False
  then have same: "map (\<lambda>a. if attempt_key a = (i, sid, n)
      then h a else a) (db_attempts db) = db_attempts db" for h
    by (intro map_idI) force
  have "finishAttempt db i sid n st fa f ou now =
      bindR (requireAttempt (end_attempt (i, sid, n) st fa f ou now db) i sid n)
        (\<lambda>a. Inr (end_attempt (i, sid, n) st fa f ou now db, a))"
    using False assms by (simp add: finishAttempt_def end_attempt_def same Let_def upsertAttempt_eq)
  then show ?thesis using that by (simp add: requireAttempt_eq)
qed

lemma fresh_uuid:
  assumes wf: "wf_db db"
  shows "randomUuid db \<notin> ev_id ` set (db_events db)"
proof
  assume "randomUuid db \<in> ev_id ` set (db_events db)"
  then obtain e where "e \<in> set (db_events db)" "ev_id e = Uuid (length (db_events db))"
    by (auto simp: randomUuid_def)
  then show False using wf by (auto simp: wf_db_def events_ok_def)
qed

lemma appendEvent_eq:
  assumes "wf_db db" "run_of db (ei_runId input) \<noteq> None" "ei_id input = None"
  obtains e where "appendEvent db input now = Inr (put_event e db, e)" "er_id e = randomUuid db"
    "er_runId e = ei_runId input"
  using assms fresh_uuid [OF assms(1)] run_of_None [of db "ei_runId input"]
  by (auto simp: appendEvent_def appendEventInternal_def put_event_def Let_def)

subsection \<open>The constraints are kept\<close>

lemma put_same_domain:
  "(run_of (put_run i u now db) j = None) = (run_of db j = None)"
  "(step_of (put_step k su now db) k' = None) = (step_of db k' = None)"
  by simp_all

lemma wf_db_put_run [simp, db_simps]: "wf_db (put_run i u now db) = wf_db db"
  by (simp add: wf_db_def events_ok_def put_same_domain del: not_None_eq run_of_put_run)

lemma wf_db_put_step [simp, db_simps]: "wf_db (put_step k u now db) = wf_db db"
  by (simp add: wf_db_def events_ok_def put_same_domain del: not_None_eq step_of_put_step)

lemma put_attempt_keys:
  "map attempt_key (db_attempts (put_attempt row db)) =
     (if attempt_key row \<in> attempt_key ` set (db_attempts db) then map attempt_key (db_attempts db)
      else map attempt_key (db_attempts db) @ [attempt_key row])"
  by (auto simp: put_attempt_def)

lemma wf_db_put_attempt:
  assumes "wf_db db" "step_of db (att_run_id row, att_step_id row) \<noteq> None"
  shows "wf_db (put_attempt row db)"
  using assms unfolding wf_db_def put_attempt_keys
  by (auto simp: events_ok_def attempt_key_def)

lemma wf_db_end_attempt:
  assumes "wf_db db" "step_of db (fst k, fst (snd k)) \<noteq> None"
  shows "wf_db (end_attempt k st fa f ou now db)"
proof (cases "k \<in> attempt_key ` set (db_attempts db)")
  case True
  then have "map attempt_key (db_attempts (end_attempt k st fa f ou now db)) = map attempt_key (db_attempts db)"
    by (auto simp: end_attempt_def)
  then show ?thesis using assms(1) unfolding wf_db_def by (simp add: events_ok_def)
next
  case False
  then show ?thesis using assms by (simp add: end_attempt_def wf_db_put_attempt)
qed

lemma wf_db_put_event:
  assumes "wf_db db" "er_id e = randomUuid db" "run_of db (er_runId e) \<noteq> None"
  shows "wf_db (put_event e db)"
proof -
  have "events_ok (put_event e db)"
    using assms fresh_uuid [OF assms(1)]
    by (auto simp: wf_db_def events_ok_def put_event_def randomUuid_def run_of_def uuid_below_Suc)
  then show ?thesis using assms by (simp add: wf_db_def)
qed

end
