(* ===== verification/WorkflowState.thy ===== *)
theory WorkflowState
  imports WorkflowDag WorkflowStore
begin

text \<open>
  The state machine of a workflow run: \<open>control-plane/services/workflow-state.ts\<close>. Every
  operation runs in a transaction over the repository and returns the new database with the
  snapshot the code returns.

  The operations are proved to refine an abstract machine on run status, step status and
  attempts, to keep readiness equal to "pending with every dependency completed", and to leave
  other runs alone.
\<close>

section \<open>Definitions\<close>

record create_state_request =
  cs_workflowTemplateId :: string
  cs_workflowTemplateVersion :: "string option"
  cs_pluginId :: "string option"
  cs_pluginVersion :: "string option"
  cs_tasks :: js
  cs_runId :: "string option"

abbreviation tasks_path :: string where
  "tasks_path \<equiv> ''$.workflow.tasks''"

definition createRun :: "dag_db \<Rightarrow> string \<Rightarrow> create_state_request \<Rightarrow> time \<Rightarrow> (dag_db \<times> snapshot) result" where
  "createRun db fresh request now =
     bindR (parseWorkflowTemplateDag (cs_tasks request) tasks_path) (\<lambda>dag.
       create db fresh
         \<lparr>cr_id = cs_runId request, cr_workflowTemplateId = cs_workflowTemplateId request,
          cr_workflowTemplateVersion = cs_workflowTemplateVersion request,
          cr_pluginId = cs_pluginId request, cr_pluginVersion = cs_pluginVersion request,
          cr_stepOrder = taskOrder dag, cr_dependencies = dependenciesByTaskId dag\<rparr> now)"

text \<open>\<open>extractTemplateTasks\<close>: what of a manifest's tasks reaches the parser.\<close>

definition extractTemplateTask :: "js \<Rightarrow> js" where
  "extractTemplateTask task =
     (case (if is_record task then js_str (js_get task ''id'') else None) of
        None \<Rightarrow> JObj [(''id'', JStr [])]
      | Some i \<Rightarrow> JObj ((''id'', JStr i) #
          (case js_get task ''dependsOn'' of
             JArr ds \<Rightarrow> [(''dependsOn'', JArr (filter is_string ds))]
           | _ \<Rightarrow> [])))"

definition extractTemplateTasks :: "js \<Rightarrow> js" where
  "extractTemplateTasks manifest =
     (if is_record manifest \<and> is_record (js_get manifest ''workflow'')
      then (case js_get (js_get manifest ''workflow'') ''tasks'' of
          JArr tasks \<Rightarrow> JArr (map extractTemplateTask tasks)
        | _ \<Rightarrow> JArr [])
      else JArr [])"

record template_index_record =
  tir_id :: string
  tir_version :: "string option"
  tir_pluginId :: "string option"
  tir_pluginVersion :: "string option"
  tir_manifest :: js

definition createRunFromTemplate :: "dag_db \<Rightarrow> string \<Rightarrow> template_index_record \<Rightarrow> string option \<Rightarrow> time \<Rightarrow>
    (dag_db \<times> snapshot) result" where
  "createRunFromTemplate db fresh template runId now = createRun db fresh
     \<lparr>cs_workflowTemplateId = tir_id template, cs_workflowTemplateVersion = tir_version template,
      cs_pluginId = tir_pluginId template, cs_pluginVersion = tir_pluginVersion template,
      cs_tasks = extractTemplateTasks (tir_manifest template), cs_runId = runId\<rparr> now"

definition requireSnapStep :: "snapshot \<Rightarrow> string \<Rightarrow> step_record result" where
  "requireSnapStep snap sid = (case find (\<lambda>s. sr_stepId s = sid) (snap_steps snap) of
     None \<Rightarrow> Inl (JsError (''Workflow step not found: '' @ rr_id (snap_run snap) @ ''/'' @ sid))
   | Some s \<Rightarrow> Inr s)"

text \<open>An event of a run, with the defaults of \<open>appendEvent\<close> for what the caller leaves out.\<close>

definition run_event :: "string \<Rightarrow> string option \<Rightarrow> string \<Rightarrow> event_level \<Rightarrow> string \<Rightarrow> js \<Rightarrow> time \<Rightarrow> event_input" where
  "run_event i sid type level message payload timestamp =
     \<lparr>ei_id = None, ei_runId = i, ei_stepId = sid, ei_type = type, ei_level = Some level,
      ei_message = Some message, ei_payload = payload, ei_timestamp = Some timestamp\<rparr>"

definition blocking_in :: "step_record list \<Rightarrow> step_record \<Rightarrow> string list" where
  "blocking_in steps step = filter (\<lambda>d. case find (\<lambda>s. sr_stepId s = d) steps of
       None \<Rightarrow> True | Some dependency \<Rightarrow> sr_status dependency \<noteq> StepCompleted) (sr_dependencies step)"

definition recomputeReadiness :: "dag_db \<Rightarrow> string \<Rightarrow> time \<Rightarrow> (dag_db \<times> snapshot) result" where
  "recomputeReadiness db i now =
     bindR (requireSnapshot db i) (\<lambda>snap.
     bindR (foldR (\<lambda>d step.
         let blocking = blocking_in (snap_steps snap) step in
         bindR (updateStep d i (sr_stepId step) (no_step_update\<lparr>
             su_ready := Some (sr_status step = StepPending \<and> blocking = []),
             su_blockingStepIds := Some blocking\<rparr>) now) (\<lambda>(d', _). Inr d'))
       db (snap_steps snap)) (\<lambda>db'.
     bindR (requireSnapshot db' i) (\<lambda>s. Inr (db', s))))"

definition finalizeRun :: "dag_db \<Rightarrow> snapshot \<Rightarrow> time \<Rightarrow> (dag_db \<times> snapshot) result" where
  "finalizeRun db snap now =
     (let i = rr_id (snap_run snap) in
      bindR (if list_all (\<lambda>s. sr_status s = StepCompleted) (snap_steps snap)
             then bindR (updateRun db i \<lparr>ru_status = Some RunCompleted, ru_failure = JNull,
                 ru_startedAt = None, ru_finishedAt = Some (Some now)\<rparr> now) (\<lambda>(d, _). Inr d)
             else if rr_status (snap_run snap) \<noteq> RunFailed \<and> rr_status (snap_run snap) \<noteq> RunResumable
             then bindR (updateRun db i (no_run_update\<lparr>ru_status := Some RunRunning\<rparr>) now) (\<lambda>(d, _). Inr d)
             else Inr db) (\<lambda>db'.
      bindR (requireSnapshot db' i) (\<lambda>s. Inr (db', s))))"

definition startStep :: "dag_db \<Rightarrow> string \<Rightarrow> string \<Rightarrow> time \<Rightarrow> (dag_db \<times> snapshot) result" where
  "startStep db i sid now =
     bindR (requireSnapshot db i) (\<lambda>snap.
     bindR (requireSnapStep snap sid) (\<lambda>step.
     let attempt = sr_attempt step + 1 in
     bindR (updateRun db i \<lparr>ru_status = Some RunRunning, ru_failure = JUndefined,
         ru_startedAt = Some (Some (or_else (rr_startedAt (snap_run snap)) now)),
         ru_finishedAt = Some None\<rparr> now) (\<lambda>(db1, _).
     bindR (updateStep db1 i sid (no_step_update\<lparr>su_status := Some StepRunning,
         su_attempt := Some attempt, su_ready := Some False, su_startedAt := Some (Some now),
         su_finishedAt := Some None, su_failure := JUndefined\<rparr>) now) (\<lambda>(db2, _).
     bindR (startAttempt db2 i sid attempt now now) (\<lambda>(db3, _).
     bindR (appendEvent db3 (run_event i (Some sid) ''workflow.step.started'' LevelInfo
         (''Workflow step '' @ sid @ '' started.'') (JObj [(''attempt'', JInt (int attempt))]) now) now)
       (\<lambda>(db4, _). recomputeReadiness db4 i now))))))"

definition completeStep :: "dag_db \<Rightarrow> string \<Rightarrow> string \<Rightarrow> js \<Rightarrow> time \<Rightarrow> (dag_db \<times> snapshot) result" where
  "completeStep db i sid output0 now =
     (let output = (if output0 = JUndefined then JObj [] else output0) in
     bindR (requireSnapshot db i) (\<lambda>snap.
     bindR (requireSnapStep snap sid) (\<lambda>step.
     bindR (updateStep db i sid (no_step_update\<lparr>su_status := Some StepCompleted,
         su_ready := Some False, su_finishedAt := Some (Some now), su_output := output\<rparr>) now) (\<lambda>(db1, _).
     bindR (finishAttempt db1 i sid (sr_attempt step) AttemptCompleted now JUndefined output now) (\<lambda>(db2, _).
     bindR (appendEvent db2 (run_event i (Some sid) ''workflow.step.completed'' LevelInfo
         (''Workflow step '' @ sid @ '' completed.'')
         (JObj [(''attempt'', JInt (int (sr_attempt step)))]) now) now) (\<lambda>(db3, _).
     bindR (recomputeReadiness db3 i now) (\<lambda>(db4, s). finalizeRun db4 s now)))))))"

definition failStep :: "dag_db \<Rightarrow> string \<Rightarrow> string \<Rightarrow> js \<Rightarrow> time \<Rightarrow> (dag_db \<times> snapshot) result" where
  "failStep db i sid failure now =
     bindR (requireSnapshot db i) (\<lambda>snap.
     bindR (requireSnapStep snap sid) (\<lambda>step.
     bindR (updateStep db i sid (no_step_update\<lparr>su_status := Some StepFailed,
         su_ready := Some False, su_finishedAt := Some (Some now), su_failure := failure\<rparr>) now) (\<lambda>(db1, _).
     bindR (updateRun db1 i \<lparr>ru_status = Some RunFailed,
         ru_failure = JObj [(''stepId'', JStr sid), (''detail'', failure)],
         ru_startedAt = None, ru_finishedAt = Some (Some now)\<rparr> now) (\<lambda>(db2, _).
     bindR (finishAttempt db2 i sid (sr_attempt step) AttemptFailed now failure JUndefined now) (\<lambda>(db3, _).
     bindR (appendEvent db3 (run_event i (Some sid) ''workflow.step.failed'' LevelError
         (''Workflow step '' @ sid @ '' failed.'')
         (JObj [(''attempt'', JInt (int (sr_attempt step))), (''failure'', failure)]) now) now)
       (\<lambda>(db4, _). recomputeReadiness db4 i now))))))"

definition cancelStep :: "dag_db \<Rightarrow> string \<Rightarrow> string \<Rightarrow> js \<Rightarrow> time \<Rightarrow> (dag_db \<times> snapshot) result" where
  "cancelStep db i sid cancellation now =
     bindR (requireSnapshot db i) (\<lambda>snap.
     bindR (requireSnapStep snap sid) (\<lambda>step.
     if sr_status step = StepCancelled then Inr (db, snap)
     else
     bindR (updateStep db i sid (no_step_update\<lparr>su_status := Some StepCancelled,
         su_ready := Some False, su_finishedAt := Some (Some now), su_failure := cancellation\<rparr>) now) (\<lambda>(db1, _).
     bindR (updateRun db1 i \<lparr>ru_status = Some RunCancelled,
         ru_failure = JObj [(''stepId'', JStr sid), (''detail'', cancellation)],
         ru_startedAt = None, ru_finishedAt = Some (Some now)\<rparr> now) (\<lambda>(db2, _).
     bindR (if sr_attempt step > 0
            then bindR (finishAttempt db2 i sid (sr_attempt step) AttemptCancelled now cancellation JUndefined now)
              (\<lambda>(d, _). Inr d)
            else Inr db2) (\<lambda>db3.
     bindR (appendEvent db3 (run_event i (Some sid) ''workflow.step.cancelled'' LevelWarning
         (''Workflow step '' @ sid @ '' cancelled.'')
         (JObj [(''attempt'', JInt (int (sr_attempt step))), (''cancellation'', cancellation)]) now) now)
       (\<lambda>(db4, _). recomputeReadiness db4 i now))))))"

abbreviation stale_failure :: js where
  "stale_failure \<equiv> JObj [(''code'', JStr ''STALE_RUNNING_STEP''),
     (''message'', JStr ''Recovered stale running step after restart.'')]"

definition recoverStaleStep :: "string \<Rightarrow> time \<Rightarrow> dag_db \<Rightarrow> step_record \<Rightarrow> dag_db result" where
  "recoverStaleStep i now d step =
     bindR (updateStep d i (sr_stepId step) (no_step_update\<lparr>su_status := Some StepFailed,
         su_ready := Some False, su_finishedAt := Some (Some now), su_failure := stale_failure\<rparr>) now) (\<lambda>(d1, _).
     bindR (finishAttempt d1 i (sr_stepId step) (sr_attempt step) AttemptFailed now stale_failure
         JUndefined now) (\<lambda>(d2, _). Inr d2))"

definition recoverStaleRunningSteps :: "dag_db \<Rightarrow> string \<Rightarrow> time \<Rightarrow> (dag_db \<times> snapshot) result" where
  "recoverStaleRunningSteps db i now =
     bindR (requireSnapshot db i) (\<lambda>snap.
     let runningSteps = filter (\<lambda>s. sr_status s = StepRunning) (snap_steps snap);
         ids = JArr (map (\<lambda>s. JStr (sr_stepId s)) runningSteps) in
     if length runningSteps = 0 then Inr (db, snap)
     else
     bindR (foldR (recoverStaleStep i now) db runningSteps) (\<lambda>db1.
     bindR (updateRun db1 i \<lparr>ru_status = Some RunResumable,
         ru_failure = JObj [(''code'', JStr ''STALE_RUNNING_STEPS''), (''stepIds'', ids)],
         ru_startedAt = None, ru_finishedAt = Some (Some now)\<rparr> now) (\<lambda>(db2, _).
     bindR (appendEvent db2 (run_event i None ''workflow.recovered_stale_steps'' LevelWarning
         ''Recovered stale running workflow steps after restart.'' (JObj [(''stepIds'', ids)]) now) now)
       (\<lambda>(db3, _). recomputeReadiness db3 i now))))"

text \<open>
  The breadth-first search of \<open>collectDescendantStepIds\<close>: its queue and visited set over the
  entries of the run's dependency record.
\<close>

function collect_descendants :: "(string \<times> string list) list \<Rightarrow> string list \<Rightarrow> string list \<Rightarrow> string list" where
  "collect_descendants dependencies [] seen = seen"
| "collect_descendants dependencies (sid # queue) seen =
     (if sid = [] \<or> sid \<in> set seen then collect_descendants dependencies queue seen
      else collect_descendants dependencies
        (queue @ map fst (filter (\<lambda>e. sid \<in> set (snd e)) dependencies)) (seen @ [sid]))"
  by pat_completeness auto

termination
proof (relation "inv_image (less_than <*lex*> less_than) (\<lambda>(deps, queue, seen).
    (card (fst ` set deps \<union> set queue - set seen), length queue))", goal_cases)
  case 1
  show ?case by (intro wf_inv_image wf_lex_prod) auto
next
  case (2 deps sid queue seen)
  have "card (fst ` set deps \<union> set queue - set seen) \<le>
      card (fst ` set deps \<union> set (sid # queue) - set seen)"
    by (intro card_mono) auto
  then show ?case by auto
next
  case (3 deps sid queue seen)
  let ?new = "map fst (filter (\<lambda>e. sid \<in> set (snd e)) deps)"
  have "card (fst ` set deps \<union> set (queue @ ?new) - set (seen @ [sid])) <
      card (fst ` set deps \<union> set (sid # queue) - set seen)"
    using 3 by (intro psubset_card_mono) auto
  then show ?case by simp
qed

definition collectDescendantStepIds :: "snapshot \<Rightarrow> string \<Rightarrow> string list" where
  "collectDescendantStepIds snap sid = collect_descendants (rr_dependencies (snap_run snap)) [sid] []"

definition resumeFromFirstFailedStep :: "dag_db \<Rightarrow> string \<Rightarrow> time \<Rightarrow> (dag_db \<times> snapshot) result" where
  "resumeFromFirstFailedStep db i now =
     bindR (requireSnapshot db i) (\<lambda>snap.
     case find (\<lambda>s. sr_status s = StepFailed) (snap_steps snap) of
       None \<Rightarrow> recomputeReadiness db i now
     | Some firstFailedStep \<Rightarrow>
         let affected = collectDescendantStepIds snap (sr_stepId firstFailedStep) in
         bindR (foldR (\<lambda>d step. bindR (updateStep d i (sr_stepId step) (no_step_update\<lparr>
               su_status := Some StepPending, su_ready := Some False, su_finishedAt := Some None,
               su_failure := JNull\<rparr>) now) (\<lambda>(d', _). Inr d'))
             db (filter (\<lambda>s. sr_stepId s \<in> set affected) (snap_steps snap))) (\<lambda>db1.
         bindR (updateRun db1 i \<lparr>ru_status = Some RunPending, ru_failure = JNull,
             ru_startedAt = None, ru_finishedAt = Some None\<rparr> now) (\<lambda>(db2, _).
         bindR (appendEvent db2 (run_event i (Some (sr_stepId firstFailedStep))
             ''workflow.resume.prepared'' LevelInfo
             (''Workflow resume prepared from failed step '' @ sr_stepId firstFailedStep @ ''.'')
             JUndefined now) now)
           (\<lambda>(db3, _). recomputeReadiness db3 i now))))"

text \<open>The requests a run receives, and the operation that serves each.\<close>

datatype dag_op =
    OpStart string
  | OpComplete string js
  | OpFail string js
  | OpCancel string js
  | OpRecover
  | OpResume
  | OpRecompute

fun run_op :: "dag_op \<Rightarrow> dag_db \<Rightarrow> string \<Rightarrow> time \<Rightarrow> (dag_db \<times> snapshot) result" where
  "run_op (OpStart sid) db i now = startStep db i sid now"
| "run_op (OpComplete sid output) db i now = completeStep db i sid output now"
| "run_op (OpFail sid failure) db i now = failStep db i sid failure now"
| "run_op (OpCancel sid c) db i now = cancelStep db i sid c now"
| "run_op OpRecover db i now = recoverStaleRunningSteps db i now"
| "run_op OpResume db i now = resumeFromFirstFailedStep db i now"
| "run_op OpRecompute db i now = recomputeReadiness db i now"

section \<open>How the operations change the maps\<close>

abbreviation rows_of :: "dag_db \<Rightarrow> string \<Rightarrow> step_row list" where
  "rows_of db i \<equiv> filter (\<lambda>s. step_run_id s = i) (db_steps db)"

lemma rows_distinct:
  assumes "wf_db db"
  shows "distinct (map step_step_id (rows_of db i))"
proof -
  have "distinct (map step_key (rows_of db i))"
    using assms by (auto simp: wf_db_def step_keys_def intro: distinct_map_filter)
  then show ?thesis by (auto simp: distinct_map inj_on_def step_key_def)
qed

lemma step_of_row: "wf_db db \<Longrightarrow> s \<in> set (rows_of db i) \<Longrightarrow> step_of db (i, step_step_id s) = Some s"
  using find_key_distinct [of step_key "db_steps db" s]
  by (auto simp: wf_db_def step_keys_def step_of_def step_key_def)

lemma step_of_in_rows: "step_of db (i, sid) = Some s \<Longrightarrow> s \<in> set (rows_of db i) \<and> step_step_id s = sid"
  by (auto dest!: step_of_SomeD simp: step_key_def)

lemma step_of_rows_iff:
  "wf_db db \<Longrightarrow> step_of db (i, sid) = Some s \<longleftrightarrow> s \<in> set (rows_of db i) \<and> step_step_id s = sid"
  using step_of_row [of db s i] step_of_in_rows [of db i sid s] by auto

lemma snapshot_simps [simp]:
  "snap_steps (snapshot_of db r) = map mapWorkflowDagStepRow (rows_of db (run_id r))"
  "snap_run (snapshot_of db r) = mapWorkflowDagRunRow r"
  by (simp_all add: snapshot_of_def listSteps_def)

lemma requireSnapStep_eq:
  assumes "run_of db i = Some r"
  shows "requireSnapStep (snapshot_of db r) sid = (case step_of db (i, sid) of
     None \<Rightarrow> Inl (JsError (''Workflow step not found: '' @ i @ ''/'' @ sid))
   | Some s \<Rightarrow> Inr (mapWorkflowDagStepRow s))"
proof -
  have "run_id r = i" using run_of_SomeD [OF assms] by simp
  then show ?thesis
    using find_listSteps [of sid db i] by (auto simp: requireSnapStep_def snapshot_of_def split: option.splits)
qed

text \<open>A loop of \<open>updateStep\<close> over distinct steps of a run.\<close>

lemma step_of_fold_put:
  assumes "distinct (map f xs)"
  shows "step_of (fold (\<lambda>x. put_step (i, f x) (u x) now) xs db) k =
    (case find (\<lambda>x. (i, f x) = k) xs of
       None \<Rightarrow> step_of db k
     | Some x \<Rightarrow> map_option (\<lambda>s. apply_step_update (u x) now s s) (step_of db k))"
  using assms
proof (induction xs arbitrary: db)
  case (Cons x xs)
  have "find (\<lambda>y. (i, f y) = (i, f x)) xs = None"
    using Cons.prems by (auto simp: find_eq_None image_iff)
  then show ?case using Cons by (auto split: option.splits)
qed simp

lemma fold_put_step_fields:
  "db_runs (fold (\<lambda>x. put_step (i, f x) (u x) now) xs db) = db_runs db"
  "db_attempts (fold (\<lambda>x. put_step (i, f x) (u x) now) xs db) = db_attempts db"
  "db_events (fold (\<lambda>x. put_step (i, f x) (u x) now) xs db) = db_events db"
  "step_keys (fold (\<lambda>x. put_step (i, f x) (u x) now) xs db) = step_keys db"
  "run_of (fold (\<lambda>x. put_step (i, f x) (u x) now) xs db) j = run_of db j"
  "attempt_of (fold (\<lambda>x. put_step (i, f x) (u x) now) xs db) a = attempt_of db a"
  "wf_db (fold (\<lambda>x. put_step (i, f x) (u x) now) xs db) = wf_db db"
  by (induction xs arbitrary: db) auto

lemma foldR_updateStep:
  assumes "\<forall>x \<in> set xs. step_of db (i, f x) \<noteq> None"
  shows "foldR (\<lambda>d x. bindR (updateStep d i (f x) (u x) now) (\<lambda>(d', _). Inr d')) db xs =
    Inr (fold (\<lambda>x. put_step (i, f x) (u x) now) xs db)"
  using assms
proof (induction xs arbitrary: db)
  case (Cons x xs)
  obtain e where e: "step_of db (i, f x) = Some e" using Cons.prems by auto
  have "\<forall>y \<in> set xs. step_of (put_step (i, f x) (u x) now db) (i, f y) \<noteq> None"
    using Cons.prems by (simp add: put_same_domain del: not_None_eq step_of_put_step)
  then show ?case using Cons.IH by (simp add: updateStep_eq [OF e])
qed simp

subsection \<open>Readiness\<close>

definition status_of :: "dag_db \<Rightarrow> string \<Rightarrow> string \<Rightarrow> step_status option" where
  "status_of db i sid = map_option step_status_col (step_of db (i, sid))"

definition blocking_of :: "dag_db \<Rightarrow> string \<Rightarrow> step_row \<Rightarrow> string list" where
  "blocking_of db i s = filter (\<lambda>d. status_of db i d \<noteq> Some StepCompleted) (step_dependencies s)"

text \<open>
  Readiness is right: the blocking ids of a step are its dependencies that are not completed,
  and it is ready exactly when it is pending and nothing blocks it.
\<close>

definition step_ready_ok :: "dag_db \<Rightarrow> string \<Rightarrow> step_row \<Rightarrow> bool" where
  "step_ready_ok db i s \<longleftrightarrow> step_blocking s = blocking_of db i s \<and>
     step_ready s = (if step_status_col s = StepPending \<and> blocking_of db i s = [] then 1 else 0)"

definition readiness_ok :: "dag_db \<Rightarrow> string \<Rightarrow> bool" where
  "readiness_ok db i \<longleftrightarrow> (\<forall>s \<in> set (rows_of db i). step_ready_ok db i s)"

definition ready_update :: "dag_db \<Rightarrow> string \<Rightarrow> step_row \<Rightarrow> step_update" where
  "ready_update db i s = no_step_update\<lparr>
     su_ready := Some (step_status_col s = StepPending \<and> blocking_of db i s = []),
     su_blockingStepIds := Some (blocking_of db i s)\<rparr>"

lemma blocking_in_rows:
  "blocking_in (map mapWorkflowDagStepRow (rows_of db i)) (mapWorkflowDagStepRow s) = blocking_of db i s"
proof -
  have "find (\<lambda>s. sr_stepId s = d) (map mapWorkflowDagStepRow (rows_of db i)) =
      map_option mapWorkflowDagStepRow (step_of db (i, d))" for d
    using find_listSteps [of d db i] by (simp add: listSteps_def)
  then show ?thesis
    unfolding blocking_in_def blocking_of_def
    by (auto simp: status_of_def split: option.splits intro!: filter_cong)
qed

definition refreshed :: "dag_db \<Rightarrow> string \<Rightarrow> time \<Rightarrow> dag_db" where
  "refreshed db i now = fold (\<lambda>s. put_step (i, step_step_id s) (ready_update db i s) now) (rows_of db i) db"

lemma foldR_map: "foldR f d (map g xs) = foldR (\<lambda>d x. f d (g x)) d xs"
  by (induction xs arbitrary: d) (auto simp: bindR_def split: sum.splits)

lemma refreshed_fields [simp]:
  "db_runs (refreshed db i now) = db_runs db"
  "db_attempts (refreshed db i now) = db_attempts db"
  "db_events (refreshed db i now) = db_events db"
  "step_keys (refreshed db i now) = step_keys db"
  "run_of (refreshed db i now) j = run_of db j"
  "attempt_of (refreshed db i now) a = attempt_of db a"
  "wf_db (refreshed db i now) = wf_db db"
  by (simp_all add: refreshed_def fold_put_step_fields)

lemma recomputeReadiness_eq:
  assumes wf: "wf_db db" and r: "run_of db i = Some r"
  shows "recomputeReadiness db i now = Inr (refreshed db i now, snapshot_of (refreshed db i now) r)"
proof -
  have i: "run_id r = i" using run_of_SomeD [OF r] by simp
  have "\<forall>s \<in> set (rows_of db i). step_of db (i, step_step_id s) \<noteq> None"
    using step_of_row [OF wf, of _ i] by simp
  note loop = foldR_updateStep [OF this, of "ready_update db i" now]
  show ?thesis
    using loop by (simp add: recomputeReadiness_def requireSnapshot_eq r i foldR_map blocking_in_rows
        Let_def ready_update_def refreshed_def fold_put_step_fields)
qed

lemma recomputeReadiness_missing:
  "run_of db i = None \<Longrightarrow>
   recomputeReadiness db i now = Inl (JsError (''Workflow DAG run not found: '' @ i))"
  by (simp add: recomputeReadiness_def requireSnapshot_eq)

lemma step_of_refreshed:
  assumes wf: "wf_db db"
  shows "step_of (refreshed db i now) (j, sid) =
    (if j = i then map_option (\<lambda>s. apply_step_update (ready_update db i s) now s s) (step_of db (i, sid))
     else step_of db (j, sid))"
proof -
  have fold: "step_of (refreshed db i now) (j, sid) =
      (case find (\<lambda>s. (i, step_step_id s) = (j, sid)) (rows_of db i) of
         None \<Rightarrow> step_of db (j, sid)
       | Some x \<Rightarrow> map_option (\<lambda>s. apply_step_update (ready_update db i x) now s s) (step_of db (j, sid)))"
    using step_of_fold_put [OF rows_distinct [OF wf]] by (simp add: refreshed_def)
  have "find (\<lambda>s. (i, step_step_id s) = (j, sid)) (rows_of db i) = (if j = i then step_of db (i, sid) else None)"
    by (auto simp: find_filter_conj step_of_def step_key_def find_eq_None)
  then show ?thesis unfolding fold by (auto split: option.splits)
qed

lemma ready_update_simps [simp]:
  "su_status (ready_update db i s) = None"
  "su_attempt (ready_update db i s) = None"
  "su_ready (ready_update db i s) = Some (step_status_col s = StepPending \<and> blocking_of db i s = [])"
  "su_blockingStepIds (ready_update db i s) = Some (blocking_of db i s)"
  by (simp_all add: ready_update_def)

lemma status_of_refreshed [simp]:
  "wf_db db \<Longrightarrow> status_of (refreshed db i now) j sid = status_of db j sid"
  by (auto simp: status_of_def step_of_refreshed map_option_case split: option.splits)

lemma readiness_ok_iff:
  "wf_db db \<Longrightarrow> readiness_ok db i \<longleftrightarrow> (\<forall>sid s. step_of db (i, sid) = Some s \<longrightarrow> step_ready_ok db i s)"
  by (auto simp: readiness_ok_def step_of_rows_iff)

lemma readiness_ok_refreshed:
  assumes wf: "wf_db db"
  shows "readiness_ok (refreshed db i now) i"
proof -
  have "blocking_of (refreshed db i now) i s = blocking_of db i s" for s
    using wf by (simp add: blocking_of_def)
  then show ?thesis
    using wf by (auto simp: readiness_ok_iff step_of_refreshed step_ready_ok_def blocking_of_def)
qed

subsection \<open>What an operation may touch\<close>

text \<open>\<open>only_run db i db'\<close>: from \<open>db\<close> to \<open>db'\<close> no key changed, and no row of another run did.\<close>

definition only_run :: "dag_db \<Rightarrow> string \<Rightarrow> dag_db \<Rightarrow> bool" where
  "only_run db i db' \<longleftrightarrow> step_keys db' = step_keys db \<and>
     map run_id (db_runs db') = map run_id (db_runs db) \<and>
     (\<forall>j. j \<noteq> i \<longrightarrow> run_of db' j = run_of db j \<and> (\<forall>sid. step_of db' (j, sid) = step_of db (j, sid)) \<and>
       (\<forall>a. attempt_of db' (j, a) = attempt_of db (j, a)))"

lemma only_run_refl [simp, intro]: "only_run db i db"
  by (simp add: only_run_def)

lemma only_run_trans: "only_run db i db1 \<Longrightarrow> only_run db1 i db2 \<Longrightarrow> only_run db i db2"
  by (auto simp: only_run_def)

lemma only_run_put_run [intro]: "only_run db i db1 \<Longrightarrow> only_run db i (put_run i u now db1)"
  by (auto simp: only_run_def)

lemma only_run_put_step [intro]: "only_run db i db1 \<Longrightarrow> only_run db i (put_step (i, sid) u now db1)"
  by (auto simp: only_run_def)

lemma only_run_put_attempt [intro]:
  "only_run db i db1 \<Longrightarrow> att_run_id row = i \<Longrightarrow> only_run db i (put_attempt row db1)"
  by (auto simp: only_run_def attempt_key_def)

lemma only_run_end_attempt [intro]:
  "only_run db i db1 \<Longrightarrow> only_run db i (end_attempt (i, a) st fa f ou now db1)"
  by (auto simp: only_run_def)

lemma only_run_put_event [intro]: "only_run db i db1 \<Longrightarrow> only_run db i (put_event e db1)"
  by (auto simp: only_run_def)

lemma only_run_fold_put:
  "only_run db i db1 \<Longrightarrow> only_run db i (fold (\<lambda>x. put_step (i, f x) (u x) now) xs db1)"
  by (induction xs arbitrary: db1) auto

lemma only_run_refreshed [intro]: "only_run db i db1 \<Longrightarrow> only_run db i (refreshed db1 i now)"
  by (simp add: refreshed_def only_run_fold_put)

section \<open>The abstract machine\<close>

text \<open>
  A run as its callers see it: run status, status and attempt count of each step, status of each
  attempt. The step order and the dependencies never change.
\<close>

record dag_state =
  ds_status :: run_status
  ds_step :: "string \<Rightarrow> (step_status \<times> nat) option"
  ds_attempt :: "string \<times> nat \<Rightarrow> attempt_status option"
  ds_order :: "string list"
  ds_deps :: "string \<Rightarrow> string list"
  ds_edges :: "(string \<times> string list) list"
  ds_plan :: "string list"

definition abs_dag :: "dag_db \<Rightarrow> string \<Rightarrow> dag_state" where
  "abs_dag db i = \<lparr>
     ds_status = (case run_of db i of Some r \<Rightarrow> run_status_col r | None \<Rightarrow> RunPending),
     ds_step = (\<lambda>sid. map_option (\<lambda>s. (step_status_col s, step_attempt s)) (step_of db (i, sid))),
     ds_attempt = (\<lambda>(sid, n). map_option att_status (attempt_of db (i, sid, n))),
     ds_order = map step_step_id (rows_of db i),
     ds_deps = (\<lambda>sid. case step_of db (i, sid) of Some s \<Rightarrow> step_dependencies s | None \<Rightarrow> []),
     ds_edges = (case run_of db i of Some r \<Rightarrow> run_dependencies r | None \<Rightarrow> []),
     ds_plan = (case run_of db i of Some r \<Rightarrow> run_step_order r | None \<Rightarrow> [])\<rparr>"

text \<open>\<open>dependents_rel\<close> leads from an id to the ids that depend on it; empty ids are ignored.\<close>

definition dependents_rel :: "(string \<times> string list) list \<Rightarrow> (string \<times> string) set" where
  "dependents_rel deps = {(d, x). d \<noteq> [] \<and> x \<noteq> [] \<and> (\<exists>ds. (x, ds) \<in> set deps \<and> d \<in> set ds)}"

definition descendants :: "(string \<times> string list) list \<Rightarrow> string \<Rightarrow> string set" where
  "descendants deps f = {x. f \<noteq> [] \<and> (f, x) \<in> (dependents_rel deps)\<^sup>*}"

definition step_is :: "dag_state \<Rightarrow> step_status \<Rightarrow> string \<Rightarrow> bool" where
  "step_is st status sid \<longleftrightarrow> map_option fst (ds_step st sid) = Some status"

definition set_step :: "string \<Rightarrow> step_status \<Rightarrow> nat \<Rightarrow> dag_state \<Rightarrow> dag_state" where
  "set_step sid status n st = st\<lparr>ds_step := (ds_step st)(sid \<mapsto> (status, n))\<rparr>"

definition set_attempt :: "string \<Rightarrow> nat \<Rightarrow> attempt_status \<Rightarrow> dag_state \<Rightarrow> dag_state" where
  "set_attempt sid n status st = st\<lparr>ds_attempt := (ds_attempt st)((sid, n) \<mapsto> status)\<rparr>"

definition finalize_spec :: "dag_state \<Rightarrow> dag_state" where
  "finalize_spec st = st\<lparr>ds_status :=
     (if list_all (step_is st StepCompleted) (ds_order st) then RunCompleted
      else if ds_status st = RunFailed \<or> ds_status st = RunResumable then ds_status st
      else RunRunning)\<rparr>"

definition recover_spec :: "dag_state \<Rightarrow> dag_state" where
  "recover_spec st = (if list_ex (step_is st StepRunning) (ds_order st)
     then st\<lparr>ds_status := RunResumable,
       ds_step := (\<lambda>sid. if step_is st StepRunning sid
          then map_option (\<lambda>(_, n). (StepFailed, n)) (ds_step st sid) else ds_step st sid),
       ds_attempt := (\<lambda>(sid, n). if ds_step st sid = Some (StepRunning, n)
          then Some AttemptFailed else ds_attempt st (sid, n))\<rparr>
     else st)"

definition resume_spec :: "dag_state \<Rightarrow> dag_state" where
  "resume_spec st = (case find (step_is st StepFailed) (ds_order st) of
     None \<Rightarrow> st
   | Some f \<Rightarrow> st\<lparr>ds_status := RunPending,
       ds_step := (\<lambda>sid. if sid \<in> descendants (ds_edges st) f
          then map_option (\<lambda>(_, n). (StepPending, n)) (ds_step st sid) else ds_step st sid)\<rparr>)"

fun op_spec :: "dag_op \<Rightarrow> dag_state \<Rightarrow> dag_state" where
  "op_spec (OpStart sid) st = (case ds_step st sid of None \<Rightarrow> st
   | Some (_, n) \<Rightarrow> set_attempt sid (Suc n) AttemptRunning
       (set_step sid StepRunning (Suc n) (st\<lparr>ds_status := RunRunning\<rparr>)))"
| "op_spec (OpComplete sid _) st = (case ds_step st sid of None \<Rightarrow> st
   | Some (_, n) \<Rightarrow> finalize_spec (set_attempt sid n AttemptCompleted (set_step sid StepCompleted n st)))"
| "op_spec (OpFail sid _) st = (case ds_step st sid of None \<Rightarrow> st
   | Some (_, n) \<Rightarrow> set_attempt sid n AttemptFailed
       (set_step sid StepFailed n (st\<lparr>ds_status := RunFailed\<rparr>)))"
| "op_spec (OpCancel sid _) st = (case ds_step st sid of None \<Rightarrow> st
   | Some (status, n) \<Rightarrow>
       if status = StepCancelled then st
       else (if n > 0 then set_attempt sid n AttemptCancelled else id)
         (set_step sid StepCancelled n (st\<lparr>ds_status := RunCancelled\<rparr>)))"
| "op_spec OpRecover st = recover_spec st"
| "op_spec OpResume st = resume_spec st"
| "op_spec OpRecompute st = st"

fun op_step :: "dag_op \<Rightarrow> string option" where
  "op_step (OpStart sid) = Some sid"
| "op_step (OpComplete sid _) = Some sid"
| "op_step (OpFail sid _) = Some sid"
| "op_step (OpCancel sid _) = Some sid"
| "op_step _ = None"

text \<open>What serving an operation amounts to.\<close>

definition served :: "dag_db \<Rightarrow> string \<Rightarrow> dag_state \<Rightarrow> dag_db \<Rightarrow> bool" where
  "served db i st db' \<longleftrightarrow> wf_db db' \<and> run_of db' i \<noteq> None \<and> abs_dag db' i = st \<and> only_run db i db'"

lemma rows_ids: "map step_step_id (rows_of db i) = map snd (filter (\<lambda>k. fst k = i) (step_keys db))"
  by (simp add: step_keys_def filter_map o_def step_key_def)

lemma abs_dag_refreshed [simp]: "wf_db db \<Longrightarrow> abs_dag (refreshed db i now) j = abs_dag db j"
  by (auto simp: abs_dag_def rows_ids step_of_refreshed fun_eq_iff map_option_case split: option.splits)

lemma served_refreshed:
  assumes "served db i st db1"
  shows "served db i st (refreshed db1 i now) \<and> readiness_ok (refreshed db1 i now) i"
  using assms by (auto simp: served_def readiness_ok_refreshed)

text \<open>An operation that ends by recomputing readiness.\<close>

lemma serve_recompute:
  assumes "served db i st db1" "m = recomputeReadiness db1 i now"
  shows "\<exists>db'. m = Inr (db', the (getSnapshot db' i)) \<and> served db i st db' \<and> readiness_ok db' i"
proof -
  obtain r where r: "run_of db1 i = Some r" using assms(1) by (auto simp: served_def)
  have "snapshot_of (refreshed db1 i now) r = the (getSnapshot (refreshed db1 i now) i)"
    using r by (auto simp: getSnapshot_def get_run_eq snapshot_of_def dest: run_of_SomeD)
  then show ?thesis
    using recomputeReadiness_eq [of db1 i r now] served_refreshed [OF assms(1), of now] r assms
    by (auto simp: served_def)
qed

section \<open>Each operation refines its specification\<close>

lemma abs_dag_put_run [simp]:
  "abs_dag (put_run i u now db) i =
     (case run_of db i of None \<Rightarrow> abs_dag db i
      | Some r \<Rightarrow> (abs_dag db i)\<lparr>ds_status := or_else (ru_status u) (run_status_col r)\<rparr>)"
  by (auto simp: abs_dag_def rows_ids split: option.splits)

lemma abs_dag_put_step [simp]:
  "abs_dag (put_step (i, sid) u now db) i =
     (case step_of db (i, sid) of None \<Rightarrow> abs_dag db i
      | Some s \<Rightarrow> set_step sid (or_else (su_status u) (step_status_col s))
          (or_else (su_attempt u) (step_attempt s)) (abs_dag db i))"
  by (auto simp: abs_dag_def rows_ids set_step_def fun_eq_iff split: option.splits)

lemma abs_dag_put_attempt [simp]:
  "abs_dag (put_attempt \<lparr>att_run_id = i, att_step_id = sid, att_attempt = n, att_status = st,
       att_started_at = sa, att_finished_at = fa, att_failure_json = f, att_output_json = ou,
       att_updated_at = u\<rparr> db) i = set_attempt sid n st (abs_dag db i)"
  by (auto simp: abs_dag_def rows_ids set_attempt_def fun_eq_iff split: option.splits)

lemma abs_dag_end_attempt [simp]:
  "abs_dag (end_attempt (i, sid, n) st fa f ou now db) i = set_attempt sid n st (abs_dag db i)"
  by (auto simp: abs_dag_def rows_ids set_attempt_def fun_eq_iff split: option.splits)

lemma abs_dag_put_event [simp]: "abs_dag (put_event e db) j = abs_dag db j"
  by (auto simp: abs_dag_def rows_ids split: option.splits)

lemma readiness_put_run [simp]: "readiness_ok (put_run i u now db) j = readiness_ok db j"
  by (simp add: readiness_ok_def step_ready_ok_def blocking_of_def status_of_def)

lemma abs_dag_step: "ds_step (abs_dag db i) sid = map_option (\<lambda>s. (step_status_col s, step_attempt s)) (step_of db (i, sid))"
  by (simp add: abs_dag_def)

lemma abs_dag_status: "run_of db i = Some r \<Longrightarrow> ds_status (abs_dag db i) = run_status_col r"
  by (simp add: abs_dag_def)

lemma run_event_simps [simp]:
  "ei_runId (run_event i sid ty lv m p ts) = i"
  "ei_id (run_event i sid ty lv m p ts) = None"
  by (simp_all add: run_event_def)

lemma set_commute [simp]:
  "(set_step sid s n st)\<lparr>ds_status := x\<rparr> = set_step sid s n (st\<lparr>ds_status := x\<rparr>)"
  "(set_attempt sid n a st)\<lparr>ds_status := x\<rparr> = set_attempt sid n a (st\<lparr>ds_status := x\<rparr>)"
  "ds_status (set_step sid s n st) = ds_status st"
  "ds_status (set_attempt sid n a st) = ds_status st"
  by (simp_all add: set_step_def set_attempt_def)

definition serves :: "(dag_db \<times> snapshot) result \<Rightarrow> dag_db \<Rightarrow> string \<Rightarrow> dag_state \<Rightarrow> bool" where
  "serves m db i st \<longleftrightarrow> (\<exists>db'. m = Inr (db', the (getSnapshot db' i)) \<and> served db i st db' \<and>
     (readiness_ok db i \<longrightarrow> readiness_ok db' i))"

lemma serves_recompute: "served db i st db1 \<Longrightarrow> serves (recomputeReadiness db1 i now) db i st"
  using serve_recompute unfolding serves_def by blast

text \<open>
  One rule per repository call: the call succeeds, changes the abstract state as stated, and
  hands over to the rest of the operation.
\<close>

named_theorems seq \<open>rules that step an operation through one repository call\<close>

lemma served_init: "wf_db db \<Longrightarrow> run_of db i = Some r \<Longrightarrow> served db i (abs_dag db i) db"
  by (simp add: served_def)

lemma served_step: "served db i st d \<Longrightarrow> ds_step st sid = map_option (\<lambda>s. (step_status_col s, step_attempt s)) (step_of d (i, sid))"
  by (auto simp: served_def abs_dag_step)

lemma seq_updateRun [seq]:
  assumes d: "served db i st d"
    and k: "\<And>d'. served db i (st\<lparr>ds_status := or_else (ru_status u) (ds_status st)\<rparr>) d' \<Longrightarrow> serves (k d') db i st'"
  shows "serves (bindR (updateRun d i u now) (\<lambda>(d', _). k d')) db i st'"
proof -
  obtain r where r: "run_of d i = Some r" using d by (auto simp: served_def)
  have "served db i (st\<lparr>ds_status := or_else (ru_status u) (ds_status st)\<rparr>) (put_run i u now d)"
    using d r by (auto simp: served_def abs_dag_status)
  then show ?thesis using k by (simp add: updateRun_eq [OF r])
qed

lemma seq_updateStep [seq]:
  assumes d: "served db i st d" and x: "ds_step st sid = Some (x, n)"
    and k: "\<And>d'. served db i (set_step sid (or_else (su_status u) x) (or_else (su_attempt u) n) st) d' \<Longrightarrow>
      serves (k d') db i st'"
  shows "serves (bindR (updateStep d i sid u now) (\<lambda>(d', _). k d')) db i st'"
proof -
  obtain s where s: "step_of d (i, sid) = Some s" "step_status_col s = x" "step_attempt s = n"
    using x served_step [OF d, of sid] by auto
  have "served db i (set_step sid (or_else (su_status u) x) (or_else (su_attempt u) n) st)
      (put_step (i, sid) u now d)"
    using d s by (auto simp: served_def)
  then show ?thesis using k by (simp add: updateStep_eq [OF s(1)])
qed

lemma seq_startAttempt [seq]:
  assumes d: "served db i st d" and x: "ds_step st sid = Some (x, m)"
    and k: "\<And>d'. served db i (set_attempt sid n AttemptRunning st) d' \<Longrightarrow> serves (k d') db i st'"
  shows "serves (bindR (startAttempt d i sid n sa now) (\<lambda>(d', _). k d')) db i st'"
proof -
  let ?row = "\<lparr>att_run_id = i, att_step_id = sid, att_attempt = n, att_status = AttemptRunning,
     att_started_at = sa, att_finished_at = None, att_failure_json = None, att_output_json = None,
     att_updated_at = now\<rparr>"
  have wf: "wf_db d" "step_of d (i, sid) \<noteq> None"
    using d x served_step [OF d, of sid] by (auto simp: served_def)
  obtain a where a: "startAttempt d i sid n sa now = Inr (put_attempt ?row d, a)"
    using startAttempt_eq [OF wf] by blast
  have "wf_db (put_attempt ?row d)" using wf by (intro wf_db_put_attempt) simp_all
  then have "served db i (set_attempt sid n AttemptRunning st) (put_attempt ?row d)"
    using d only_run_put_attempt [of db i d ?row] by (auto simp: served_def)
  then show ?thesis using k by (simp add: a)
qed

lemma seq_finishAttempt [seq]:
  assumes d: "served db i st d" and x: "ds_step st sid = Some (x, m)"
    and k: "\<And>d'. served db i (set_attempt sid n ast st) d' \<Longrightarrow> serves (k d') db i st'"
  shows "serves (bindR (finishAttempt d i sid n ast fa f ou now) (\<lambda>(d', _). k d')) db i st'"
proof -
  have wf: "wf_db d" "step_of d (i, sid) \<noteq> None"
    using d x served_step [OF d, of sid] by (auto simp: served_def)
  obtain a where a: "finishAttempt d i sid n ast fa f ou now = Inr (end_attempt (i, sid, n) ast fa f ou now d, a)"
    using finishAttempt_eq [OF wf] by blast
  have "served db i (set_attempt sid n ast st) (end_attempt (i, sid, n) ast fa f ou now d)"
    using d wf wf_db_end_attempt [OF wf(1), of "(i, sid, n)"] by (auto simp: served_def)
  then show ?thesis using k by (simp add: a)
qed

lemma seq_appendEvent [seq]:
  assumes d: "served db i st d" and k: "\<And>d'. served db i st d' \<Longrightarrow> serves (k d') db i st'"
  shows "serves (bindR (appendEvent d (run_event i sid ty lv m p ts) now) (\<lambda>(d', _). k d')) db i st'"
proof -
  have wf: "wf_db d" "run_of d (ei_runId (run_event i sid ty lv m p ts)) \<noteq> None"
    using d by (simp_all add: served_def)
  obtain e where e: "appendEvent d (run_event i sid ty lv m p ts) now = Inr (put_event e d, e)"
      "er_id e = randomUuid d" "er_runId e = i"
    using appendEvent_eq [OF wf] by auto
  have "served db i st (put_event e d)"
    using d wf_db_put_event [of d e] e by (auto simp: served_def)
  then show ?thesis using k by (simp add: e(1))
qed

lemma seq_recompute [seq]:
  assumes d: "served db i st d"
    and k: "\<And>d'. served db i st d' \<Longrightarrow> readiness_ok d' i \<Longrightarrow>
      serves (k d' (the (getSnapshot d' i))) db i st'"
  shows "serves (bindR (recomputeReadiness d i now) (\<lambda>(d', s). k d' s)) db i st'"
proof -
  obtain d' where d': "recomputeReadiness d i now = Inr (d', the (getSnapshot d' i))"
      "served db i st d'" "readiness_ok d' i"
    using serve_recompute [OF d refl] by blast
  then show ?thesis using k by simp
qed

lemma enter_op:
  assumes "run_of db i = Some r"
  shows "bindR (requireSnapshot db i) k = k (snapshot_of db r)"
    and "step_of db (i, sid) = Some s \<Longrightarrow>
      bindR (requireSnapStep (snapshot_of db r) sid) k' = k' (mapWorkflowDagStepRow s)"
    and "the (getSnapshot db i) = snapshot_of db r"
  using requireSnapStep_eq [OF assms] assms run_of_SomeD [OF assms]
  by (auto simp: requireSnapshot_eq getSnapshot_def get_run_eq snapshot_of_def)

lemma startStep_serves:
  assumes wf: "wf_db db" and r: "run_of db i = Some r" and s: "step_of db (i, sid) = Some s"
  shows "serves (startStep db i sid now) db i (op_spec (OpStart sid) (abs_dag db i))"
  unfolding startStep_def enter_op(1) [OF r] enter_op(2) [OF r s] Let_def
  apply (rule seq_updateRun, rule served_init [OF wf r])
  apply (rule seq_updateStep, assumption)
   apply (simp add: abs_dag_step s)
  apply (rule seq_startAttempt, assumption)
   apply (simp add: set_step_def)
  apply (rule seq_appendEvent, assumption)
  apply (rule serves_recompute)
  apply (simp add: abs_dag_step s)
  done

lemma step_is_row:
  "wf_db db \<Longrightarrow> s \<in> set (rows_of db i) \<Longrightarrow>
     step_is (abs_dag db i) x (step_step_id s) \<longleftrightarrow> step_status_col s = x"
  using step_of_row [of db s i] by (simp add: step_is_def abs_dag_step)

lemma step_is_set [simp]:
  "step_is (st\<lparr>ds_status := x\<rparr>) = step_is st"
  "step_is (set_attempt sid n a st) = step_is st"
  by (simp_all add: step_is_def set_attempt_def fun_eq_iff)

lemma finalize_serves:
  assumes d: "served db i st d" and ok: "readiness_ok d i"
  shows "serves (finalizeRun d (the (getSnapshot d i)) now) db i (finalize_spec st)"
proof -
  obtain r where r: "run_of d i = Some r" using d by (auto simp: served_def)
  have i: "run_id r = i" using run_of_SomeD [OF r] by simp
  have st: "st = abs_dag d i" and wf: "wf_db d" using d by (auto simp: served_def)
  have all: "list_all (\<lambda>s. sr_status s = StepCompleted) (snap_steps (snapshot_of d r)) \<longleftrightarrow>
      list_all (step_is st StepCompleted) (ds_order st)"
    using step_is_row [OF wf, of _ i] by (auto simp: st i list_all_iff abs_dag_def)
  have served_if: "serves (bindR (requireSnapshot d' i) (\<lambda>s. Inr (d', s))) db i st'"
    if "served db i st' d'" "readiness_ok d' i" for d' st'
  proof -
    obtain r' where "run_of d' i = Some r'" using \<open>served db i st' d'\<close> by (auto simp: served_def)
    then show ?thesis using that by (simp add: serves_def enter_op(1) enter_op(3))
  qed
  have upd: "serves (bindR (updateRun d i u now) (\<lambda>(d', _). bindR (requireSnapshot d' i) (\<lambda>s. Inr (d', s)))) db i
      (st\<lparr>ds_status := or_else (ru_status u) (run_status_col r)\<rparr>)" for u
    using d r ok by (auto simp: updateRun_eq [OF r] served_def abs_dag_status intro!: served_if)
  have assoc: "bindR (bindR m (\<lambda>(d, _). Inr d)) k = bindR m (\<lambda>(d, _). k d)"
    for m :: "(dag_db \<times> run_record) result" and k :: "dag_db \<Rightarrow> (dag_db \<times> snapshot) result"
    by (auto simp: bindR_def split: sum.splits)
  show ?thesis
    using upd [of "\<lparr>ru_status = Some RunCompleted, ru_failure = JNull, ru_startedAt = None, ru_finishedAt = Some (Some now)\<rparr>"]
      upd [of "no_run_update\<lparr>ru_status := Some RunRunning\<rparr>"] served_if [OF d ok]
    by (simp add: finalizeRun_def finalize_spec_def enter_op(3) [OF r] i all [unfolded snapshot_simps i] assoc Let_def)
      (simp add: st abs_dag_status [OF r])
qed

lemma completeStep_serves:
  assumes wf: "wf_db db" and r: "run_of db i = Some r" and s: "step_of db (i, sid) = Some s"
  shows "serves (completeStep db i sid output now) db i (op_spec (OpComplete sid output) (abs_dag db i))"
  unfolding completeStep_def enter_op(1) [OF r] enter_op(2) [OF r s] Let_def
  apply (rule seq_updateStep, rule served_init [OF wf r])
   apply (simp add: abs_dag_step s)
  apply (rule seq_finishAttempt, assumption)
   apply (simp add: set_step_def)
  apply (rule seq_appendEvent, assumption)
  apply (rule seq_recompute, assumption)
  apply (simp add: abs_dag_step s finalize_serves)
  done

lemma failStep_serves:
  assumes wf: "wf_db db" and r: "run_of db i = Some r" and s: "step_of db (i, sid) = Some s"
  shows "serves (failStep db i sid failure now) db i (op_spec (OpFail sid failure) (abs_dag db i))"
  unfolding failStep_def enter_op(1) [OF r] enter_op(2) [OF r s] Let_def
  apply (rule seq_updateStep, rule served_init [OF wf r])
   apply (simp add: abs_dag_step s)
  apply (rule seq_updateRun, assumption)
  apply (rule seq_finishAttempt, assumption)
   apply (simp add: set_step_def)
  apply (rule seq_appendEvent, assumption)
  apply (rule serves_recompute)
  apply (simp add: abs_dag_step s)
  done

lemma serves_refl:
  assumes "wf_db db" "run_of db i = Some r"
  shows "serves (Inr (db, snapshot_of db r)) db i (abs_dag db i)"
  using assms by (simp add: serves_def enter_op(3) served_init)

lemma cancelStep_serves:
  assumes wf: "wf_db db" and r: "run_of db i = Some r" and s: "step_of db (i, sid) = Some s"
  shows "serves (cancelStep db i sid c now) db i (op_spec (OpCancel sid c) (abs_dag db i))"
proof (cases "step_status_col s = StepCancelled")
  case True
  then show ?thesis
    unfolding cancelStep_def enter_op(1) [OF r] enter_op(2) [OF r s]
    using serves_refl [OF wf r] by (simp add: abs_dag_step s)
next
  case False
  have attempt: "serves (bindR (if step_attempt s > 0
         then bindR (finishAttempt d i sid (step_attempt s) AttemptCancelled now c JUndefined now) (\<lambda>(d, _). Inr d)
         else Inr d) k) db i st'"
    if "served db i st d" "ds_step st sid = Some (x, m)"
      "\<And>d'. served db i ((if step_attempt s > 0 then set_attempt sid (step_attempt s) AttemptCancelled else id) st) d'
        \<Longrightarrow> serves (k d') db i st'"
    for st d k st' x m
  proof (cases "step_attempt s > 0")
    case True
    have "serves (bindR (finishAttempt d i sid (step_attempt s) AttemptCancelled now c JUndefined now)
        (\<lambda>(d', _). k d')) db i st'"
      using that True by (intro seq_finishAttempt [OF that(1,2)]) simp
    then show ?thesis using True by (auto simp: bindR_def split: sum.splits)
  qed (use that in simp)
  show ?thesis
    unfolding cancelStep_def enter_op(1) [OF r] enter_op(2) [OF r s]
    apply (simp only: record_of_row False if_False)
    apply (rule seq_updateStep, rule served_init [OF wf r])
     apply (simp add: abs_dag_step s)
    apply (rule seq_updateRun, assumption)
    apply (rule attempt, assumption)
     apply (simp add: set_step_def)
    apply (rule seq_appendEvent, assumption)
    apply (rule serves_recompute)
    apply (simp add: abs_dag_step s False)
    done
qed

lemma recompute_serves:
  assumes wf: "wf_db db" and r: "run_of db i = Some r"
  shows "serves (recomputeReadiness db i now) db i (op_spec OpRecompute (abs_dag db i))"
  using serves_recompute [OF served_init [OF wf r]] by simp

subsection \<open>Recovering running steps\<close>

abbreviation fail_step :: "step_record \<Rightarrow> dag_state \<Rightarrow> dag_state" where
  "fail_step x st \<equiv> set_attempt (sr_stepId x) (sr_attempt x) AttemptFailed
     (set_step (sr_stepId x) StepFailed (sr_attempt x) st)"

lemma recoverStaleStep_served:
  assumes d: "served db i st d" and x: "ds_step st (sr_stepId x) = Some (y, sr_attempt x)"
  shows "\<exists>d'. recoverStaleStep i now d x = Inr d' \<and> served db i (fail_step x st) d'"
proof -
  obtain s where s: "step_of d (i, sr_stepId x) = Some s" "step_attempt s = sr_attempt x"
    using x served_step [OF d, of "sr_stepId x"] by auto
  let ?u = "no_step_update\<lparr>su_status := Some StepFailed, su_ready := Some False,
      su_finishedAt := Some (Some now), su_failure := stale_failure\<rparr>"
  let ?d1 = "put_step (i, sr_stepId x) ?u now d"
  have wf1: "wf_db ?d1" "step_of ?d1 (i, sr_stepId x) \<noteq> None" using d s by (auto simp: served_def)
  obtain a where a: "finishAttempt ?d1 i (sr_stepId x) (sr_attempt x) AttemptFailed now stale_failure JUndefined now
      = Inr (end_attempt (i, sr_stepId x, sr_attempt x) AttemptFailed now stale_failure JUndefined now ?d1, a)"
    using finishAttempt_eq [OF wf1] by blast
  have "served db i (fail_step x st)
      (end_attempt (i, sr_stepId x, sr_attempt x) AttemptFailed now stale_failure JUndefined now ?d1)"
    using d s wf1 wf_db_end_attempt [OF wf1(1), of "(i, sr_stepId x, sr_attempt x)"]
    by (auto simp: served_def)
  then show ?thesis using a by (simp add: recoverStaleStep_def updateStep_eq [OF s(1)])
qed

lemma recover_loop_served:
  assumes "served db i st d" "distinct (map sr_stepId xs)"
    and "\<forall>x \<in> set xs. \<exists>y. ds_step st (sr_stepId x) = Some (y, sr_attempt x)"
  shows "\<exists>d'. foldR (recoverStaleStep i now) d xs = Inr d' \<and> served db i (fold fail_step xs st) d'"
  using assms
proof (induction xs arbitrary: st d)
  case (Cons x xs)
  obtain y where y: "ds_step st (sr_stepId x) = Some (y, sr_attempt x)" using Cons.prems by auto
  obtain d1 where d1: "recoverStaleStep i now d x = Inr d1" "served db i (fail_step x st) d1"
    using recoverStaleStep_served [OF Cons.prems(1) y] by blast
  have "\<forall>z \<in> set xs. \<exists>y. ds_step (fail_step x st) (sr_stepId z) = Some (y, sr_attempt z)"
    using Cons.prems by (auto simp: set_attempt_def set_step_def)
  then show ?case using Cons.IH [OF d1(2)] Cons.prems(2) d1(1) by simp
qed auto

lemma fold_fail_step:
  "distinct (map sr_stepId xs) \<Longrightarrow> fold fail_step xs st = st\<lparr>
     ds_step := (\<lambda>sid. case find (\<lambda>x. sr_stepId x = sid) xs of
        Some x \<Rightarrow> Some (StepFailed, sr_attempt x) | None \<Rightarrow> ds_step st sid),
     ds_attempt := (\<lambda>(sid, n). case find (\<lambda>x. sr_stepId x = sid \<and> sr_attempt x = n) xs of
        Some x \<Rightarrow> Some AttemptFailed | None \<Rightarrow> ds_attempt st (sid, n))\<rparr>"
proof (induction xs arbitrary: st)
  case (Cons x xs)
  have "find (\<lambda>y. sr_stepId y = sr_stepId x) xs = None"
    "find (\<lambda>y. sr_stepId y = sr_stepId x \<and> sr_attempt y = n) xs = None" for n
    using Cons.prems by (auto simp: find_eq_None image_iff)
  then show ?case
    using Cons by (auto simp: set_attempt_def set_step_def fun_eq_iff split: option.splits)
qed simp

lemma find_rows:
  assumes "wf_db db"
  shows "find (\<lambda>s. P s \<and> step_step_id s = sid) (rows_of db i) =
    (case step_of db (i, sid) of Some s \<Rightarrow> if P s then Some s else None | None \<Rightarrow> None)"
proof (cases "find (\<lambda>s. P s \<and> step_step_id s = sid) (rows_of db i)")
  case None
  then show ?thesis
    using step_of_in_rows [of db i sid] by (auto simp: find_eq_None split: option.splits)
next
  case (Some s)
  then show ?thesis
    using step_of_row [OF assms, of s i] by (auto dest!: find_SomeD)
qed

lemma recover_serves:
  assumes wf: "wf_db db" and r: "run_of db i = Some r"
  shows "serves (recoverStaleRunningSteps db i now) db i (op_spec OpRecover (abs_dag db i))"
proof -
  have i: "run_id r = i" using run_of_SomeD [OF r] by simp
  let ?st = "abs_dag db i"
  let ?xs = "filter (\<lambda>s. sr_status s = StepRunning) (map mapWorkflowDagStepRow (rows_of db i))"
  have ex: "list_ex (step_is ?st StepRunning) (ds_order ?st) \<longleftrightarrow> ?xs \<noteq> []"
    using step_is_row [OF wf, of _ i] by (auto simp: list_ex_iff filter_empty_conv abs_dag_def)
  have ids: "distinct (map sr_stepId ?xs)"
    using rows_distinct [OF wf] by (intro distinct_map_filter) (simp add: o_def)
  have steps: "\<forall>x \<in> set ?xs. \<exists>y. ds_step ?st (sr_stepId x) = Some (y, sr_attempt x)"
    using step_of_row [OF wf, of _ i] by (auto simp: abs_dag_step)
  have fx: "find (\<lambda>x. Q (sr_attempt x) \<and> sr_stepId x = sid) ?xs =
      (case step_of db (i, sid) of
         Some s \<Rightarrow> if Q (step_attempt s) \<and> step_status_col s = StepRunning then Some (mapWorkflowDagStepRow s) else None
       | None \<Rightarrow> None)" for sid Q
    using find_rows [OF wf, of "\<lambda>s. step_status_col s = StepRunning \<and> Q (step_attempt s)" sid i]
    by (simp add: filter_map o_def find_map_comp find_filter_conj conj_ac split: option.splits)
  have recovered: "fold fail_step ?xs ?st\<lparr>ds_status := RunResumable\<rparr> = recover_spec ?st" if "?xs \<noteq> []"
  proof -
    have "(case find (\<lambda>x. sr_stepId x = sid) ?xs of
          Some x \<Rightarrow> Some (StepFailed, sr_attempt x) | None \<Rightarrow> ds_step ?st sid) =
        (if step_is ?st StepRunning sid
          then map_option (\<lambda>(_, n). (StepFailed, n)) (ds_step ?st sid) else ds_step ?st sid)" for sid
      using fx [of "\<lambda>_. True" sid] by (simp add: step_is_def abs_dag_step split: option.splits)
    moreover have "(case find (\<lambda>x. sr_stepId x = sid \<and> sr_attempt x = n) ?xs of
          Some x \<Rightarrow> Some AttemptFailed | None \<Rightarrow> ds_attempt ?st (sid, n)) =
        (if ds_step ?st sid = Some (StepRunning, n) then Some AttemptFailed else ds_attempt ?st (sid, n))" for sid n
      using fx [of "\<lambda>m. m = n" sid] by (auto simp: conj_commute abs_dag_step split: option.splits)
    ultimately show ?thesis
      using that ex unfolding fold_fail_step [OF ids] recover_spec_def by (simp add: fun_eq_iff)
  qed
  show ?thesis
  proof (cases "?xs = []")
    case True
    then show ?thesis
      using serves_refl [OF wf r] ex
      by (simp add: recoverStaleRunningSteps_def enter_op(1) [OF r] i recover_spec_def)
  next
    case False
    obtain d where d: "foldR (recoverStaleStep i now) db ?xs = Inr d" "served db i (fold fail_step ?xs ?st) d"
      using recover_loop_served [OF served_init [OF wf r] ids steps] by blast
    have "serves (bindR (updateRun d i \<lparr>ru_status = Some RunResumable, ru_failure = f,
         ru_startedAt = None, ru_finishedAt = Some (Some now)\<rparr> now) (\<lambda>(db2, _).
       bindR (appendEvent db2 (run_event i None ty lv m p now) now)
         (\<lambda>(db3, _). recomputeReadiness db3 i now))) db i (recover_spec ?st)" for f ty lv m p
      using recovered [OF False] d(2)
      by (intro seq_updateRun [OF d(2)] seq_appendEvent serves_recompute) simp_all
    then show ?thesis
      using False d(1) by (simp add: recoverStaleRunningSteps_def enter_op(1) [OF r] i Let_def)
  qed
qed

subsection \<open>Resuming from the first failed step\<close>

lemma collect_descendants_mono:
  "set seen \<union> (set queue - {[]}) \<subseteq> set (collect_descendants deps queue seen)"
  by (induction deps queue seen rule: collect_descendants.induct) auto

lemma collect_descendants_closed:
  assumes "\<forall>s \<in> set seen. s \<noteq> [] \<and> dependents_rel deps `` {s} \<subseteq> set seen \<union> set queue"
  shows "s \<in> set (collect_descendants deps queue seen) \<Longrightarrow>
    s \<noteq> [] \<and> dependents_rel deps `` {s} \<subseteq> set (collect_descendants deps queue seen)"
  using assms
proof (induction deps queue seen rule: collect_descendants.induct)
  case (1 deps seen)
  then show ?case by auto
next
  case (2 deps sid queue seen)
  show ?case
  proof (cases "sid = [] \<or> sid \<in> set seen")
    case True
    have "dependents_rel deps `` {s} \<subseteq> set seen \<union> set queue" if "s \<in> set seen" for s
    proof
      fix x assume x: "x \<in> dependents_rel deps `` {s}"
      then have "x \<noteq> []" by (auto simp: dependents_rel_def)
      then show "x \<in> set seen \<union> set queue" using 2(4) that True x by auto
    qed
    then show ?thesis using 2(1,3,4) True by simp
  next
    case False
    let ?new = "map fst (filter (\<lambda>e. sid \<in> set (snd e)) deps)"
    have "dependents_rel deps `` {sid} \<subseteq> set ?new"
      by (force simp: dependents_rel_def)
    then have "\<forall>s \<in> set (seen @ [sid]). s \<noteq> [] \<and>
        dependents_rel deps `` {s} \<subseteq> set (seen @ [sid]) \<union> set (queue @ ?new)"
      using 2(4) False by auto
    then show ?thesis using 2(2,3) False by simp
  qed
qed

lemma collect_descendants_sound:
  "set (collect_descendants deps queue seen) \<subseteq> set seen \<union> (dependents_rel deps)\<^sup>* `` (set queue - {[]})"
proof (induction deps queue seen rule: collect_descendants.induct)
  case (2 deps sid queue seen)
  show ?case
  proof (cases "sid = [] \<or> sid \<in> set seen")
    case True
    then show ?thesis using 2(1) by auto
  next
    case False
    let ?new = "map fst (filter (\<lambda>e. sid \<in> set (snd e)) deps)"
    have "set ?new - {[]} \<subseteq> dependents_rel deps `` {sid}"
      using False by (force simp: dependents_rel_def)
    then have "(dependents_rel deps)\<^sup>* `` (set ?new - {[]}) \<subseteq> (dependents_rel deps)\<^sup>* `` {sid}"
      by (auto intro: converse_rtrancl_into_rtrancl)
    moreover have "(dependents_rel deps)\<^sup>* `` (set (queue @ ?new) - {[]}) =
        (dependents_rel deps)\<^sup>* `` (set queue - {[]}) \<union> (dependents_rel deps)\<^sup>* `` (set ?new - {[]})"
      unfolding set_append by blast
    moreover have "set (sid # queue) - {[]} = insert sid (set queue - {[]})" using False by auto
    ultimately show ?thesis
      using 2(2) False by (simp only: collect_descendants.simps if_False set_append list.set) blast
  qed
qed simp

lemma collect_descendants_correct:
  "set (collect_descendants deps [f] []) = descendants deps f"
proof
  show "set (collect_descendants deps [f] []) \<subseteq> descendants deps f"
    using collect_descendants_sound [of deps "[f]" "[]"] by (auto simp: descendants_def)
  show "descendants deps f \<subseteq> set (collect_descendants deps [f] [])"
  proof
    fix x assume "x \<in> descendants deps f"
    then have f: "f \<noteq> []" and x: "(f, x) \<in> (dependents_rel deps)\<^sup>*" by (auto simp: descendants_def)
    have start: "f \<in> set (collect_descendants deps [f] [])"
      using collect_descendants_mono [of "[]" "[f]" deps] f by auto
    have closed: "z \<in> set (collect_descendants deps [f] [])"
      if "y \<in> set (collect_descendants deps [f] [])" "(y, z) \<in> dependents_rel deps" for y z
      using collect_descendants_closed [of "[]" deps "[f]" y] that by auto
    show "x \<in> set (collect_descendants deps [f] [])"
      using x start by (induction rule: rtrancl_induct) (use closed in blast)+
  qed
qed

lemma collectDescendantStepIds_correct:
  "set (collectDescendantStepIds snap f) = descendants (rr_dependencies (snap_run snap)) f"
  unfolding collectDescendantStepIds_def by (rule collect_descendants_correct)

lemma abs_dag_fold_put:
  assumes wf: "wf_db db" and ids: "distinct (map sr_stepId xs)"
    and u: "su_status u = Some x" "su_attempt u = None"
  shows "abs_dag (fold (\<lambda>s. put_step (i, sr_stepId s) u now) xs db) i = (abs_dag db i)\<lparr>
    ds_step := (\<lambda>sid. if sid \<in> sr_stepId ` set xs then map_option (\<lambda>(_, n). (x, n)) (ds_step (abs_dag db i) sid)
       else ds_step (abs_dag db i) sid)\<rparr>"
proof -
  have "ds_step (abs_dag (fold (\<lambda>s. put_step (i, sr_stepId s) u now) xs db) i) sid =
      (if sid \<in> sr_stepId ` set xs then map_option (\<lambda>(_, n). (x, n)) (ds_step (abs_dag db i) sid)
       else ds_step (abs_dag db i) sid)" for sid
  proof (cases "find (\<lambda>s. sr_stepId s = sid) xs")
    case None
    then have "sid \<notin> sr_stepId ` set xs" by (auto simp: find_eq_None)
    then show ?thesis using None by (simp add: abs_dag_step step_of_fold_put [OF ids])
  next
    case (Some s)
    then have "sid \<in> sr_stepId ` set xs" by (auto dest!: find_SomeD)
    then show ?thesis using Some u by (simp add: abs_dag_step step_of_fold_put [OF ids] map_option_case split: option.splits)
  qed
  moreover have "ds_status (abs_dag (fold (\<lambda>s. put_step (i, sr_stepId s) u now) xs db) i) = ds_status (abs_dag db i)"
    "ds_attempt (abs_dag (fold (\<lambda>s. put_step (i, sr_stepId s) u now) xs db) i) = ds_attempt (abs_dag db i)"
    "ds_order (abs_dag (fold (\<lambda>s. put_step (i, sr_stepId s) u now) xs db) i) = ds_order (abs_dag db i)"
    "ds_deps (abs_dag (fold (\<lambda>s. put_step (i, sr_stepId s) u now) xs db) i) = ds_deps (abs_dag db i)"
    "ds_edges (abs_dag (fold (\<lambda>s. put_step (i, sr_stepId s) u now) xs db) i) = ds_edges (abs_dag db i)"
    "ds_plan (abs_dag (fold (\<lambda>s. put_step (i, sr_stepId s) u now) xs db) i) = ds_plan (abs_dag db i)"
    by (auto simp: abs_dag_def rows_ids fold_put_step_fields step_of_fold_put [OF ids] fun_eq_iff
        split: option.splits)
  ultimately show ?thesis by (simp add: fun_eq_iff)
qed

lemma find_cong_set: "(\<And>x. x \<in> set xs \<Longrightarrow> P x = Q x) \<Longrightarrow> find P xs = find Q xs"
  by (induction xs) auto

lemma resume_serves:
  assumes wf: "wf_db db" and r: "run_of db i = Some r"
  shows "serves (resumeFromFirstFailedStep db i now) db i (op_spec OpResume (abs_dag db i))"
proof -
  have i: "run_id r = i" using run_of_SomeD [OF r] by simp
  let ?st = "abs_dag db i"
  let ?first = "find (\<lambda>s. step_status_col s = StepFailed) (rows_of db i)"
  have first: "find (step_is ?st StepFailed) (ds_order ?st) = map_option step_step_id ?first"
    using step_is_row [OF wf, of _ i] by (simp add: abs_dag_def find_map_comp) (auto intro!: arg_cong [where f = "map_option _"] find_cong_set)
  show ?thesis
  proof (cases ?first)
    case None
    then show ?thesis
      using recompute_serves [OF wf r] first
      by (simp add: resumeFromFirstFailedStep_def enter_op(1) [OF r] i find_map_comp resume_spec_def)
  next
    case (Some f)
    let ?f = "step_step_id f"
    let ?xs = "filter (\<lambda>s. sr_stepId s \<in> descendants (run_dependencies r) ?f) (map mapWorkflowDagStepRow (rows_of db i))"
    let ?u = "no_step_update\<lparr>su_status := Some StepPending, su_ready := Some False,
        su_finishedAt := Some None, su_failure := JNull\<rparr>"
    let ?d = "fold (\<lambda>s. put_step (i, sr_stepId s) ?u now) ?xs db"
    have ids: "distinct (map sr_stepId ?xs)"
      using rows_distinct [OF wf] by (intro distinct_map_filter) (simp add: o_def)
    have "\<forall>x \<in> set ?xs. step_of db (i, sr_stepId x) \<noteq> None"
      using step_of_row [OF wf, of _ i] by auto
    note loop = foldR_updateStep [OF this, of "\<lambda>_. ?u" now]
    have set_xs: "sr_stepId ` set ?xs = descendants (run_dependencies r) ?f \<inter> set (ds_order ?st)"
      unfolding filter_map set_map image_image by (auto simp: abs_dag_def)
    have in_order: "ds_step ?st sid \<noteq> None \<Longrightarrow> sid \<in> set (ds_order ?st)" for sid
      using step_of_in_rows [of db i sid] by (auto simp: abs_dag_def)
    have "abs_dag ?d i\<lparr>ds_status := RunPending\<rparr> = resume_spec ?st"
    proof -
      have "(if sid \<in> sr_stepId ` set ?xs then map_option (\<lambda>(_, n). (StepPending, n)) (ds_step ?st sid)
            else ds_step ?st sid) =
          (if sid \<in> descendants (run_dependencies r) ?f
            then map_option (\<lambda>(_, n). (StepPending, n)) (ds_step ?st sid) else ds_step ?st sid)" for sid
        using in_order [of sid] set_xs by (cases "ds_step ?st sid") auto
      then show ?thesis
        using Some first r by (simp add: abs_dag_fold_put [OF wf ids] resume_spec_def)
          (simp add: abs_dag_def)
    qed
    moreover have served: "served db i (abs_dag ?d i) ?d"
      using wf r by (simp add: served_def fold_put_step_fields only_run_fold_put)
    ultimately have "serves (bindR (updateRun ?d i \<lparr>ru_status = Some RunPending, ru_failure = JNull,
             ru_startedAt = None, ru_finishedAt = Some None\<rparr> now) (\<lambda>(db2, _).
         bindR (appendEvent db2 (run_event i (Some ?f) ty lv m p now) now)
           (\<lambda>(db3, _). recomputeReadiness db3 i now))) db i (resume_spec ?st)" for ty lv m p
      by (intro seq_updateRun [OF served] seq_appendEvent serves_recompute) simp_all
    then show ?thesis
      using Some loop
      by (simp add: resumeFromFirstFailedStep_def enter_op(1) [OF r] i find_map_comp Let_def
          collectDescendantStepIds_correct)
  qed
qed


text \<open>All operations together, and what happens when the run or the step does not exist.\<close>

lemma run_op_serves:
  assumes wf: "wf_db db" and r: "run_of db i = Some r"
    and s: "\<And>sid. op_step op = Some sid \<Longrightarrow> step_of db (i, sid) \<noteq> None"
  shows "serves (run_op op db i now) db i (op_spec op (abs_dag db i))"
  using startStep_serves [OF wf r] completeStep_serves [OF wf r] failStep_serves [OF wf r]
    cancelStep_serves [OF wf r] recover_serves [OF wf r] resume_serves [OF wf r] recompute_serves [OF wf r] s
  by (cases op) (auto simp del: op_spec.simps)

lemma run_op_no_run:
  assumes "run_of db i = None"
  shows "run_op op db i now = Inl (JsError (''Workflow DAG run not found: '' @ i))"
  using assms
  by (cases op) (simp_all add: startStep_def completeStep_def failStep_def cancelStep_def
      recoverStaleRunningSteps_def resumeFromFirstFailedStep_def recomputeReadiness_missing
      requireSnapshot_eq Let_def)

lemma run_op_no_step:
  assumes "run_of db i = Some r" "op_step op = Some sid" "step_of db (i, sid) = None"
  shows "run_op op db i now = Inl (JsError (''Workflow step not found: '' @ i @ ''/'' @ sid))"
  using assms requireSnapStep_eq [OF assms(1), of sid]
  by (cases op) (simp_all add: startStep_def completeStep_def failStep_def cancelStep_def
      enter_op(1) [OF assms(1)] Let_def)

section \<open>A run in motion\<close>

text \<open>
  A template of three tasks, the run created from it, and the run after its first step has
  failed: \<open>build\<close> depends on nothing, \<open>test\<close> on \<open>build\<close>, and \<open>docs\<close> on nothing.
\<close>

definition demo_tasks :: js where
  "demo_tasks = JArr [
     JObj [(''id'', JStr ''test''), (''dependsOn'', JArr [JStr ''build''])],
     JObj [(''id'', JStr ''build'')],
     JObj [(''id'', JStr ''docs''), (''dependsOn'', JArr [])]]"

definition demo_request :: create_state_request where
  "demo_request = \<lparr>cs_workflowTemplateId = ''ci'', cs_workflowTemplateVersion = None,
     cs_pluginId = None, cs_pluginVersion = None, cs_tasks = demo_tasks, cs_runId = Some ''r1''\<rparr>"

abbreviation empty_db :: dag_db where
  "empty_db \<equiv> \<lparr>db_runs = [], db_steps = [], db_attempts = [], db_events = []\<rparr>"

definition demo_created :: dag_db where
  "demo_created = fst (projr (createRun empty_db [] demo_request 10))"

definition demo_started :: dag_db where
  "demo_started = fst (projr (run_op (OpStart ''build'') demo_created ''r1'' 20))"

definition demo_failed :: dag_db where
  "demo_failed = fst (projr (run_op (OpFail ''build'' (JStr ''no disk'')) demo_started ''r1'' 30))"

definition demo_cancelled :: dag_db where
  "demo_cancelled = fst (projr (run_op (OpCancel ''docs'' (JStr ''by user'')) demo_started ''r1'' 30))"

lemma demo_steps:
  "\<not> isl (createRun empty_db [] demo_request 10)"
  "\<not> isl (run_op (OpStart ''build'') demo_created ''r1'' 20)"
  by code_simp+

lemma demo_wf: "wf_db demo_created" "wf_db demo_started" "wf_db demo_cancelled"
  by code_simp+

section \<open>Properties\<close>



text \<open>
  C39 Cancelling is not final: a run with status cancelled goes back to running when a step of it
  completes while another step has not, because \<open>finalizeRun\<close> keeps only the statuses failed and
  resumable.
\<close>

theorem complete_revives_cancelled:
  assumes "wf_db db" "run_of db i = Some r" "run_status_col r = RunCancelled"
    and "step_of db (i, sid) \<noteq> None" "status_of db i other = Some x" "x \<noteq> StepCompleted" "other \<noteq> sid"
  shows "\<exists>db' snap. completeStep db i sid output now = Inr (db', snap) \<and> rr_status (snap_run snap) = RunRunning"
proof -
  obtain s where s: "step_of db (i, sid) = Some s" using assms(4) by auto
  obtain s' where s': "step_of db (i, other) = Some s'" "step_status_col s' = x"
    using assms(5) by (auto simp: status_of_def)
  let ?st = "op_spec (OpComplete sid output) (abs_dag db i)"
  obtain st where st: "st = set_attempt sid (step_attempt s) AttemptCompleted
      (set_step sid StepCompleted (step_attempt s) (abs_dag db i))" by simp
  have "other \<in> set (ds_order st)"
    using step_of_in_rows [OF s'(1)] by (auto simp: st abs_dag_def set_attempt_def set_step_def)
  moreover have "\<not> step_is st StepCompleted other"
    using s' assms(6,7) by (simp add: st step_is_def set_attempt_def set_step_def abs_dag_step)
  moreover have "ds_status st = RunCancelled" using assms(2,3) by (simp add: st abs_dag_status)
  ultimately have "ds_status (finalize_spec st) = RunRunning"
    by (auto simp: finalize_spec_def list_all_iff)
  then have "ds_status ?st = RunRunning" using s by (simp add: st abs_dag_step)
  moreover have "serves (completeStep db i sid output now) db i ?st"
    by (rule completeStep_serves [OF assms(1,2) s])
  then obtain db' where db': "completeStep db i sid output now = Inr (db', the (getSnapshot db' i))"
    "served db i ?st db'"
    unfolding serves_def by blast
  moreover obtain r' where r': "run_of db' i = Some r'" using db'(2) by (auto simp: served_def)
  moreover have "run_status_col r' = ds_status ?st"
    using db'(2) abs_dag_status [OF r'] by (simp add: served_def)
  ultimately show ?thesis using enter_op(3) [of db' i r'] by simp
qed

theorem complete_revives_cancelled_witness:
  "\<exists>db' snap. completeStep demo_cancelled ''r1'' ''build'' JUndefined 40 = Inr (db', snap) \<and>
     rr_status (snap_run snap) = RunRunning"
proof -
  have r: "map_option run_status_col (run_of demo_cancelled ''r1'') = Some RunCancelled" by code_simp
  obtain row where row: "run_of demo_cancelled ''r1'' = Some row" "run_status_col row = RunCancelled"
    using r by auto
  have "isl (requireStep demo_cancelled ''r1'' ''build'') = False" by code_simp
  then have b: "step_of demo_cancelled (''r1'', ''build'') \<noteq> None"
    by (auto simp: requireStep_eq split: option.splits)
  have o: "status_of demo_cancelled ''r1'' ''test'' = Some StepPending" by code_simp
  show ?thesis
    by (rule complete_revives_cancelled [OF demo_wf(3) row b o]) simp_all
qed

end
