(* ===== verification/WorkflowSafety.thy ===== *)
theory WorkflowSafety
  imports WorkflowState
begin

text \<open>
  What holds of every run, whatever requests it has received: the invariants of the abstract
  machine of \<open>WorkflowState\<close>, lifted to the database along the step relation of runs that are
  created from a template and served one operation at a time.

  The relation allows what the executor and the cancellation paths ask for: a step is started
  when it is ready, completed or failed while it is running, and cancelled before it has ended.
\<close>

section \<open>Invariants of the abstract machine\<close>

text \<open>The part of the state no operation changes: ids, dependencies and the dependency record.\<close>

definition dag_shape :: "dag_state \<Rightarrow> bool" where
  "dag_shape st \<longleftrightarrow> ds_plan st = ds_order st \<and> [] \<notin> set (ds_order st) \<and> distinct (map fst (ds_edges st)) \<and>
     (\<forall>sid. ds_step st sid \<noteq> None \<longleftrightarrow> sid \<in> set (ds_order st)) \<and>
     (\<forall>sid \<in> set (ds_order st). ds_deps st sid = lookup_or [] (ds_edges st) sid \<and>
        set (ds_deps st sid) \<subseteq> set (ds_order st))"

text \<open>A step that has been started has all its dependencies completed.\<close>

definition started :: "dag_state \<Rightarrow> string \<Rightarrow> bool" where
  "started st sid \<longleftrightarrow>
     step_is st StepRunning sid \<or> step_is st StepCompleted sid \<or> step_is st StepFailed sid"

definition deps_completed :: "dag_state \<Rightarrow> string \<Rightarrow> bool" where
  "deps_completed st sid \<longleftrightarrow> list_all (step_is st StepCompleted) (ds_deps st sid)"

definition deps_first :: "dag_state \<Rightarrow> bool" where
  "deps_first st \<longleftrightarrow> (\<forall>sid. started st sid \<longrightarrow> deps_completed st sid)"

text \<open>What the run status says of the steps.\<close>

definition status_sound :: "dag_state \<Rightarrow> bool" where
  "status_sound st \<longleftrightarrow>
     (ds_status st = RunCompleted \<longrightarrow> (\<forall>sid \<in> set (ds_order st). step_is st StepCompleted sid)) \<and>
     (ds_status st = RunFailed \<or> ds_status st = RunResumable \<longrightarrow>
        (\<exists>sid \<in> set (ds_order st). step_is st StepFailed sid))"

text \<open>
  The attempt log: an attempt is open exactly when it is the current attempt of a running step,
  and the attempts of a step are numbered from 1 to its count.
\<close>

definition attempts_sound :: "dag_state \<Rightarrow> bool" where
  "attempts_sound st \<longleftrightarrow>
     (\<forall>sid n. ds_attempt st (sid, n) = Some AttemptRunning \<longleftrightarrow> ds_step st sid = Some (StepRunning, n)) \<and>
     (\<forall>sid n. ds_attempt st (sid, n) \<noteq> None \<longrightarrow> (\<exists>status m. ds_step st sid = Some (status, m) \<and> 0 < n \<and> n \<le> m))"

definition dag_inv :: "dag_state \<Rightarrow> bool" where
  "dag_inv st \<longleftrightarrow> dag_shape st \<and> deps_first st \<and> status_sound st \<and> attempts_sound st"

text \<open>When an operation is asked for.\<close>

fun allowed :: "dag_state \<Rightarrow> dag_op \<Rightarrow> bool" where
  "allowed st (OpStart sid) \<longleftrightarrow> step_is st StepPending sid \<and> deps_completed st sid"
| "allowed st (OpComplete sid _) \<longleftrightarrow> step_is st StepRunning sid"
| "allowed st (OpFail sid _) \<longleftrightarrow> step_is st StepRunning sid"
| "allowed st (OpCancel sid _) \<longleftrightarrow> step_is st StepPending sid \<or> step_is st StepRunning sid"
| "allowed st _ \<longleftrightarrow> True"

lemma step_is_Some: "step_is st x sid \<longleftrightarrow> (\<exists>n. ds_step st sid = Some (x, n))"
  by (auto simp: step_is_def)

lemma set_fields [simp]:
  "ds_step (set_step sid x n st) = (ds_step st)(sid \<mapsto> (x, n))"
  "ds_attempt (set_step sid x n st) = ds_attempt st"
  "ds_step (set_attempt sid n a st) = ds_step st"
  "ds_attempt (set_attempt sid n a st) = (ds_attempt st)((sid, n) \<mapsto> a)"
  "ds_order (set_step sid x n st) = ds_order st" "ds_order (set_attempt sid n a st) = ds_order st"
  "ds_deps (set_step sid x n st) = ds_deps st" "ds_deps (set_attempt sid n a st) = ds_deps st"
  "ds_edges (set_step sid x n st) = ds_edges st" "ds_edges (set_attempt sid n a st) = ds_edges st"
  "ds_plan (set_step sid x n st) = ds_plan st" "ds_plan (set_attempt sid n a st) = ds_plan st"
  by (simp_all add: set_step_def set_attempt_def)

lemma finalize_fields [simp]:
  "ds_step (finalize_spec st) = ds_step st" "ds_attempt (finalize_spec st) = ds_attempt st"
  "ds_order (finalize_spec st) = ds_order st" "ds_deps (finalize_spec st) = ds_deps st"
  "ds_edges (finalize_spec st) = ds_edges st" "ds_plan (finalize_spec st) = ds_plan st"
  by (simp_all add: finalize_spec_def)

lemma step_is_set_step [simp]:
  "step_is (set_step sid x n st) y t \<longleftrightarrow> (if t = sid then y = x else step_is st y t)"
  by (auto simp: step_is_Some)

lemma step_is_finalize [simp]: "step_is (finalize_spec st) = step_is st"
  by (simp add: step_is_def fun_eq_iff)

lemma deps_first_update:
  assumes "deps_first st" "ds_deps st' = ds_deps st"
    and kept: "\<And>d. step_is st StepCompleted d \<Longrightarrow> step_is st' StepCompleted d"
    and new: "\<And>sid. started st' sid \<Longrightarrow> started st sid \<or> deps_completed st sid"
  shows "deps_first st'"
  using assms unfolding deps_first_def deps_completed_def list_all_iff by metis

subsection \<open>The shape never changes\<close>

lemma op_spec_constant [simp]:
  "ds_order (op_spec op st) = ds_order st" "ds_deps (op_spec op st) = ds_deps st"
  "ds_edges (op_spec op st) = ds_edges st" "ds_plan (op_spec op st) = ds_plan st"
  by (cases op; auto simp: recover_spec_def resume_spec_def split: option.splits)+

lemma op_spec_domain: "ds_step (op_spec op st) sid \<noteq> None \<longleftrightarrow> ds_step st sid \<noteq> None"
  by (cases op) (auto simp: recover_spec_def resume_spec_def split: option.splits if_splits)

lemma dag_shape_op: "dag_shape st \<Longrightarrow> dag_shape (op_spec op st)"
  unfolding dag_shape_def op_spec_domain op_spec_constant by blast

subsection \<open>Resuming\<close>

lemma step_is_resume:
  assumes "find (step_is st StepFailed) (ds_order st) = Some f"
  shows "step_is (resume_spec st) x sid \<longleftrightarrow>
    (if sid \<in> descendants (ds_edges st) f then x = StepPending \<and> ds_step st sid \<noteq> None else step_is st x sid)"
  using assms by (auto simp: resume_spec_def step_is_Some split: option.splits)

lemma resume_none: "find (step_is st StepFailed) (ds_order st) = None \<Longrightarrow> resume_spec st = st"
  by (simp add: resume_spec_def)

lemma shape_deps:
  assumes "dag_shape st" "sid \<in> set (ds_order st)"
  shows "ds_deps st sid = lookup_or [] (ds_edges st) sid" "set (ds_deps st sid) \<subseteq> set (ds_order st)"
  using assms unfolding dag_shape_def by blast+

lemma dependents_rel_deps:
  assumes "dag_shape st" "sid \<in> set (ds_order st)" "d \<in> set (ds_deps st sid)"
  shows "(d, sid) \<in> dependents_rel (ds_edges st)"
proof -
  note eq = shape_deps(1) [OF assms(1,2)]
  have "d \<in> set (ds_order st)" using shape_deps(2) [OF assms(1,2)] assms(3) by blast
  moreover obtain ds where "map_of (ds_edges st) sid = Some ds" "d \<in> set ds"
    using assms(3) unfolding eq lookup_or_def by (cases "map_of (ds_edges st) sid") auto
  ultimately show ?thesis
    using assms by (auto simp: dependents_rel_def dag_shape_def dest: map_of_SomeD)
qed


lemma descendants_step:
  assumes "dag_shape st" "sid \<in> set (ds_order st)" "d \<in> set (ds_deps st sid)"
    and "d \<in> descendants (ds_edges st) f"
  shows "sid \<in> descendants (ds_edges st) f"
  using assms(4) dependents_rel_deps [OF assms(1-3)]
  by (auto simp: descendants_def intro: rtrancl_into_rtrancl)

text \<open>
  Nothing below a step that is not completed has been started: what a resume resets is pending,
  cancelled or skipped, except the failed step itself.
\<close>

lemma below_uncompleted:
  assumes shape: "dag_shape st" and first: "deps_first st"
    and f: "\<not> step_is st StepCompleted f" and below: "sid \<in> descendants (ds_edges st) f" "sid \<noteq> f"
    and sid: "sid \<in> set (ds_order st)"
  shows "\<not> started st sid"
proof -
  have path: "(f, sid) \<in> (dependents_rel (ds_edges st))\<^sup>*" using below by (simp add: descendants_def)
  have "sid \<in> set (ds_order st) \<longrightarrow> (sid = f \<or> \<not> started st sid)"
    using path
  proof (induction rule: rtrancl_induct)
    case (step d x)
    show ?case
    proof (intro impI disjI2 notI)
      assume x: "x \<in> set (ds_order st)"
        and x_started: "started st x"
      obtain ds where "(x, ds) \<in> set (ds_edges st)" "d \<in> set ds"
        using step.hyps(2) by (auto simp: dependents_rel_def)
      then have "d \<in> set (lookup_or [] (ds_edges st) x)"
        using shape by (simp add: dag_shape_def lookup_or_def)
      then have d: "d \<in> set (ds_deps st x)" "d \<in> set (ds_order st)"
        using shape_deps [OF shape x] by auto
      then have "step_is st StepCompleted d"
        using first x_started by (auto simp: deps_first_def deps_completed_def list_all_iff)
      then show False using step.IH d f by (auto simp: started_def)
    qed
  qed simp
  then show ?thesis using below sid by blast
qed


subsection \<open>Each invariant is kept\<close>

lemma attempts_sound_status [simp]:
  "attempts_sound (st\<lparr>ds_status := x\<rparr>) = attempts_sound st"
  "attempts_sound (finalize_spec st) = attempts_sound st"
  by (simp_all add: attempts_sound_def)

lemma attempts_sound_update:
  assumes st: "attempts_sound st" and old: "ds_step st sid = Some (y, k)"
    and new: "k \<le> m" "0 < m" "y = StepRunning \<Longrightarrow> k = m"
    and same: "a = AttemptRunning \<longleftrightarrow> x = StepRunning"
  shows "attempts_sound (set_attempt sid m a (set_step sid x m st))"
proof -
  have run: "ds_attempt st (t, n) = Some AttemptRunning \<longleftrightarrow> ds_step st t = Some (StepRunning, n)" for t n
    using st by (simp add: attempts_sound_def)
  have cnt: "ds_attempt st (t, n) \<noteq> None \<Longrightarrow> \<exists>status j. ds_step st t = Some (status, j) \<and> 0 < n \<and> n \<le> j" for t n
    using st by (simp add: attempts_sound_def)
  have "ds_attempt st (sid, n) \<noteq> Some AttemptRunning" if "n \<noteq> m" for n
    using run [of sid n] old new(3) that by auto
  moreover have "0 < n \<and> n \<le> m" if "ds_attempt st (sid, n) \<noteq> None" for n
    using cnt [OF that] old new(1) by auto
  ultimately show ?thesis
    unfolding attempts_sound_def using run cnt same new(2) by auto
qed

lemma attempts_sound_step:
  assumes st: "attempts_sound st" and old: "ds_step st sid = Some (y, k)"
    and "y \<noteq> StepRunning" "x \<noteq> StepRunning"
  shows "attempts_sound (set_step sid x k st)"
proof -
  have run: "ds_attempt st (t, n) = Some AttemptRunning \<longleftrightarrow> ds_step st t = Some (StepRunning, n)" for t n
    using st by (simp add: attempts_sound_def)
  have cnt: "ds_attempt st (t, n) \<noteq> None \<Longrightarrow> \<exists>status j. ds_step st t = Some (status, j) \<and> 0 < n \<and> n \<le> j" for t n
    using st by (simp add: attempts_sound_def)
  have "0 < n \<and> n \<le> k" if "ds_attempt st (sid, n) \<noteq> None" for n
    using cnt [OF that] old by auto
  then show ?thesis unfolding attempts_sound_def using run cnt old assms(3,4) by auto
qed

lemma running_attempt_pos:
  "attempts_sound st \<Longrightarrow> ds_step st sid = Some (StepRunning, n) \<Longrightarrow> 0 < n"
  unfolding attempts_sound_def by (metis option.distinct(1))

lemma dag_inv_start:
  assumes inv: "dag_inv st" and ok: "allowed st (OpStart sid)"
  shows "dag_inv (op_spec (OpStart sid) st)"
proof -
  obtain n where n: "ds_step st sid = Some (StepPending, n)" using ok by (auto simp: step_is_Some)
  let ?st = "op_spec (OpStart sid) st"
  have sh: "dag_shape ?st" using inv dag_shape_op by (auto simp: dag_inv_def simp del: op_spec.simps)
  have "deps_first ?st"
  proof (rule deps_first_update [of st])
    show "deps_first st" using inv by (simp add: dag_inv_def)
    show "step_is ?st StepCompleted d" if "step_is st StepCompleted d" for d
      using that n by (auto simp: step_is_Some)
    show "started st x \<or> deps_completed st x" if "started ?st x" for x
      using that ok n by (auto simp: started_def split: if_splits)
  qed (use n in simp)
  moreover have "status_sound ?st" using n by (simp add: status_sound_def)
  moreover have "attempts_sound ?st"
    using inv n attempts_sound_update [of st sid] attempts_sound_update [of "st\<lparr>ds_status := RunRunning\<rparr>" sid]
      attempts_sound_update [of "st\<lparr>ds_status := RunFailed\<rparr>" sid] running_attempt_pos [of st sid n]
    by (simp add: dag_inv_def)
  ultimately show ?thesis using sh by (simp add: dag_inv_def)
qed


lemma dag_inv_complete:
  assumes inv: "dag_inv st" and ok: "allowed st (OpComplete sid v)"
  shows "dag_inv (op_spec (OpComplete sid v) st)"
proof -
  obtain n where n: "ds_step st sid = Some (StepRunning, n)" using ok by (auto simp: step_is_Some)
  let ?st = "op_spec (OpComplete sid v) st"
  have sh: "dag_shape ?st" using inv dag_shape_op by (auto simp: dag_inv_def simp del: op_spec.simps)
  have "deps_first ?st"
  proof (rule deps_first_update [of st])
    show "deps_first st" using inv by (simp add: dag_inv_def)
    show "step_is ?st StepCompleted d" if "step_is st StepCompleted d" for d
      using that n by simp
    show "started st x \<or> deps_completed st x" if "started ?st x" for x
      using that ok n by (auto simp: started_def split: if_splits)
  qed (use n in simp)
  moreover have "status_sound ?st"
  proof -
    have "\<exists>x \<in> set (ds_order st). x \<noteq> sid \<and> step_is st StepFailed x"
      if failed: "ds_status st = RunFailed \<or> ds_status st = RunResumable"
    proof -
      obtain x where x: "x \<in> set (ds_order st)" "step_is st StepFailed x"
        using failed inv by (auto simp: dag_inv_def status_sound_def)
      moreover have "x \<noteq> sid" using x(2) n by (auto simp: step_is_Some)
      ultimately show ?thesis by blast
    qed
    then show ?thesis
      using n by (simp add: status_sound_def finalize_spec_def list_all_iff) blast
  qed
  moreover have "attempts_sound ?st"
    using inv n attempts_sound_update [of st sid] attempts_sound_update [of "st\<lparr>ds_status := RunRunning\<rparr>" sid]
      attempts_sound_update [of "st\<lparr>ds_status := RunFailed\<rparr>" sid] running_attempt_pos [of st sid n]
    by (simp add: dag_inv_def)
  ultimately show ?thesis using sh by (simp add: dag_inv_def)
qed

lemma dag_inv_fail:
  assumes inv: "dag_inv st" and ok: "allowed st (OpFail sid v)"
  shows "dag_inv (op_spec (OpFail sid v) st)"
proof -
  obtain n where n: "ds_step st sid = Some (StepRunning, n)" using ok by (auto simp: step_is_Some)
  let ?st = "op_spec (OpFail sid v) st"
  have sh: "dag_shape ?st" using inv dag_shape_op by (auto simp: dag_inv_def simp del: op_spec.simps)
  have "sid \<in> set (ds_order st)" using inv n by (auto simp: dag_inv_def dag_shape_def)
  then have "status_sound ?st" using n by (auto simp: status_sound_def)
  moreover have "deps_first ?st"
  proof (rule deps_first_update [of st])
    show "deps_first st" using inv by (simp add: dag_inv_def)
    show "step_is ?st StepCompleted d" if "step_is st StepCompleted d" for d
      using that n by (auto simp: step_is_Some)
    show "started st x \<or> deps_completed st x" if "started ?st x" for x
      using that ok n by (auto simp: started_def split: if_splits)
  qed (use n in simp)
  moreover have "attempts_sound ?st"
    using inv n attempts_sound_update [of st sid] attempts_sound_update [of "st\<lparr>ds_status := RunRunning\<rparr>" sid]
      attempts_sound_update [of "st\<lparr>ds_status := RunFailed\<rparr>" sid] running_attempt_pos [of st sid n]
    by (simp add: dag_inv_def)
  ultimately show ?thesis using sh by (simp add: dag_inv_def)
qed

lemma dag_inv_cancel:
  assumes inv: "dag_inv st" and ok: "allowed st (OpCancel sid v)"
  shows "dag_inv (op_spec (OpCancel sid v) st)"
proof -
  obtain x n where n: "ds_step st sid = Some (x, n)" "x = StepPending \<or> x = StepRunning"
    using ok by (auto simp: step_is_Some)
  let ?st = "op_spec (OpCancel sid v) st"
  have sh: "dag_shape ?st" using inv dag_shape_op by (auto simp: dag_inv_def simp del: op_spec.simps)
  have "status_sound ?st" using n by (auto simp: status_sound_def)
  moreover have "deps_first ?st"
  proof (rule deps_first_update [of st])
    show "deps_first st" using inv by (simp add: dag_inv_def)
    show "step_is ?st StepCompleted d" if "step_is st StepCompleted d" for d
      using that n by (auto simp: step_is_Some)
    show "started st x \<or> deps_completed st x" if "started ?st x" for x
      using that n by (auto simp: started_def split: if_splits)
  qed (use n in auto)
  moreover have "attempts_sound ?st"
  proof -
    have st: "attempts_sound st" using inv by (simp add: dag_inv_def)
    then show ?thesis
      using n attempts_sound_update [of "st\<lparr>ds_status := RunCancelled\<rparr>" sid x n n AttemptCancelled StepCancelled]
        attempts_sound_step [of "st\<lparr>ds_status := RunCancelled\<rparr>" sid x n StepCancelled]
        running_attempt_pos [OF st, of sid n] by auto
  qed
  ultimately show ?thesis using sh by (simp add: dag_inv_def)
qed

lemma step_is_recover:
  "step_is (recover_spec st) x sid \<longleftrightarrow>
    (if list_ex (step_is st StepRunning) (ds_order st) \<and> step_is st StepRunning sid
     then x = StepFailed else step_is st x sid)"
  by (auto simp: recover_spec_def step_is_Some)

lemma dag_inv_recover:
  assumes inv: "dag_inv st"
  shows "dag_inv (op_spec OpRecover st)"
proof (cases "list_ex (step_is st StepRunning) (ds_order st)")
  case True
  have sh: "dag_shape (recover_spec st)" using inv dag_shape_op [of st OpRecover] by (auto simp: dag_inv_def)
  obtain x where x: "x \<in> set (ds_order st)" "step_is st StepRunning x" using True by (auto simp: list_ex_iff)
  have "step_is (recover_spec st) StepFailed x" using True x by (simp add: step_is_recover)
  moreover have "ds_status (recover_spec st) = RunResumable" "ds_order (recover_spec st) = ds_order st"
    using True by (simp_all add: recover_spec_def)
  ultimately have "status_sound (recover_spec st)" using x(1) by (auto simp: status_sound_def)
  moreover have "deps_first (recover_spec st)"
  proof (rule deps_first_update [of st])
    show "deps_first st" using inv by (simp add: dag_inv_def)
    show "step_is (recover_spec st) StepCompleted d" if "step_is st StepCompleted d" for d
      using that by (auto simp: step_is_recover) (auto simp: step_is_Some)
    show "started st x \<or> deps_completed st x" if "started (recover_spec st) x" for x
      using that by (auto simp: started_def step_is_recover split: if_splits)
    show "ds_deps (recover_spec st) = ds_deps st" using op_spec_constant(2) [of OpRecover st] by simp
  qed
  moreover have "attempts_sound (recover_spec st)"
  proof -
    have st: "attempts_sound st" using inv by (simp add: dag_inv_def)
    have step: "ds_step (recover_spec st) t = (if step_is st StepRunning t
        then map_option (\<lambda>(_, n). (StepFailed, n)) (ds_step st t) else ds_step st t)"
      and att: "ds_attempt (recover_spec st) (t, n) =
        (if ds_step st t = Some (StepRunning, n) then Some AttemptFailed else ds_attempt st (t, n))" for t n
      using True by (simp_all add: recover_spec_def)
    have run: "ds_attempt st (t, n) = Some AttemptRunning \<longleftrightarrow> ds_step st t = Some (StepRunning, n)"
      and cnt: "ds_attempt st (t, n) \<noteq> None \<Longrightarrow> \<exists>status j. ds_step st t = Some (status, j) \<and> 0 < n \<and> n \<le> j" for t n
      using st by (simp_all add: attempts_sound_def)
    have "\<exists>status m. ds_step (recover_spec st) t = Some (status, m) \<and> 0 < n \<and> n \<le> m"
      if "ds_attempt (recover_spec st) (t, n) \<noteq> None" for t n
    proof -
      have "ds_attempt st (t, n) \<noteq> None"
        using that att [of t n] run [of t n] by (auto split: if_splits)
      then show ?thesis using cnt [of t n] by (auto simp: step)
    qed
    moreover have "ds_attempt (recover_spec st) (t, n) = Some AttemptRunning \<longleftrightarrow>
        ds_step (recover_spec st) t = Some (StepRunning, n)" for t n
      using run [of t n] by (auto simp: att step step_is_Some)
    ultimately show ?thesis unfolding attempts_sound_def by blast
  qed
  ultimately show ?thesis using sh by (simp add: dag_inv_def)
next
  case False
  then show ?thesis using inv by (simp add: recover_spec_def)
qed

lemma dag_inv_resume:
  assumes inv: "dag_inv st"
  shows "dag_inv (op_spec OpResume st)"
proof (cases "find (step_is st StepFailed) (ds_order st)")
  case None
  then show ?thesis using inv by (simp add: resume_none)
next
  case (Some f)
  note step = step_is_resume [OF Some]
  have shape: "dag_shape st" and first: "deps_first st" using inv by (auto simp: dag_inv_def)
  have f: "step_is st StepFailed f" using Some by (auto dest: find_SomeD)
  have sh: "dag_shape (resume_spec st)" using dag_shape_op [OF shape, of OpResume] by simp
  have "status_sound (resume_spec st)" using Some by (simp add: status_sound_def resume_spec_def)
  moreover have "deps_first (resume_spec st)"
    unfolding deps_first_def deps_completed_def list_all_iff
  proof (intro allI impI ballI)
    fix sid d
    assume s: "started (resume_spec st) sid" and d: "d \<in> set (ds_deps (resume_spec st) sid)"
    have sid: "sid \<notin> descendants (ds_edges st) f" "started st sid"
      using s by (auto simp: step started_def split: if_splits)
    then have in_order: "sid \<in> set (ds_order st)"
      using shape by (auto simp: started_def dag_shape_def step_is_Some)
    have d': "d \<in> set (ds_deps st sid)" using d op_spec_constant(2) [of OpResume st] by simp
    then have "d \<notin> descendants (ds_edges st) f" using descendants_step [OF shape in_order] sid by blast
    then show "step_is (resume_spec st) StepCompleted d"
      using first sid d' by (auto simp: step deps_first_def deps_completed_def list_all_iff)
  qed
  moreover have "attempts_sound (resume_spec st)"
  proof -
    have "\<not> step_is st StepRunning sid" if "sid \<in> descendants (ds_edges st) f" "sid \<in> set (ds_order st)" for sid
      using that below_uncompleted [OF shape first _ that(1)] f
      by (cases "sid = f") (auto simp: step_is_Some started_def)
    then have "ds_step (resume_spec st) sid = Some (StepRunning, n) \<longleftrightarrow> ds_step st sid = Some (StepRunning, n)" for sid n
      using Some shape by (auto simp: resume_spec_def dag_shape_def step_is_Some)
    moreover have "(\<exists>status m. ds_step (resume_spec st) sid = Some (status, m) \<and> 0 < n \<and> n \<le> m) \<longleftrightarrow>
        (\<exists>status m. ds_step st sid = Some (status, m) \<and> 0 < n \<and> n \<le> m)" for sid n
      using Some by (cases "ds_step st sid") (auto simp: resume_spec_def)
    moreover have "ds_attempt (resume_spec st) = ds_attempt st" using Some by (simp add: resume_spec_def)
    ultimately show ?thesis
      using inv unfolding dag_inv_def attempts_sound_def by simp
  qed
  ultimately show ?thesis using sh by (simp add: dag_inv_def)
qed


lemma dag_inv_op:
  assumes "dag_inv st" "allowed st op"
  shows "dag_inv (op_spec op st)"
  using assms dag_inv_start dag_inv_complete dag_inv_fail dag_inv_cancel dag_inv_recover dag_inv_resume
  by (cases op) (simp_all del: allowed.simps op_spec.simps, simp)

section \<open>Runs that are created\<close>

text \<open>The database that \<open>create\<close> returns.\<close>

lemma foldR_insertStep:
  assumes "distinct sids" "\<forall>sid \<in> set sids. (i, sid) \<notin> set (step_keys db)" "run_of db i \<noteq> None"
  shows "foldR (\<lambda>d sid. insertStep d (initial_step_row i deps now sid)) db sids =
    Inr (db\<lparr>db_steps := db_steps db @ map (initial_step_row i deps now) sids\<rparr>)"
  using assms
proof (induction sids arbitrary: db)
  case (Cons sid sids)
  have key: "step_key (initial_step_row i deps now t) = (i, t)" for t
    by (simp add: initial_step_row_def Let_def)
  have run: "step_run_id (initial_step_row i deps now t) = i" for t
    by (simp add: initial_step_row_def Let_def)
  let ?db = "db\<lparr>db_steps := db_steps db @ [initial_step_row i deps now sid]\<rparr>"
  have "insertStep db (initial_step_row i deps now sid) = Inr ?db"
    using Cons.prems by (auto simp: insertStep_def key run step_keys_def run_of_None)
  moreover have "run_of ?db i \<noteq> None" using Cons.prems by (simp add: run_of_def)
  moreover have "\<forall>t \<in> set sids. (i, t) \<notin> set (step_keys ?db)"
    using Cons.prems by (auto simp: step_keys_def key)
  ultimately show ?case using Cons by simp
qed simp


definition created_row :: "string \<Rightarrow> create_run_input \<Rightarrow> time \<Rightarrow> run_row" where
  "created_row i input now = \<lparr>run_id = i, run_template_id = cr_workflowTemplateId input,
          run_template_version = cr_workflowTemplateVersion input, run_plugin_id = cr_pluginId input,
          run_plugin_version = cr_pluginVersion input, run_status_col = RunPending,
          run_step_order = cr_stepOrder input, run_dependencies = cr_dependencies input,
          run_failure_json = None, run_created_at = now, run_updated_at = now,
          run_started_at = None, run_finished_at = None\<rparr>"

definition created_db :: "dag_db \<Rightarrow> string \<Rightarrow> create_run_input \<Rightarrow> time \<Rightarrow> dag_db" where
  "created_db db i input now = db\<lparr>
     db_runs := db_runs db @ [created_row i input now],
     db_steps := db_steps db @ map (initial_step_row i (cr_dependencies input) now) (cr_stepOrder input),
     db_events := db_events db @ [\<lparr>ev_id = randomUuid db, ev_run_id = i, ev_step_id = None,
          ev_type = ''workflow.created'', ev_level = LevelInfo,
          ev_message = ''Workflow DAG run state created.'', ev_payload = JObj [], ev_timestamp = now\<rparr>]\<rparr>"

lemma created_row_simps [simp]:
  "run_id (created_row i input now) = i"
  "run_status_col (created_row i input now) = RunPending"
  "run_step_order (created_row i input now) = cr_stepOrder input"
  "run_dependencies (created_row i input now) = cr_dependencies input"
  by (simp_all add: created_row_def)

definition initial_state :: "string list \<Rightarrow> (string \<times> string list) list \<Rightarrow> dag_state" where
  "initial_state order deps = \<lparr>ds_status = RunPending,
     ds_step = (\<lambda>sid. if sid \<in> set order then Some (StepPending, 0) else None),
     ds_attempt = (\<lambda>_. None), ds_order = order,
     ds_deps = (\<lambda>sid. if sid \<in> set order then lookup_or [] deps sid else []), ds_edges = deps, ds_plan = order\<rparr>"

lemma initial_step_row_simps [simp]:
  "step_key (initial_step_row i deps now t) = (i, t)"
  "step_run_id (initial_step_row i deps now t) = i"
  "step_step_id (initial_step_row i deps now t) = t"
  "step_status_col (initial_step_row i deps now t) = StepPending"
  "step_attempt (initial_step_row i deps now t) = 0"
  "step_dependencies (initial_step_row i deps now t) = lookup_or [] deps t"
  "step_blocking (initial_step_row i deps now t) = lookup_or [] deps t"
  "step_ready (initial_step_row i deps now t) = (if lookup_or [] deps t = [] then 1 else 0)"
  by (simp_all add: initial_step_row_def Let_def)

lemma wf_no_run_no_steps:
  assumes wf: "wf_db db" and no: "run_of db i = None"
  shows "(i, sid) \<notin> set (step_keys db)" "rows_of db i = []" "attempt_of db (i, sid, n) = None"
proof -
  show k: "(i, sid) \<notin> set (step_keys db)" for sid using wf no by (force simp: wf_db_def)
  show "rows_of db i = []"
    using k by (auto simp: filter_empty_conv step_keys_def step_key_def)
  show "attempt_of db (i, sid, n) = None"
    using wf_db_attempt_step [OF wf, of i sid n] k [of sid] step_of_None [of db "(i, sid)"]
    by (cases "attempt_of db (i, sid, n)") auto
qed

lemma created_maps:
  assumes wf: "wf_db db" and no: "run_of db i = None"
  shows "run_of (created_db db i input now) j =
      (if j = i then Some (created_row i input now) else run_of db j)"
    and "step_of (created_db db i input now) (j, sid) =
      (if j = i then (if sid \<in> set (cr_stepOrder input)
         then Some (initial_step_row i (cr_dependencies input) now sid) else None)
       else step_of db (j, sid))"
    and "attempt_of (created_db db i input now) a = attempt_of db a"
    and "rows_of (created_db db i input now) i =
      map (initial_step_row i (cr_dependencies input) now) (cr_stepOrder input)"
proof -
  show "run_of (created_db db i input now) j =
      (if j = i then Some (created_row i input now) else run_of db j)"
    using no by (auto simp: created_db_def run_of_def find_append split: option.splits)
  have new: "find (\<lambda>s. step_key s = (j, sid)) (map (initial_step_row i (cr_dependencies input) now) sids) =
      (if j = i \<and> sid \<in> set sids then Some (initial_step_row i (cr_dependencies input) now sid) else None)" for sids j
    by (induction sids) auto
  have old: "step_of db (i, sid) = None" using wf_no_run_no_steps [OF wf no] by (simp add: step_of_None)
  show "step_of (created_db db i input now) (j, sid) =
      (if j = i then (if sid \<in> set (cr_stepOrder input)
         then Some (initial_step_row i (cr_dependencies input) now sid) else None)
       else step_of db (j, sid))"
    using old by (auto simp: created_db_def step_of_def find_append new split: option.splits)
  show "attempt_of (created_db db i input now) a = attempt_of db a"
    by (simp add: created_db_def attempt_of_def)
  show "rows_of (created_db db i input now) i =
      map (initial_step_row i (cr_dependencies input) now) (cr_stepOrder input)"
    using wf_no_run_no_steps(2) [OF wf no] by (simp add: created_db_def)
qed

lemma created_wf:
  assumes wf: "wf_db db" and no: "run_of db i = None" and d: "distinct (cr_stepOrder input)"
  shows "wf_db (created_db db i input now)"
proof -
  let ?db = "created_db db i input now"
  have run: "run_of ?db j \<noteq> None" if "run_of db j \<noteq> None \<or> j = i" for j
    using that created_maps(1) [OF wf no] by auto
  have step: "step_of ?db (j, sid) \<noteq> None" if "step_of db (j, sid) \<noteq> None" for j sid
    using that created_maps(2) [OF wf no] wf_no_run_no_steps(1) [OF wf no] step_of_None [of db "(i, sid)"] by auto
  have keys: "step_keys ?db = step_keys db @ map (Pair i) (cr_stepOrder input)"
    by (simp add: step_keys_def created_db_def)
  have "distinct (map run_id (db_runs ?db))"
    using wf no by (auto simp: wf_db_def created_db_def run_of_None)
  moreover have "distinct (step_keys ?db)"
    using wf d wf_no_run_no_steps(1) [OF wf no]
    by (auto simp: keys wf_db_def distinct_map inj_on_def)
  moreover have "distinct (map attempt_key (db_attempts ?db))" using wf by (simp add: wf_db_def created_db_def)
  moreover have "\<forall>k \<in> set (step_keys ?db). run_of ?db (fst k) \<noteq> None"
  proof
    fix k assume "k \<in> set (step_keys ?db)"
    then have "run_of db (fst k) \<noteq> None \<or> fst k = i" using wf by (auto simp: keys wf_db_def)
    then show "run_of ?db (fst k) \<noteq> None" by (rule run)
  qed
  moreover have "\<forall>k \<in> set (map attempt_key (db_attempts ?db)). step_of ?db (fst k, fst (snd k)) \<noteq> None"
    using wf step unfolding wf_db_def created_db_def by (auto simp del: not_None_eq)
  moreover have "events_ok ?db"
  proof -
    have "events_ok db" using wf by (simp add: wf_db_def)
    then have "\<forall>e \<in> set (db_events db). run_of ?db (ev_run_id e) \<noteq> None \<and>
        uuid_below (Suc (length (db_events db))) (ev_id e)" "distinct (map ev_id (db_events db))"
      using run uuid_below_Suc by (auto simp: events_ok_def simp del: not_None_eq)
    moreover have "db_events ?db = db_events db @ [\<lparr>ev_id = randomUuid db, ev_run_id = i, ev_step_id = None,
          ev_type = ''workflow.created'', ev_level = LevelInfo,
          ev_message = ''Workflow DAG run state created.'', ev_payload = JObj [], ev_timestamp = now\<rparr>]"
      by (simp add: created_db_def)
    ultimately show ?thesis
      using fresh_uuid [OF wf] run [of i] by (auto simp: events_ok_def randomUuid_def simp del: not_None_eq)
  qed
  ultimately show ?thesis by (simp add: wf_db_def)
qed


lemma created_abs:
  assumes wf: "wf_db db" and no: "run_of db i = None"
  shows "abs_dag (created_db db i input now) i = initial_state (cr_stepOrder input) (cr_dependencies input)"
proof -
  have "run_of (created_db db i input now) i = Some (created_row i input now)"
    using created_maps(1) [OF wf no] by simp
  then show ?thesis
    using wf_no_run_no_steps(3) [OF wf no]
    by (auto simp: abs_dag_def initial_state_def created_maps(2-4) [OF wf no] o_def fun_eq_iff)
qed

text \<open>
  The dependencies given to \<open>create\<close> are those of a template: they lie among the steps, and so
  nothing is completed yet and the initial readiness is right.
\<close>

lemma created_ready:
  assumes wf: "wf_db db" and no: "run_of db i = None" and d: "distinct (cr_stepOrder input)"
  shows "readiness_ok (created_db db i input now) i"
proof -
  have "status_of (created_db db i input now) i t \<noteq> Some StepCompleted" for t
    by (simp add: status_of_def created_maps(2) [OF wf no])
  then have "blocking_of (created_db db i input now) i s = step_dependencies s" for s
    by (simp add: blocking_of_def)
  then show ?thesis by (simp add: readiness_ok_def step_ready_ok_def created_maps(4) [OF wf no])
qed

lemma create_eq:
  fixes input :: create_run_input
  assumes wf: "wf_db db" and d: "distinct (cr_stepOrder input)"
    and i: "i = (case cr_id input of Some i \<Rightarrow> i | None \<Rightarrow> ''workflow-run-'' @ fresh)"
  shows "create db fresh input now =
    (if run_of db i = None
     then Inr (created_db db i input now, the (getSnapshot (created_db db i input now) i))
     else Inl (JsError ''UNIQUE constraint failed: workflow_dag_runs.id''))"
proof (cases "run_of db i = None")
  case True
  let ?db1 = "db\<lparr>db_runs := db_runs db @ [created_row i input now]\<rparr>"
  let ?db2 = "?db1\<lparr>db_steps := db_steps ?db1 @ map (initial_step_row i (cr_dependencies input) now) (cr_stepOrder input)\<rparr>"
  let ?db3 = "created_db db i input now"
  have insert: "insertRun db (created_row i input now) = Inr ?db1"
    using True by (simp add: insertRun_def run_of_None)
  have run1: "run_of ?db1 i \<noteq> None" using True by (simp add: run_of_def find_append)
  have "\<forall>sid \<in> set (cr_stepOrder input). (i, sid) \<notin> set (step_keys ?db1)"
    using wf_no_run_no_steps(1) [OF wf True] by (simp add: step_keys_def)
  note steps = foldR_insertStep [OF d this run1, of "cr_dependencies input" now]
  have event: "appendEventInternal ?db2 \<lparr>er_id = randomUuid ?db2, er_runId = i, er_stepId = None,
          er_type = ''workflow.created'', er_level = LevelInfo,
          er_message = ''Workflow DAG run state created.'', er_payload = JObj [],
          er_timestamp = now\<rparr> = Inr ?db3"
    using fresh_uuid [OF wf] by (simp add: appendEventInternal_def created_db_def randomUuid_def)
  have run3: "run_of ?db3 i = Some (created_row i input now)" using created_maps(1) [OF wf True] by simp
  have "create db fresh input now = bindR (requireSnapshot ?db3 i) (\<lambda>s. Inr (?db3, s))"
    unfolding create_def Let_def i [symmetric] created_row_def [symmetric] insert bindR_Inr steps
    using event by simp
  then show ?thesis using True by (simp add: enter_op(1) [OF run3] enter_op(3) [OF run3])
next
  case False
  then show ?thesis by (simp add: create_def Let_def i [symmetric] insertRun_def run_of_None)
qed


definition dag_ok :: "string list \<Rightarrow> (string \<times> string list) list \<Rightarrow> bool" where
  "dag_ok order deps \<longleftrightarrow> distinct order \<and> [] \<notin> set order \<and> distinct (map fst deps) \<and>
     (\<forall>sid \<in> set order. set (lookup_or [] deps sid) \<subseteq> set order) \<and> acyclic (dep_edges deps)"

lemma distinct_js_map: "distinct (map fst (js_map kvs))"
proof -
  have "distinct (map fst m) \<Longrightarrow> distinct (map fst (foldl (\<lambda>m (k, v). AList.update k v m) m kvs))" for m
    by (induction kvs arbitrary: m) (auto intro: distinct_update)
  then show ?thesis by (simp add: js_map_def)
qed

lemma parsed_dag_ok:
  assumes "parseWorkflowTemplateDag tasks p = Inr dag"
  shows "dag_ok (taskOrder dag) (dependenciesByTaskId dag)"
proof -
  have wf: "well_formed_template tasks"
    using assms parse_ill_formed [of tasks p] by (cases "well_formed_template tasks") auto
  then obtain ts where ts: "tasks = JArr ts" by (auto simp: well_formed_template_def split: js.splits)
  let ?V = "template_id ` set ts"
  have d: "distinct (map template_id ts)" and acyc: "acyclic (template_edges ts)"
    and closed: "snd ` template_edges ts \<subseteq> ?V"
    and valid: "\<forall>v \<in> set ts. valid_template_task v"
    using wf by (simp_all add: ts well_formed_template_def)
  obtain dag' where dag': "buildWorkflowTemplateDag ts p = Inr dag'"
    "dependenciesByTaskId dag' = js_map (map (\<lambda>v. (template_id v, js_set (template_deps v))) ts)"
    "greedy_order ?V (deps_of (dependenciesByTaskId dag')) (template_index ts) (taskOrder dag')"
    "set (taskOrder dag') = ?V"
    using build_correct [OF wf [unfolded ts], of p] .
  have same: "dag' = dag" using assms dag'(1) parse_well_formed [of ts p] wf ts by simp
  have "distinct (taskOrder dag)" using greedy_order_closed [OF dag'(3)] same by simp
  moreover have "[] \<notin> ?V" using valid by (auto simp: valid_template_task_def)
  moreover have "\<forall>sid \<in> ?V. set (lookup_or [] (dependenciesByTaskId dag) sid) \<subseteq> ?V"
    using template_edges_deps(2) [OF d dag'(2) closed] unfolding same .
  moreover have "acyclic (dep_edges (dependenciesByTaskId dag))"
    using acyc dep_edges_template [OF d, of 0] dag'(2) unfolding template_task_pairs same by simp
  moreover have "distinct (map fst (dependenciesByTaskId dag))"
    using dag'(2) distinct_js_map unfolding same by simp
  ultimately show ?thesis using dag'(4) by (simp add: dag_ok_def same)
qed

lemma initial_state_inv:
  assumes "dag_ok order deps"
  shows "dag_inv (initial_state order deps)"
proof -
  have pending: "ds_step (initial_state order deps) sid = (if sid \<in> set order then Some (StepPending, 0) else None)" for sid
    by (simp add: initial_state_def)
  have "dag_shape (initial_state order deps)"
    using assms by (auto simp: dag_ok_def dag_shape_def initial_state_def)
  moreover have "\<not> started (initial_state order deps) sid" for sid
    by (simp add: started_def step_is_Some pending)
  then have "deps_first (initial_state order deps)" by (simp add: deps_first_def)
  moreover have "status_sound (initial_state order deps)" "attempts_sound (initial_state order deps)"
    by (simp_all add: status_sound_def attempts_sound_def initial_state_def)
  ultimately show ?thesis by (simp add: dag_inv_def)
qed

section \<open>Runs that are served\<close>

text \<open>
  The databases that operations on runs lead to: runs are created from templates, every operation
  on a run is one that its state allows, and events may be logged at any time.
\<close>

inductive reachable :: "dag_db \<Rightarrow> bool" where
  empty: "reachable \<lparr>db_runs = [], db_steps = [], db_attempts = [], db_events = []\<rparr>"
| created: "reachable db \<Longrightarrow> createRun db fresh request now = Inr (db', snap) \<Longrightarrow> reachable db'"
| op: "reachable db \<Longrightarrow> allowed (abs_dag db i) op \<Longrightarrow> run_op op db i now = Inr (db', snap) \<Longrightarrow> reachable db'"
| event: "reachable db \<Longrightarrow> ei_id input = None \<Longrightarrow> appendEvent db input now = Inr (db', e) \<Longrightarrow> reachable db'"

definition run_inv :: "dag_db \<Rightarrow> string \<Rightarrow> bool" where
  "run_inv db i \<longleftrightarrow> dag_inv (abs_dag db i) \<and> readiness_ok db i \<and>
     acyclic (dep_edges (ds_edges (abs_dag db i)))"

lemma serves_Inr:
  "serves (Inr (db', snap)) db i st \<Longrightarrow> served db i st db' \<and> (readiness_ok db i \<longrightarrow> readiness_ok db' i)"
  by (auto simp: serves_def)

lemma run_op_Inr:
  assumes wf: "wf_db db" and op: "run_op op db i now = Inr (db', snap)"
  shows "served db i (op_spec op (abs_dag db i)) db' \<and> (readiness_ok db i \<longrightarrow> readiness_ok db' i) \<and>
    run_of db i \<noteq> None"
proof -
  obtain r where r: "run_of db i = Some r" using op run_op_no_run [of db i op now] by (cases "run_of db i") auto
  have "step_of db (i, sid) \<noteq> None" if "op_step op = Some sid" for sid
    using run_op_no_step [OF r that] op by (cases "step_of db (i, sid)") auto
  then show ?thesis using serves_Inr run_op_serves [OF wf r, of op now] op r by force
qed

lemma only_run_other:
  assumes "only_run db i db'" "j \<noteq> i"
  shows "abs_dag db' j = abs_dag db j"
  using assms by (simp add: abs_dag_def only_run_def rows_ids)

lemma readiness_ok_cong:
  assumes "wf_db db" "wf_db db'" "\<And>sid. step_of db' (j, sid) = step_of db (j, sid)"
  shows "readiness_ok db' j = readiness_ok db j"
proof -
  have "status_of db' j = status_of db j" using assms(3) by (simp add: status_of_def fun_eq_iff)
  then have "step_ready_ok db' j s = step_ready_ok db j s" for s
    by (simp add: step_ready_ok_def blocking_of_def)
  then show ?thesis using assms by (simp add: readiness_ok_iff)
qed

lemma run_inv_op:
  assumes wf: "wf_db db" and inv: "\<forall>j. run_of db j \<noteq> None \<longrightarrow> run_inv db j"
    and ok: "allowed (abs_dag db i) op" and op: "run_op op db i now = Inr (db', snap)"
  shows "wf_db db' \<and> (\<forall>j. run_of db' j \<noteq> None \<longrightarrow> run_inv db' j)"
proof -
  have sv: "served db i (op_spec op (abs_dag db i)) db'" "readiness_ok db i \<longrightarrow> readiness_ok db' i"
    and r: "run_of db i \<noteq> None"
    using run_op_Inr [OF wf op] by auto
  have wf': "wf_db db'" and abs: "abs_dag db' i = op_spec op (abs_dag db i)" and only: "only_run db i db'"
    using sv by (auto simp: served_def)
  have "run_inv db' j" if j: "run_of db' j \<noteq> None" for j
  proof (cases "j = i")
    case True
    have "run_inv db i" using inv r by blast
    then show ?thesis
      using sv(2) ok dag_inv_op [of "abs_dag db i" op] True by (simp add: run_inv_def abs)
  next
    case False
    then have "run_of db' j = run_of db j" "\<And>sid. step_of db' (j, sid) = step_of db (j, sid)"
      using only by (auto simp: only_run_def)
    then show ?thesis
      using inv j only_run_other [OF only False] readiness_ok_cong [OF wf wf'] by (simp add: run_inv_def)
  qed
  then show ?thesis using wf' by blast
qed


lemma createRun_Inr:
  assumes wf: "wf_db db" and c: "createRun db fresh request now = Inr (db', snap)"
  obtains i input where "run_of db i = None" "db' = created_db db i input now"
    "dag_ok (cr_stepOrder input) (cr_dependencies input)"
    "parseWorkflowTemplateDag (cs_tasks request) tasks_path =
      Inr \<lparr>taskOrder = cr_stepOrder input, dependenciesByTaskId = cr_dependencies input\<rparr>"
    "snap = the (getSnapshot db' i)"
proof -
  obtain dag where dag: "parseWorkflowTemplateDag (cs_tasks request) tasks_path = Inr dag"
    using c by (auto simp: createRun_def bindR_eq_Inr)
  let ?in = "\<lparr>cr_id = cs_runId request, cr_workflowTemplateId = cs_workflowTemplateId request,
          cr_workflowTemplateVersion = cs_workflowTemplateVersion request,
          cr_pluginId = cs_pluginId request, cr_pluginVersion = cs_pluginVersion request,
          cr_stepOrder = taskOrder dag, cr_dependencies = dependenciesByTaskId dag\<rparr>"
  let ?i = "case cs_runId request of Some i \<Rightarrow> i | None \<Rightarrow> ''workflow-run-'' @ fresh"
  have ok: "dag_ok (taskOrder dag) (dependenciesByTaskId dag)" using parsed_dag_ok [OF dag] .
  then have "distinct (cr_stepOrder ?in)" by (simp add: dag_ok_def)
  note eq = create_eq [OF wf this, of ?i fresh now]
  have "create db fresh ?in now = Inr (db', snap)" using c dag by (simp add: createRun_def)
  then have "run_of db ?i = None \<and> db' = created_db db ?i ?in now \<and> snap = the (getSnapshot db' ?i)"
    using eq by (auto split: if_splits)
  then show ?thesis using that [of ?i ?in] ok dag by simp
qed

lemma run_inv_created:
  assumes wf: "wf_db db" and inv: "\<forall>j. run_of db j \<noteq> None \<longrightarrow> run_inv db j"
    and c: "createRun db fresh request now = Inr (db', snap)"
  shows "wf_db db' \<and> (\<forall>j. run_of db' j \<noteq> None \<longrightarrow> run_inv db' j)"
proof -
  obtain i input where no: "run_of db i = None" and db': "db' = created_db db i input now"
    and ok: "dag_ok (cr_stepOrder input) (cr_dependencies input)"
    using createRun_Inr [OF wf c] by metis
  have d: "distinct (cr_stepOrder input)" using ok by (simp add: dag_ok_def)
  have wf': "wf_db db'" using created_wf [OF wf no d] db' by simp
  have "run_inv db' j" if j: "run_of db' j \<noteq> None" for j
  proof (cases "j = i")
    case True
    have "ds_edges (abs_dag db' i) = cr_dependencies input"
      by (simp add: db' created_abs [OF wf no] initial_state_def)
    then show ?thesis
      using initial_state_inv [OF ok] created_ready [OF wf no d] ok True
      by (simp add: run_inv_def db' created_abs [OF wf no] dag_ok_def)
  next
    case False
    have same: "run_of db' j = run_of db j" "\<And>sid. step_of db' (j, sid) = step_of db (j, sid)"
      "\<And>a. attempt_of db' a = attempt_of db a"
      using False by (simp_all add: db' created_maps [OF wf no])
    have "rows_of db' j = rows_of db j" using False by (auto simp: db' created_db_def filter_empty_conv)
    then have "abs_dag db' j = abs_dag db j" by (simp add: abs_dag_def same)
    then show ?thesis
      using inv j same readiness_ok_cong [OF wf wf' same(2)] by (simp add: run_inv_def)
  qed
  then show ?thesis using wf' by blast
qed

lemma reachable_inv: "reachable db \<Longrightarrow> wf_db db \<and> (\<forall>j. run_of db j \<noteq> None \<longrightarrow> run_inv db j)"
proof (induction rule: reachable.induct)
  case empty
  show ?case by (simp add: wf_db_def step_keys_def events_ok_def run_of_def)
next
  case (created db fresh request now db' snap)
  then show ?case using run_inv_created by blast
next
  case (op db i op now db' snap)
  then show ?case using run_inv_op by blast
next
  case (event db input now db' e)
  have "run_of db (ei_runId input) \<noteq> None"
    using event.hyps(3) by (auto simp: appendEvent_def appendEventInternal_def bindR_eq_Inr Let_def run_of_def
        find_None_iff split: if_splits)
  then obtain e' where e': "appendEvent db input now = Inr (put_event e' db, e')" "er_id e' = randomUuid db"
      "er_runId e' = ei_runId input"
    using appendEvent_eq [of db input now] event.IH event.hyps(2) by auto
  then have db': "db' = put_event e' db" using event.hyps(3) by simp
  have "wf_db db'"
    using wf_db_put_event [of db e'] event.IH e' \<open>run_of db (ei_runId input) \<noteq> None\<close> by (simp add: db')
  moreover have "run_of db' j = run_of db j" "abs_dag db' j = abs_dag db j"
      "readiness_ok db' j = readiness_ok db j" for j
    using readiness_ok_cong [of db db' j] event.IH \<open>wf_db db'\<close> by (simp_all add: db')
  ultimately show ?case using event.IH by (simp add: run_inv_def)
qed


lemma reachable_run_inv:
  assumes "reachable db" "step_of db (i, sid) = Some s"
  shows "run_inv db i" "wf_db db"
  using reachable_inv [OF assms(1)] wf_db_step_run [OF _ assms(2)] by auto

lemma step_is_status: "step_is (abs_dag db i) x sid \<longleftrightarrow> status_of db i sid = Some x"
  by (simp add: step_is_def abs_dag_step status_of_def option.map_comp o_def)

lemma started_iff:
  "step_of db (i, sid) = Some s \<Longrightarrow> started (abs_dag db i) sid \<longleftrightarrow>
     step_status_col s \<in> {StepRunning, StepCompleted, StepFailed}"
  by (auto simp: started_def step_is_status status_of_def)

lemma demo_reachable: "reachable demo_created" "reachable demo_started"
proof -
  obtain x where x: "createRun empty_db [] demo_request 10 = Inr x"
    using demo_steps(1) by (cases "createRun empty_db [] demo_request 10") auto
  then have "createRun empty_db [] demo_request 10 = Inr (demo_created, snd x)"
    by (simp add: demo_created_def)
  then show created: "reachable demo_created" by (rule reachable.created [OF reachable.empty])
  have ok: "allowed (abs_dag demo_created ''r1'') (OpStart ''build'')" by code_simp
  obtain y where y: "run_op (OpStart ''build'') demo_created ''r1'' 20 = Inr y"
    using demo_steps(2) by (cases "run_op (OpStart ''build'') demo_created ''r1'' 20") auto
  then have "run_op (OpStart ''build'') demo_created ''r1'' 20 = Inr (demo_started, snd y)"
    by (simp add: demo_started_def)
  then show "reachable demo_started" by (rule reachable.op [OF created ok])
qed

section \<open>Properties\<close>



text \<open>
  C9 Readiness is exact: in every reachable database a step's blocking ids are its dependencies
  that are not completed, and it is flagged ready exactly when it is pending with all
  dependencies completed.
\<close>

theorem ready_iff_startable:
  assumes "reachable db" "step_of db (i, sid) = Some s"
  shows "step_blocking s = filter (\<lambda>d. status_of db i d \<noteq> Some StepCompleted) (step_dependencies s) \<and>
    (step_ready s = 1 \<longleftrightarrow> step_status_col s = StepPending \<and>
       list_all (\<lambda>d. status_of db i d = Some StepCompleted) (step_dependencies s))"
proof -
  have "step_ready_ok db i s"
    using reachable_run_inv [OF assms] assms(2) by (simp add: run_inv_def readiness_ok_iff)
  then show ?thesis
    by (auto simp: step_ready_ok_def blocking_of_def filter_empty_conv list_all_iff)
qed

theorem ready_iff_startable_witness:
  "step_ready (the (step_of demo_created (''r1'', ''build''))) = 1"
proof -
  have st: "map_option (\<lambda>s. (step_status_col s, step_dependencies s)) (step_of demo_created (''r1'', ''build''))
      = Some (StepPending, [])" by code_simp
  then obtain s where s: "step_of demo_created (''r1'', ''build'') = Some s"
    "step_status_col s = StepPending" "step_dependencies s = []" by auto
  then show ?thesis using ready_iff_startable [OF demo_reachable(1) s(1)] by simp
qed



text \<open>
  C15 A run's status is sound in every reachable database: a completed run has only completed
  steps, and a run that is failed or resumable has a failed step to resume from.
\<close>

theorem run_status_sound:
  assumes "reachable db" "run_of db i = Some r"
  shows "(run_status_col r = RunCompleted \<longrightarrow>
      list_all (\<lambda>s. step_status_col s = StepCompleted) (rows_of db i)) \<and>
    (run_status_col r = RunFailed \<or> run_status_col r = RunResumable \<longrightarrow>
      list_ex (\<lambda>s. step_status_col s = StepFailed) (rows_of db i))"
proof -
  have wf: "wf_db db" and "run_inv db i" using reachable_inv [OF assms(1)] assms(2) by auto
  then have "status_sound (abs_dag db i)" by (simp add: run_inv_def dag_inv_def)
  moreover have "ds_order (abs_dag db i) = map step_step_id (rows_of db i)" by (simp add: abs_dag_def)
  ultimately show ?thesis
    using step_is_row [OF wf, of _ i] abs_dag_status [OF assms(2)]
    by (auto simp: status_sound_def list_all_iff list_ex_iff)
qed

theorem run_status_sound_witness:
  "list_ex (\<lambda>s. step_status_col s = StepFailed) (rows_of demo_failed ''r1'')"
proof -
  have ok: "allowed (abs_dag demo_started ''r1'') (OpFail ''build'' (JStr ''no disk''))" by code_simp
  have "\<not> isl (run_op (OpFail ''build'' (JStr ''no disk'')) demo_started ''r1'' 30)" by code_simp
  then obtain y where y: "run_op (OpFail ''build'' (JStr ''no disk'')) demo_started ''r1'' 30 = Inr y"
    by (cases "run_op (OpFail ''build'' (JStr ''no disk'')) demo_started ''r1'' 30") auto
  then have "run_op (OpFail ''build'' (JStr ''no disk'')) demo_started ''r1'' 30 = Inr (demo_failed, snd y)"
    by (simp add: demo_failed_def)
  then have reach: "reachable demo_failed" by (rule reachable.op [OF demo_reachable(2) ok])
  have "map_option run_status_col (run_of demo_failed ''r1'') = Some RunFailed" by code_simp
  then obtain r where "run_of demo_failed ''r1'' = Some r" "run_status_col r = RunFailed" by auto
  then show ?thesis using run_status_sound [OF reach, of "''r1''" r] by simp
qed

end
