(* ===== verification/RetryPolicy.thy ===== *)
theory RetryPolicy
  imports Prelude
begin

text \<open>
  When a failed workflow step is tried again and after how long:
  \<open>control-plane/services/workflow-retry-policy.ts\<close> and the retry decision of
  \<open>workflow-dag-executor.ts\<close>. A policy is read off a task's provenance, an untyped value.

  Delays are computed on integers: the doubles of the code are exact here, because they are
  integers, a power of two times a small one, or the infinity that \<open>Math.min\<close> then cuts to the
  cap (base delays are positive; no caller passes another).
\<close>

section \<open>Definitions\<close>

datatype retry_phase =
  PhRuntimeStart | PhExecution | PhProvider | PhVerification | PhArtifactExport | PhConnectorRateLimit

datatype retry_backoff = BackoffNone | BackoffFixed | BackoffLinear | BackoffExponential

datatype retry_idempotency = ReadOnly | Idempotent | NonIdempotent

datatype external_write_retry = WriteForbid | WriteRequireApproval | WriteAllow

record retry_policy =
  maxAttempts :: int
  backoff :: retry_backoff
  retryableFailurePhases :: "retry_phase list"
  idempotency :: retry_idempotency
  externalWriteRetry :: external_write_retry

text \<open>The type guards, which return the value they recognise.\<close>

definition isRetryBackoff :: "js \<Rightarrow> retry_backoff option" where
  "isRetryBackoff value = (if value = JStr ''none'' then Some BackoffNone
     else if value = JStr ''fixed'' then Some BackoffFixed
     else if value = JStr ''linear'' then Some BackoffLinear
     else if value = JStr ''exponential'' then Some BackoffExponential
     else None)"

definition isRetryFailurePhase :: "js \<Rightarrow> retry_phase option" where
  "isRetryFailurePhase value = (if value = JStr ''runtime-start'' then Some PhRuntimeStart
     else if value = JStr ''execution'' then Some PhExecution
     else if value = JStr ''provider'' then Some PhProvider
     else if value = JStr ''verification'' then Some PhVerification
     else if value = JStr ''artifact-export'' then Some PhArtifactExport
     else if value = JStr ''connector-rate-limit'' then Some PhConnectorRateLimit
     else None)"

definition isRetryIdempotency :: "js \<Rightarrow> retry_idempotency option" where
  "isRetryIdempotency value = (if value = JStr ''read-only'' then Some ReadOnly
     else if value = JStr ''idempotent'' then Some Idempotent
     else if value = JStr ''non-idempotent'' then Some NonIdempotent
     else None)"

definition isExternalWriteRetry :: "js \<Rightarrow> external_write_retry option" where
  "isExternalWriteRetry value = (if value = JStr ''forbid'' then Some WriteForbid
     else if value = JStr ''require-approval'' then Some WriteRequireApproval
     else if value = JStr ''allow'' then Some WriteAllow
     else None)"

definition parseWorkflowTaskRetryPolicy :: "js \<Rightarrow> retry_policy option" where
  "parseWorkflowTaskRetryPolicy provenance =
     (let policy = js_get provenance ''retryPolicy'' in
      if \<not> is_record provenance \<or> \<not> is_record policy then None
      else case (js_get policy ''maxAttempts'', isRetryBackoff (js_get policy ''backoff''),
          js_get policy ''retryableFailurePhases'', isRetryIdempotency (js_get policy ''idempotency''),
          isExternalWriteRetry (js_get policy ''externalWriteRetry'')) of
        (JNum (Fin n), Some b, JArr phases, Some ident, Some write) \<Rightarrow>
          if \<not> is_integer (Fin n) then None
          else (let retryable = List.map_filter isRetryFailurePhase phases in
            if retryable = [] then None
            else Some \<lparr>maxAttempts = \<lfloor>n\<rfloor>, backoff = b, retryableFailurePhases = retryable,
              idempotency = ident, externalWriteRetry = write\<rparr>)
      | _ \<Rightarrow> None)"

definition DEFAULT_RETRY_BASE_DELAY_MS :: int where
  "DEFAULT_RETRY_BASE_DELAY_MS = 1000"

definition MAX_RETRY_DELAY_MS :: int where
  "MAX_RETRY_DELAY_MS = 60000"

definition computeRetryBackoffMs :: "retry_backoff \<Rightarrow> rat \<Rightarrow> int \<Rightarrow> int" where
  "computeRetryBackoffMs b attempt baseMs =
     (let n = max 1 (trunc_rat attempt);
          ms = (case b of
              BackoffNone \<Rightarrow> 0
            | BackoffFixed \<Rightarrow> baseMs
            | BackoffLinear \<Rightarrow> baseMs * n
            | BackoffExponential \<Rightarrow> baseMs * 2 ^ nat (n - 1))
      in min ms MAX_RETRY_DELAY_MS)"

text \<open>What the executor reads of the run of a task, and its decision.\<close>

record task_run =
  tr_status :: string
  tr_failure :: js
  tr_verificationStatus :: "string option"

datatype retry_reason =
  NoPolicy | Exhausted | PhaseNotRetryable | UnsafeNonIdempotentWrite | Eligible

record retry_decision =
  rd_retry :: bool
  rd_reason :: retry_reason
  rd_phase :: retry_phase
  rd_attempt :: int
  rd_maxAttempts :: int

definition classifyRetryFailurePhase :: "js \<Rightarrow> task_run \<Rightarrow> retry_phase" where
  "classifyRetryFailurePhase failure taskRun =
     (if tr_verificationStatus taskRun = Some ''verification-failed'' then PhVerification
      else if is_record failure \<and> js_get failure ''status'' = JInt 429 then PhConnectorRateLimit
      else case (if is_record failure then isRetryFailurePhase (js_get failure ''phase'') else None) of
        Some phase \<Rightarrow> phase
      | None \<Rightarrow>
          if is_record failure \<and> js_get failure ''phase'' = JStr ''start'' then PhRuntimeStart
          else if is_record failure \<and> js_get failure ''phase'' = JStr ''artifact'' then PhArtifactExport
          else if is_record failure \<and> js_get failure ''phase'' = JStr ''provider'' then PhProvider
          else if tr_status taskRun = ''stopped-by-limit'' then PhExecution
          else PhExecution)"

definition evaluateRetryDecision :: "js \<Rightarrow> int \<Rightarrow> task_run \<Rightarrow> retry_decision" where
  "evaluateRetryDecision provenance attempt taskRun =
     (let phase = classifyRetryFailurePhase (tr_failure taskRun) taskRun;
          decide = (\<lambda>retry reason m. \<lparr>rd_retry = retry, rd_reason = reason, rd_phase = phase,
            rd_attempt = attempt, rd_maxAttempts = m\<rparr>)
      in case parseWorkflowTaskRetryPolicy provenance of
        None \<Rightarrow> decide False NoPolicy 1
      | Some policy \<Rightarrow>
          if attempt \<ge> maxAttempts policy then decide False Exhausted (maxAttempts policy)
          else if phase \<notin> set (retryableFailurePhases policy)
          then decide False PhaseNotRetryable (maxAttempts policy)
          else if idempotency policy = NonIdempotent \<and> externalWriteRetry policy \<noteq> WriteAllow
          then decide False UnsafeNonIdempotentWrite (maxAttempts policy)
          else decide True Eligible (maxAttempts policy))"

section \<open>Lemmas\<close>

text \<open>What a policy is, written on the values of the provenance.\<close>

definition is_policy :: "js \<Rightarrow> retry_policy \<Rightarrow> bool" where
  "is_policy provenance p \<longleftrightarrow> (\<exists>policy phases.
     is_record provenance \<and> js_get provenance ''retryPolicy'' = policy \<and> is_record policy \<and>
     js_get policy ''maxAttempts'' = JInt (maxAttempts p) \<and>
     isRetryBackoff (js_get policy ''backoff'') = Some (backoff p) \<and>
     js_get policy ''retryableFailurePhases'' = JArr phases \<and>
     retryableFailurePhases p = List.map_filter isRetryFailurePhase phases \<and>
     retryableFailurePhases p \<noteq> [] \<and>
     isRetryIdempotency (js_get policy ''idempotency'') = Some (idempotency p) \<and>
     isExternalWriteRetry (js_get policy ''externalWriteRetry'') = Some (externalWriteRetry p))"

lemma parse_policy_iff:
  "parseWorkflowTaskRetryPolicy provenance = Some p \<longleftrightarrow> is_policy provenance p"
  by (auto simp: parseWorkflowTaskRetryPolicy_def is_policy_def Let_def
      split: js.splits jsnum.splits option.splits if_splits)

lemma backoff_cap: "computeRetryBackoffMs b attempt baseMs \<le> MAX_RETRY_DELAY_MS"
  by (simp add: computeRetryBackoffMs_def Let_def)

lemma backoff_nonneg: "0 \<le> baseMs \<Longrightarrow> 0 \<le> computeRetryBackoffMs b attempt baseMs"
  by (auto simp: computeRetryBackoffMs_def Let_def MAX_RETRY_DELAY_MS_def split: retry_backoff.splits)

lemma trunc_rat_mono:
  assumes "x \<le> y"
  shows "trunc_rat x \<le> trunc_rat y"
proof (cases "0 \<le> x \<or> \<not> 0 \<le> y")
  case True
  then show ?thesis using assms by (auto simp: trunc_rat_def floor_mono ceiling_mono)
next
  case False
  then have "\<lceil>x\<rceil> \<le> 0" "0 \<le> \<lfloor>y\<rfloor>" by (auto simp: ceiling_le_iff le_floor_iff)
  then have "\<lceil>x\<rceil> \<le> \<lfloor>y\<rfloor>" by linarith
  then show ?thesis using False by (simp add: trunc_rat_def)
qed

lemma backoff_mono:
  assumes "0 \<le> baseMs" "x \<le> y"
  shows "computeRetryBackoffMs b x baseMs \<le> computeRetryBackoffMs b y baseMs"
proof -
  have n: "max 1 (trunc_rat x) \<le> max 1 (trunc_rat y)" using trunc_rat_mono [OF assms(2)] by simp
  then have pow: "(2::int) ^ nat (max 1 (trunc_rat x) - 1) \<le> 2 ^ nat (max 1 (trunc_rat y) - 1)"
    by (intro power_increasing) auto
  have "baseMs * max 1 (trunc_rat x) \<le> baseMs * max 1 (trunc_rat y)"
    using n assms(1) by (rule mult_left_mono)
  moreover have "baseMs * 2 ^ nat (max 1 (trunc_rat x) - 1) \<le> baseMs * 2 ^ nat (max 1 (trunc_rat y) - 1)"
    using pow assms(1) by (rule mult_left_mono)
  ultimately show ?thesis
    by (simp only: computeRetryBackoffMs_def Let_def split: retry_backoff.splits)
      (auto intro: min.mono simp del: min_less_iff_conj min.bounded_iff)
qed

section \<open>Properties\<close>


definition demo_provenance :: js where
  "demo_provenance = JObj [(''retryPolicy'', JObj [(''maxAttempts'', JInt 3),
     (''backoff'', JStr ''linear''), (''retryableFailurePhases'', JArr [JStr ''provider'', JStr ''other'']),
     (''idempotency'', JStr ''idempotent''), (''externalWriteRetry'', JStr ''forbid'')])]"

definition demo_policy :: retry_policy where
  "demo_policy = \<lparr>maxAttempts = 3, backoff = BackoffLinear, retryableFailurePhases = [PhProvider],
     idempotency = Idempotent, externalWriteRetry = WriteForbid\<rparr>"


text \<open>
  Retry delays: for a non-negative base the delay lies between 0 and the cap of one minute
  and never decreases with the attempt number; up to the cap the n-th retry waits base times n
  (linear) or base times 2 to the n-1 (exponential), and attempts below 1 count as the first.
\<close>

theorem backoff_correct:
  assumes "0 \<le> baseMs" "x \<le> y"
  shows "0 \<le> computeRetryBackoffMs b x baseMs \<and> computeRetryBackoffMs b x baseMs \<le> 60000 \<and>
    computeRetryBackoffMs b x baseMs \<le> computeRetryBackoffMs b y baseMs \<and>
    computeRetryBackoffMs BackoffLinear (of_nat (Suc n)) baseMs = min (baseMs * int (Suc n)) 60000 \<and>
    computeRetryBackoffMs BackoffExponential (of_nat (Suc n)) baseMs = min (baseMs * 2 ^ n) 60000 \<and>
    (x < 1 \<longrightarrow> computeRetryBackoffMs b x baseMs = computeRetryBackoffMs b 1 baseMs)"
proof -
  have nat: "trunc_rat (of_nat (Suc n)) = int (Suc n)" by (simp add: trunc_rat_def)
  have low: "max 1 (trunc_rat x) = max 1 (trunc_rat 1)" if "x < 1"
    using that by (auto simp: trunc_rat_def max_def floor_le_iff ceiling_le_iff)
  have "computeRetryBackoffMs b x baseMs = computeRetryBackoffMs b 1 baseMs" if "x < 1"
    unfolding computeRetryBackoffMs_def low [OF that] ..
  then show ?thesis
    using backoff_nonneg [OF assms(1)] backoff_cap backoff_mono [OF assms]
    unfolding MAX_RETRY_DELAY_MS_def
    by (simp add: computeRetryBackoffMs_def Let_def MAX_RETRY_DELAY_MS_def nat [simplified])
qed

theorem backoff_correct_witness:
  "computeRetryBackoffMs BackoffExponential 3 1000 \<le> computeRetryBackoffMs BackoffExponential 9 1000"
  using backoff_correct [of 1000 3 9 BackoffExponential 0] by simp

end
