(* ===== verification/LeaseLock.thy ===== *)
theory LeaseLock
  imports Prelude
begin

text \<open>
  Distributed locks with leases: the interface \<open>IDistributedLock\<close> of
  \<open>control-plane/distributed-lock/types.ts\<close> as a locale, with the in-memory provider
  (\<open>local-memory.ts\<close>) and the file provider (\<open>local-file.ts\<close>) as its interpretations. The
  Redis and Kubernetes providers are in \<open>RedisLock\<close> and \<open>K8sLock\<close>, the client that bounds the
  number of concurrent runs in \<open>ConcurrencyLimit\<close>.

  An operation reads the clock once; the token of a grant is the value \<open>randomUUID\<close> drew.
\<close>

section \<open>The interface\<close>

record acquire_request =
  aq_lockName :: string
  aq_ownerId :: string
  aq_leaseMs :: jsnum

record release_request =
  rl_lockName :: string
  rl_ownerId :: string
  rl_token :: string

record grant =
  gr_lockName :: string
  gr_ownerId :: string
  gr_token :: string
  gr_acquiredAt :: time
  gr_expiresAt :: time

datatype acquire_result = Acquired grant | NotAcquired

text \<open>The check every provider starts with.\<close>

definition lease_error :: error where
  "lease_error = AthenaError CONFIG_ERROR ''Distributed lock leaseMs must be a positive integer.'' False"

fun valid_lease :: "jsnum \<Rightarrow> bool" where
  "valid_lease (Fin r) = (is_integer (Fin r) \<and> 0 < r)"
| "valid_lease _ = False"

fun lease_ms :: "jsnum \<Rightarrow> int" where
  "lease_ms (Fin r) = \<lfloor>r\<rfloor>"
| "lease_ms _ = 0"

lemma lease_ms_pos [simp]:
  assumes "valid_lease n"
  shows "0 < lease_ms n"
proof (cases n)
  case (Fin r)
  then have "of_int \<lfloor>r\<rfloor> = r" "0 < r" using assms by auto
  then show ?thesis using Fin by (metis lease_ms.simps(1) of_int_0_less_iff)
qed (use assms in auto)

lemma valid_lease_int [simp]: "valid_lease (Fin (of_int i)) = (0 < i)" "lease_ms (Fin (of_int i)) = i"
  by simp_all

text \<open>
  \<open>holder s t l\<close>: identity of the holder and end of the lease under which lock \<open>l\<close> is held at
  time \<open>t\<close>, if no further operation happens before \<open>t\<close>. The identity is what the provider stores
  of an owner and its token.
\<close>

definition lasts :: "('i \<times> time) option \<Rightarrow> time \<Rightarrow> ('i \<times> time) option" where
  "lasts h t = (case h of Some (i, e) \<Rightarrow> if t < e then h else None | None \<Rightarrow> None)"

lemma lasts_None [simp]: "lasts None t = None"
  by (simp add: lasts_def)

lemma lasts_Some: "lasts h t = Some x \<Longrightarrow> h = Some x"
  by (auto simp: lasts_def split: option.splits if_splits)

text \<open>
  The contract. \<open>inv\<close> is what a provider needs of its state. A lock is granted exactly when it
  is free, for at least the lease asked for; a denied request changes nothing; a release ends
  the lease of its own owner and token and no other; otherwise a lease ends only with time.
\<close>

text \<open>A sequence of calls and the grant of each, if it is an acquisition that succeeds.\<close>

datatype lock_op = Acquire (op_time: time) string acquire_request | Release (op_time: time) release_request

fun run_locks :: "('s \<Rightarrow> time \<Rightarrow> string \<Rightarrow> acquire_request \<Rightarrow> ('s \<times> acquire_result) result) \<Rightarrow>
    ('s \<Rightarrow> time \<Rightarrow> release_request \<Rightarrow> 's) \<Rightarrow> 's \<Rightarrow> lock_op list \<Rightarrow> grant option list" where
  "run_locks acq rel s [] = []"
| "run_locks acq rel s (Release now r # ops) = None # run_locks acq rel (rel s now r) ops"
| "run_locks acq rel s (Acquire now tok q # ops) =
     (case acq s now tok q of
        Inl _ \<Rightarrow> None # run_locks acq rel s ops
      | Inr (s', NotAcquired) \<Rightarrow> None # run_locks acq rel s' ops
      | Inr (s', Acquired g) \<Rightarrow> Some g # run_locks acq rel s' ops)"

definition frees :: "(string \<Rightarrow> string \<Rightarrow> 'i) \<Rightarrow> grant \<Rightarrow> lock_op \<Rightarrow> bool" where
  "frees ident g x = (case x of
     Release now r \<Rightarrow> rl_lockName r = gr_lockName g \<and>
       ident (rl_ownerId r) (rl_token r) = ident (gr_ownerId g) (gr_token g)
   | Acquire _ _ _ \<Rightarrow> False)"

abbreviation releases :: "grant \<Rightarrow> lock_op \<Rightarrow> bool" where
  "releases \<equiv> frees Pair"

lemma frees_inject: "frees ident g x \<Longrightarrow> (\<And>ow tok ow' tok'. ident ow tok = ident ow' tok' \<Longrightarrow>
    ow = ow' \<and> tok = tok') \<Longrightarrow> releases g x"
  by (auto simp: frees_def split: lock_op.splits)

locale lease_lock =
  fixes try_acquire :: "'s \<Rightarrow> time \<Rightarrow> string \<Rightarrow> acquire_request \<Rightarrow> ('s \<times> acquire_result) result"
    and release :: "'s \<Rightarrow> time \<Rightarrow> release_request \<Rightarrow> 's"
    and holder :: "'s \<Rightarrow> time \<Rightarrow> string \<Rightarrow> ('i \<times> time) option"
    and ident :: "string \<Rightarrow> string \<Rightarrow> 'i"
    and inv :: "'s \<Rightarrow> bool"
  assumes invalid_lease: "\<not> valid_lease (aq_leaseMs q) \<Longrightarrow> try_acquire s now tok q = Inl lease_error"
    and held: "inv s \<Longrightarrow> valid_lease (aq_leaseMs q) \<Longrightarrow> holder s now (aq_lockName q) \<noteq> None \<Longrightarrow>
      \<exists>s'. try_acquire s now tok q = Inr (s', NotAcquired) \<and> inv s' \<and>
        (\<forall>t l. now \<le> t \<longrightarrow> holder s' t l = holder s t l)"
    and free: "inv s \<Longrightarrow> valid_lease (aq_leaseMs q) \<Longrightarrow> holder s now (aq_lockName q) = None \<Longrightarrow>
      \<exists>s' e. now + lease_ms (aq_leaseMs q) \<le> e \<and> inv s' \<and>
        try_acquire s now tok q = Inr (s', Acquired \<lparr>gr_lockName = aq_lockName q,
          gr_ownerId = aq_ownerId q, gr_token = tok, gr_acquiredAt = now,
          gr_expiresAt = now + lease_ms (aq_leaseMs q)\<rparr>) \<and>
        (\<forall>t l. now \<le> t \<longrightarrow> holder s' t l =
          (if l = aq_lockName q then lasts (Some (ident (aq_ownerId q) tok, e)) t else holder s t l))"
    and release_inv: "inv s \<Longrightarrow> inv (release s now r)"
    and released: "inv s \<Longrightarrow> now \<le> t \<Longrightarrow> holder (release s now r) t l =
      (if l = rl_lockName r \<and> (\<exists>e. holder s t l = Some (ident (rl_ownerId r) (rl_token r), e)) then None
       else holder s t l)"
    and expires: "inv s \<Longrightarrow> now \<le> t \<Longrightarrow> holder s t l = lasts (holder s now l) t"
begin

text \<open>What the laws give a client.\<close>

lemma acquire_total:
  "inv s \<Longrightarrow> valid_lease (aq_leaseMs q) \<Longrightarrow> \<exists>s' r. try_acquire s now tok q = Inr (s', r) \<and> inv s'"
  using held [of s q now tok] free [of s q now tok] by (cases "holder s now (aq_lockName q)") auto

lemma acquired_iff_free:
  assumes "inv s" "valid_lease (aq_leaseMs q)"
  shows "(\<exists>s' g. try_acquire s now tok q = Inr (s', Acquired g)) \<longleftrightarrow> holder s now (aq_lockName q) = None"
  using held [OF assms, of now tok] free [OF assms, of now tok]
  by (cases "holder s now (aq_lockName q)") auto

lemma acquire_cases:
  assumes "inv s" "try_acquire s now tok q = Inr (s', res)"
  obtains (denied) "res = NotAcquired" "holder s now (aq_lockName q) \<noteq> None" "inv s'"
      "\<And>t l. now \<le> t \<Longrightarrow> holder s' t l = holder s t l"
    | (granted) e where "holder s now (aq_lockName q) = None" "inv s'"
      "now + lease_ms (aq_leaseMs q) \<le> e" "valid_lease (aq_leaseMs q)"
      "res = Acquired \<lparr>gr_lockName = aq_lockName q, gr_ownerId = aq_ownerId q, gr_token = tok,
         gr_acquiredAt = now, gr_expiresAt = now + lease_ms (aq_leaseMs q)\<rparr>"
      "\<And>t l. now \<le> t \<Longrightarrow> holder s' t l =
          (if l = aq_lockName q then lasts (Some (ident (aq_ownerId q) tok, e)) t else holder s t l)"
proof -
  have v: "valid_lease (aq_leaseMs q)"
    using assms(2) invalid_lease by (cases "valid_lease (aq_leaseMs q)") auto
  show ?thesis
  proof (cases "holder s now (aq_lockName q)")
    case None
    then show ?thesis using free [OF assms(1) v None, of tok] assms(2) granted v by auto
  next
    case (Some h)
    then show ?thesis using held [OF assms(1) v, of now tok] assms(2) denied by auto
  qed
qed

lemma acquired_holds:
  assumes "inv s" "try_acquire s now tok q = Inr (s', Acquired g)" "now \<le> t" "t < gr_expiresAt g"
  shows "\<exists>e. holder s' t (aq_lockName q) = Some (ident (aq_ownerId q) tok, e)"
  using assms(1,2)
proof (cases rule: acquire_cases)
  case (granted e)
  then show ?thesis using assms(3,4) by (auto simp: lasts_def)
qed simp

lemma others_cannot_release:
  assumes "inv s" "now \<le> t" "holder s t l = Some (i, e)"
    and "ident (rl_ownerId r) (rl_token r) \<noteq> i \<or> rl_lockName r \<noteq> l"
  shows "holder (release s now r) t l = Some (i, e)"
  using released [OF assms(1,2), of r l] assms(3,4) by auto

lemma others_cannot_acquire:
  assumes "inv s" "try_acquire s now tok q = Inr (s', res)" "now \<le> t" "holder s t l = Some h"
  shows "holder s' t l = Some h"
  using assms(1,2)
proof (cases rule: acquire_cases)
  case denied
  then show ?thesis using assms(3,4) by simp
next
  case (granted e)
  have "holder s now l = Some h"
    using expires [OF assms(1,3), of l] assms(4) lasts_Some [of "holder s now l" t h] by simp
  then show ?thesis using granted assms(3,4) by auto
qed

lemma owner_frees:
  assumes "inv s" "now \<le> t" "holder s t l = Some (ident ow tok, e)"
  shows "holder (release s now \<lparr>rl_lockName = l, rl_ownerId = ow, rl_token = tok\<rparr>) t l = None"
  using released [OF assms(1,2), of "\<lparr>rl_lockName = l, rl_ownerId = ow, rl_token = tok\<rparr>" l] assms(3)
  by simp

text \<open>
  A lease excludes others: while it lasts and its owner does not release it, no call is granted
  the lock.
\<close>

lemma held_through:
  assumes "inv s" "sorted (map op_time ops)" "\<forall>x \<in> set ops. now \<le> op_time x"
    and "\<And>t. now \<le> t \<Longrightarrow> t < e \<Longrightarrow> holder s t l = Some (i, e)"
    and "j < length ops" "run_locks try_acquire release s ops ! j = Some g'" "gr_lockName g' = l"
    and "\<forall>x \<in> set (take j ops). \<forall>now r. x = Release now r \<longrightarrow>
      rl_lockName r \<noteq> l \<or> ident (rl_ownerId r) (rl_token r) \<noteq> i"
  shows "e \<le> gr_acquiredAt g'"
  using assms
proof (induction ops arbitrary: s now j)
  case (Cons x ops)
  note step = Cons.IH [where now = "op_time x"]
  show ?case
  proof (cases x)
    case (Release t r)
    then obtain m where j: "j = Suc m" using Cons.prems(6) by (cases j) auto
    have "holder (release s t r) u l = Some (i, e)" if "t \<le> u" "u < e" for u
      using others_cannot_release [OF Cons.prems(1) that(1), of l i e r] Cons.prems(3,4,8) that
        Release j by auto
    then show ?thesis
      using step [of "release s t r" m] Cons.prems release_inv Release j by simp
  next
    case (Acquire t tk q)
    show ?thesis
    proof (cases "try_acquire s t tk q")
      case (Inl er)
      then obtain m where j: "j = Suc m" using Cons.prems(6) Acquire by (cases j) auto
      show ?thesis using step [of s m] Cons.prems Acquire Inl j by simp
    next
      case (Inr p)
      obtain s' res where p: "p = (s', res)" by (cases p)
      have held: "holder s' u l = Some (i, e)" if "t \<le> u" "u < e" for u
        using others_cannot_acquire [OF Cons.prems(1), of t tk q s' res u l] Inr p that
          Cons.prems(3,4) Acquire by auto
      have inv': "inv s'"
        using Inr p by (auto elim: acquire_cases [OF Cons.prems(1)])
      show ?thesis
      proof (cases j)
        case 0
        then obtain g where g: "res = Acquired g" "g = g'"
          using Cons.prems(6) Acquire Inr p by (cases res) auto
        then have none: "holder s t (aq_lockName q) = None" "g' = \<lparr>gr_lockName = aq_lockName q,
            gr_ownerId = aq_ownerId q, gr_token = tk, gr_acquiredAt = t,
            gr_expiresAt = t + lease_ms (aq_leaseMs q)\<rparr>"
          using Inr p by (auto elim: acquire_cases [OF Cons.prems(1)])
        then show ?thesis using Cons.prems(3,4,7) Acquire by (metis grant.select_convs(1,4) leI
              list.set_intros(1) lock_op.sel(1) option.distinct(1))
      next
        case (Suc m)
        have "run_locks try_acquire release s' ops ! m = Some g'"
          using Cons.prems(6) Acquire Inr p Suc by (cases res) auto
        then show ?thesis using step [of s' m] Cons.prems held inv' Acquire Suc by simp
      qed
    qed
  qed
qed simp

lemma exclusive:
  assumes "inv s" "sorted (map op_time ops)" "i < j" "j < length ops"
    and "run_locks try_acquire release s ops ! i = Some g" "run_locks try_acquire release s ops ! j = Some g'"
    and "gr_lockName g = gr_lockName g'" "gr_acquiredAt g' < gr_expiresAt g"
  shows "\<exists>k. i < k \<and> k < j \<and> frees ident g (ops ! k)"
  using assms
proof (induction ops arbitrary: s i j)
  case (Cons x ops)
  obtain j' where j: "j = Suc j'" using Cons.prems(3) by (cases j) auto
  show ?case
  proof (cases i)
    case (Suc i')
    have "\<exists>s'. inv s' \<and> run_locks try_acquire release s (x # ops) ! i = run_locks try_acquire release s' ops ! i' \<and>
        run_locks try_acquire release s (x # ops) ! j = run_locks try_acquire release s' ops ! j'"
    proof (cases x)
      case (Release t r)
      then show ?thesis using release_inv [OF Cons.prems(1)] Suc j by auto
    next
      case (Acquire t tk q)
      show ?thesis
      proof (cases "try_acquire s t tk q")
        case (Inr p)
        obtain s' res where p: "p = (s', res)" by (cases p)
        have "inv s'" using Inr p by (auto elim: acquire_cases [OF Cons.prems(1)])
        then show ?thesis using Acquire Inr p Suc j by (cases res) auto
      qed (use Cons.prems(1) Acquire Suc j in auto)
    qed
    then obtain s' where s': "inv s'"
        "run_locks try_acquire release s' ops ! i' = Some g" "run_locks try_acquire release s' ops ! j' = Some g'"
      using Cons.prems(5,6) by auto
    obtain k where "i' < k" "k < j'" "frees ident g (ops ! k)"
      using Cons.IH [OF s'(1) _ _ _ s'(2,3)] Cons.prems(2,3,4,7,8) Suc j by auto
    then show ?thesis using Suc j by (intro exI [of _ "Suc k"]) simp
  next
    case 0
    obtain t tk q where x: "x = Acquire t tk q"
      using Cons.prems(5) 0 by (cases x) auto
    obtain s' where s': "try_acquire s t tk q = Inr (s', Acquired g)"
      using Cons.prems(5) 0 x by (auto split: sum.splits acquire_result.splits)
    obtain e where e: "gr_expiresAt g \<le> e" "inv s'" "gr_lockName g = aq_lockName q"
        "gr_ownerId g = aq_ownerId q" "gr_token g = tk"
        "\<And>u. t \<le> u \<Longrightarrow> holder s' u (aq_lockName q) = lasts (Some (ident (aq_ownerId q) tk, e)) u"
      using Cons.prems(1) s' by (cases rule: acquire_cases) auto
    have nth: "run_locks try_acquire release s' ops ! j' = Some g'" using Cons.prems(6) x s' j by simp
    have held: "t \<le> u \<Longrightarrow> u < e \<Longrightarrow>
        holder s' u (gr_lockName g) = Some (ident (gr_ownerId g) (gr_token g), e)" for u
      using e by (simp add: lasts_def)
    show ?thesis
    proof (rule ccontr)
      assume no: "\<not> ?thesis"
      have "rl_lockName r \<noteq> gr_lockName g \<or> ident (rl_ownerId r) (rl_token r) \<noteq> ident (gr_ownerId g) (gr_token g)"
        if y: "y \<in> set (take j' ops)" "y = Release u r" for y u r
      proof -
        obtain k where "k < j'" "ops ! k = y" using y(1) Cons.prems(4) j by (auto simp: in_set_conv_nth)
        then show ?thesis using no y(2) 0 j by (fastforce simp: frees_def)
      qed
      then have "e \<le> gr_acquiredAt g'"
        using held_through [OF e(2) _ _ held _ nth, where now = t] Cons.prems(2,4,7) x j by auto
      then show False using e(1) Cons.prems(8) by simp
    qed
  qed
qed simp

end

section \<open>The in-memory provider\<close>

record memory_record =
  mr_lockName :: string
  mr_ownerId :: string
  mr_token :: string
  mr_acquiredAtMs :: time
  mr_expiresAtMs :: time

type_synonym memory_locks = "string \<Rightarrow> memory_record option"

definition memory_shouldReclaim :: "time \<Rightarrow> memory_record \<Rightarrow> bool" where
  "memory_shouldReclaim now r \<longleftrightarrow> mr_expiresAtMs r \<le> now"

definition memory_tryAcquire :: "memory_locks \<Rightarrow> time \<Rightarrow> string \<Rightarrow> acquire_request \<Rightarrow>
    (memory_locks \<times> acquire_result) result" where
  "memory_tryAcquire locks now tok request =
     (if \<not> valid_lease (aq_leaseMs request) then Inl lease_error
      else if (case locks (aq_lockName request) of
          Some current \<Rightarrow> \<not> memory_shouldReclaim now current | None \<Rightarrow> False)
      then Inr (locks, NotAcquired)
      else
        (let r = \<lparr>mr_lockName = aq_lockName request, mr_ownerId = aq_ownerId request, mr_token = tok,
               mr_acquiredAtMs = now, mr_expiresAtMs = now + lease_ms (aq_leaseMs request)\<rparr>
         in Inr (locks(aq_lockName request \<mapsto> r),
              Acquired \<lparr>gr_lockName = mr_lockName r, gr_ownerId = mr_ownerId r, gr_token = mr_token r,
                gr_acquiredAt = mr_acquiredAtMs r, gr_expiresAt = mr_expiresAtMs r\<rparr>)))"

definition memory_release :: "memory_locks \<Rightarrow> time \<Rightarrow> release_request \<Rightarrow> memory_locks" where
  "memory_release locks now request =
     (case locks (rl_lockName request) of
        None \<Rightarrow> locks
      | Some current \<Rightarrow>
          if mr_ownerId current \<noteq> rl_ownerId request \<or> mr_token current \<noteq> rl_token request then locks
          else locks(rl_lockName request := None))"

definition memory_holder :: "memory_locks \<Rightarrow> time \<Rightarrow> string \<Rightarrow> ((string \<times> string) \<times> time) option" where
  "memory_holder locks t l = (case locks l of
     Some r \<Rightarrow> if memory_shouldReclaim t r then None else Some ((mr_ownerId r, mr_token r), mr_expiresAtMs r)
   | None \<Rightarrow> None)"

definition memory_after :: "memory_locks \<Rightarrow> time \<Rightarrow> string \<Rightarrow> acquire_request \<Rightarrow> memory_locks" where
  "memory_after locks now tok q = locks(aq_lockName q \<mapsto> \<lparr>mr_lockName = aq_lockName q,
     mr_ownerId = aq_ownerId q, mr_token = tok, mr_acquiredAtMs = now,
     mr_expiresAtMs = now + lease_ms (aq_leaseMs q)\<rparr>)"

interpretation memory: lease_lock memory_tryAcquire memory_release memory_holder Pair "\<lambda>_. True"
proof (unfold_locales, goal_cases)
  case (1 q s now tok)
  then show ?case by (simp add: memory_tryAcquire_def)
next
  case (2 s q now tok)
  then show ?case by (auto simp: memory_tryAcquire_def memory_holder_def split: option.splits if_splits)
next
  case (3 s q now tok)
  then have "memory_tryAcquire s now tok q = Inr (memory_after s now tok q,
      Acquired \<lparr>gr_lockName = aq_lockName q, gr_ownerId = aq_ownerId q, gr_token = tok,
        gr_acquiredAt = now, gr_expiresAt = now + lease_ms (aq_leaseMs q)\<rparr>)"
    by (auto simp: memory_tryAcquire_def memory_holder_def memory_after_def split: option.splits if_splits)
  moreover have "memory_holder (memory_after s now tok q) t l =
      (if l = aq_lockName q then lasts (Some ((aq_ownerId q, tok), now + lease_ms (aq_leaseMs q))) t
       else memory_holder s t l)" for t l
    by (auto simp: memory_holder_def memory_shouldReclaim_def memory_after_def lasts_def)
  ultimately show ?case by blast
next
  case (5 s now t r l)
  then show ?case
    by (auto simp: memory_release_def memory_holder_def split: option.splits)
next
  case (6 s now t l)
  then show ?case
    by (auto simp: memory_holder_def memory_shouldReclaim_def lasts_def split: option.splits)
qed simp

section \<open>The file provider\<close>

text \<open>
  The record files of the lock directory, by lock name: a file's path is the SHA-256 of the name,
  taken to be free of collisions. A file holds a JSON value, or text that is not JSON. Both
  operations run while holding the directory's session lock (theory \<open>SessionLock\<close>), so each is
  one step. \<open>alive\<close> are the processes that signal 0 finds; \<open>self\<close> is the process that runs the
  operation; \<open>isoStr\<close> and \<open>dateParse\<close> stand for \<open>toISOString\<close> and \<open>Date.parse\<close>.
\<close>

record file_record =
  fr_schemaVersion :: jsnum
  fr_lockName :: string
  fr_ownerId :: string
  fr_token :: string
  fr_pid :: jsnum
  fr_acquiredAt :: string
  fr_expiresAt :: string

record file_world =
  fw_files :: "string \<Rightarrow> file_content option"
  fw_alive :: "int set"

definition lock_json :: "file_record \<Rightarrow> js" where
  "lock_json r = JObj [(''schemaVersion'', JNum (fr_schemaVersion r)), (''lockName'', JStr (fr_lockName r)),
     (''ownerId'', JStr (fr_ownerId r)), (''token'', JStr (fr_token r)), (''pid'', JNum (fr_pid r)),
     (''acquiredAt'', JStr (fr_acquiredAt r)), (''expiresAt'', JStr (fr_expiresAt r))]"

text \<open>\<open>process.kill\<close> rejects a pid that is not an integer with an error other than ESRCH.\<close>

fun isPidAlive :: "int set \<Rightarrow> jsnum \<Rightarrow> bool" where
  "isPidAlive alive (Fin r) = (if r \<le> 0 then False else if is_integer (Fin r) then \<lfloor>r\<rfloor> \<in> alive else True)"
| "isPidAlive alive _ = False"

definition parse_lock_record :: "js \<Rightarrow> file_record option" where
  "parse_lock_record v =
     (case (js_get v ''lockName'', js_get v ''ownerId'', js_get v ''token'', js_get v ''pid'',
         js_get v ''acquiredAt'', js_get v ''expiresAt'') of
        (JStr lockName, JStr ownerId, JStr token, JNum pid, JStr acquiredAt, JStr expiresAt) \<Rightarrow>
          Some \<lparr>fr_schemaVersion = (case js_get v ''schemaVersion'' of
                 JNum (Fin n) \<Rightarrow> if is_integer (Fin n) \<and> 0 < n then Fin n else Fin 1
               | _ \<Rightarrow> Fin 1),
             fr_lockName = lockName, fr_ownerId = ownerId, fr_token = token, fr_pid = pid,
             fr_acquiredAt = acquiredAt, fr_expiresAt = expiresAt\<rparr>
      | _ \<Rightarrow> None)"

definition readLock :: "file_world \<Rightarrow> string \<Rightarrow> file_record option" where
  "readLock w l = (case fw_files w l of Some (Json v) \<Rightarrow> parse_lock_record v | _ \<Rightarrow> None)"

definition file_shouldReclaim :: "(string \<Rightarrow> time option) \<Rightarrow> file_world \<Rightarrow> time \<Rightarrow> file_record \<Rightarrow> bool" where
  "file_shouldReclaim dateParse w now r =
     (if \<not> isPidAlive (fw_alive w) (fr_pid r) then True
      else case dateParse (fr_acquiredAt r) of None \<Rightarrow> True
      | Some _ \<Rightarrow> (case dateParse (fr_expiresAt r) of None \<Rightarrow> True | Some e \<Rightarrow> e \<le> now))"

definition file_tryAcquire :: "(time \<Rightarrow> string) \<Rightarrow> (string \<Rightarrow> time option) \<Rightarrow> int \<Rightarrow> file_world \<Rightarrow> time \<Rightarrow>
    string \<Rightarrow> acquire_request \<Rightarrow> (file_world \<times> acquire_result) result" where
  "file_tryAcquire isoStr dateParse self w now tok request =
     (if \<not> valid_lease (aq_leaseMs request) then Inl lease_error
      else (let l = aq_lockName request; current = readLock w l in
        if (case current of Some c \<Rightarrow> \<not> file_shouldReclaim dateParse w now c | None \<Rightarrow> False)
        then Inr (w, NotAcquired)
        else
          (let w' = (if current \<noteq> None then w\<lparr>fw_files := (fw_files w)(l := None)\<rparr> else w);
               e = now + lease_ms (aq_leaseMs request);
               r = \<lparr>fr_schemaVersion = Fin 1, fr_lockName = l, fr_ownerId = aq_ownerId request, fr_token = tok,
                    fr_pid = Fin (of_int self), fr_acquiredAt = isoStr now, fr_expiresAt = isoStr e\<rparr>
           in Inr (w'\<lparr>fw_files := (fw_files w')(l \<mapsto> Json (lock_json r))\<rparr>,
                Acquired \<lparr>gr_lockName = l, gr_ownerId = aq_ownerId request, gr_token = tok,
                  gr_acquiredAt = now, gr_expiresAt = e\<rparr>))))"

definition file_release :: "file_world \<Rightarrow> time \<Rightarrow> release_request \<Rightarrow> file_world" where
  "file_release w now request =
     (let l = rl_lockName request in
      case readLock w l of
        None \<Rightarrow> w
      | Some current \<Rightarrow>
          if fr_token current \<noteq> rl_token request \<or> fr_ownerId current \<noteq> rl_ownerId request then w
          else w\<lparr>fw_files := (fw_files w)(l := None)\<rparr>)"

definition file_holder :: "(string \<Rightarrow> time option) \<Rightarrow> file_world \<Rightarrow> time \<Rightarrow> string \<Rightarrow>
    ((string \<times> string) \<times> time) option" where
  "file_holder dateParse w t l = (case readLock w l of
     Some r \<Rightarrow> if file_shouldReclaim dateParse w t r then None
       else Some ((fr_ownerId r, fr_token r), the (dateParse (fr_expiresAt r)))
   | None \<Rightarrow> None)"

definition file_after :: "(time \<Rightarrow> string) \<Rightarrow> int \<Rightarrow> file_world \<Rightarrow> time \<Rightarrow> string \<Rightarrow> acquire_request \<Rightarrow>
    file_world" where
  "file_after isoStr self w now tok q = w\<lparr>fw_files := (fw_files w)(aq_lockName q \<mapsto>
     Json (lock_json \<lparr>fr_schemaVersion = Fin 1, fr_lockName = aq_lockName q, fr_ownerId = aq_ownerId q,
       fr_token = tok, fr_pid = Fin (of_int self), fr_acquiredAt = isoStr now,
       fr_expiresAt = isoStr (now + lease_ms (aq_leaseMs q))\<rparr>))\<rparr>"

lemma readLock_upd [simp]:
  "readLock (w\<lparr>fw_files := f\<rparr>) l = (case f l of Some (Json v) \<Rightarrow> parse_lock_record v | _ \<Rightarrow> None)"
  by (simp add: readLock_def)

lemma parse_lock_json [simp]: "fr_schemaVersion r = Fin 1 \<Longrightarrow> parse_lock_record (lock_json r) = Some r"
  by (cases r) (simp add: parse_lock_record_def lock_json_def)

lemma file_reclaim_upd [simp]: "file_shouldReclaim dp (w\<lparr>fw_files := f\<rparr>) = file_shouldReclaim dp w"
  by (simp add: file_shouldReclaim_def fun_eq_iff)

lemma file_readLock_holder:
  "readLock w l = readLock w' l \<Longrightarrow> fw_alive w = fw_alive w' \<Longrightarrow> file_holder dp w t l = file_holder dp w' t l"
  by (simp add: file_holder_def file_shouldReclaim_def split: option.split)

definition file_inv :: "(time \<Rightarrow> string) \<Rightarrow> (string \<Rightarrow> time option) \<Rightarrow> int \<Rightarrow> file_world \<Rightarrow> bool" where
  "file_inv isoStr dateParse self w \<longleftrightarrow> 0 < self \<and> self \<in> fw_alive w \<and> (\<forall>t. dateParse (isoStr t) = Some t)"

text \<open>The process that acquires is running: signal 0 finds it.\<close>

interpretation filelock: lease_lock "file_tryAcquire isoStr dateParse self" file_release "file_holder dateParse"
    Pair "file_inv isoStr dateParse self" for isoStr dateParse self
proof (unfold_locales, goal_cases)
  case (1 q s now tok)
  then show ?case by (simp add: file_tryAcquire_def)
next
  case (2 s q now tok)
  then show ?case by (auto simp: file_tryAcquire_def file_holder_def Let_def split: option.splits if_splits)
next
  case (3 s q now tok)
  then have "file_tryAcquire isoStr dateParse self s now tok q = Inr (file_after isoStr self s now tok q,
      Acquired \<lparr>gr_lockName = aq_lockName q, gr_ownerId = aq_ownerId q, gr_token = tok,
        gr_acquiredAt = now, gr_expiresAt = now + lease_ms (aq_leaseMs q)\<rparr>)"
    by (auto simp: file_tryAcquire_def file_holder_def file_after_def Let_def split: option.splits if_splits)
  moreover have "file_holder dateParse (file_after isoStr self s now tok q) t l =
      (if l = aq_lockName q then lasts (Some ((aq_ownerId q, tok), now + lease_ms (aq_leaseMs q))) t
       else file_holder dateParse s t l)" for t l
  proof (cases "l = aq_lockName q")
    case True
    then show ?thesis using 3(1)
      by (simp add: file_holder_def file_after_def lasts_def file_shouldReclaim_def file_inv_def)
  next
    case False
    then show ?thesis by (simp add: file_after_def) (rule file_readLock_holder; simp add: readLock_def)
  qed
  moreover have "file_inv isoStr dateParse self (file_after isoStr self s now tok q)"
    using 3(1) by (simp add: file_after_def file_inv_def)
  ultimately show ?case
    by (intro exI [of _ "file_after isoStr self s now tok q"] exI [of _ "now + lease_ms (aq_leaseMs q)"]) simp
next
  case (4 s now r)
  then show ?case by (auto simp: file_release_def file_inv_def Let_def split: option.splits)
next
  case (5 s now t r l)
  then show ?case
    by (auto simp: file_release_def file_holder_def Let_def split: option.splits)
      (auto simp: readLock_def)
next
  case (6 s now t l)
  then show ?case
    by (auto simp: file_holder_def file_shouldReclaim_def lasts_def split: option.splits if_splits)
qed

section \<open>Properties\<close>

text \<open>
  C13 Mutual exclusion of the local locks. Take any sequence of acquisitions and releases in
  order of time, on the in-memory provider from any state or on the file provider run by a live
  process from any state of its directory. If two acquisitions of the same lock are granted and
  the second before the lease of the first has ended, the owner of the first released it in
  between, with its own token.
\<close>

theorem local_locks_exclusive:
  assumes "run = run_locks memory_tryAcquire memory_release m \<or>
      file_inv isoStr dateParse self w \<and> run = run_locks (file_tryAcquire isoStr dateParse self) file_release w"
    and "sorted (map op_time ops)" "i < j" "j < length ops"
    and "run ops ! i = Some g" "run ops ! j = Some g'"
    and "gr_lockName g = gr_lockName g'" "gr_acquiredAt g' < gr_expiresAt g"
  shows "\<exists>k. i < k \<and> k < j \<and> releases g (ops ! k)"
  using assms memory.exclusive [of ops i j m g g'] filelock.exclusive [of isoStr dateParse self w ops i j g g'] by auto

text \<open>Two owners of one lock, on a directory with the lease of a dead process and an unreadable file.\<close>

definition demo_lock_ops :: "lock_op list" where
  "demo_lock_ops =
    [Acquire 0 ''t1'' \<lparr>aq_lockName = ''l'', aq_ownerId = ''a'', aq_leaseMs = Fin 100\<rparr>,
     Acquire 5 ''t2'' \<lparr>aq_lockName = ''l'', aq_ownerId = ''b'', aq_leaseMs = Fin 100\<rparr>,
     Release 7 \<lparr>rl_lockName = ''l'', rl_ownerId = ''b'', rl_token = ''t1''\<rparr>,
     Release 9 \<lparr>rl_lockName = ''l'', rl_ownerId = ''a'', rl_token = ''t1''\<rparr>,
     Acquire 12 ''t3'' \<lparr>aq_lockName = ''l'', aq_ownerId = ''b'', aq_leaseMs = Fin 100\<rparr>]"

definition demo_file_world :: file_world where
  "demo_file_world = \<lparr>fw_files = [''l'' \<mapsto> Json (lock_json \<lparr>fr_schemaVersion = Fin 1,
     fr_lockName = ''l'', fr_ownerId = ''c'', fr_token = ''t0'', fr_pid = Fin 9,
     fr_acquiredAt = demo_iso 0, fr_expiresAt = demo_iso 900\<rparr>), ''m'' \<mapsto> NotJson], fw_alive = {7}\<rparr>"

definition demo_grant :: "string \<Rightarrow> string \<Rightarrow> time \<Rightarrow> grant" where
  "demo_grant ow tok t = \<lparr>gr_lockName = ''l'', gr_ownerId = ow, gr_token = tok,
     gr_acquiredAt = t, gr_expiresAt = t + 100\<rparr>"

lemma demo_local_runs:
  "run_locks memory_tryAcquire memory_release Map.empty demo_lock_ops =
     [Some (demo_grant ''a'' ''t1'' 0), None, None, None, Some (demo_grant ''b'' ''t3'' 12)]"
  "run_locks (file_tryAcquire demo_iso demo_date 7) file_release demo_file_world demo_lock_ops =
     [Some (demo_grant ''a'' ''t1'' 0), None, None, None, Some (demo_grant ''b'' ''t3'' 12)]"
  by (simp_all add: demo_lock_ops_def demo_file_world_def demo_grant_def memory_tryAcquire_def
      memory_release_def memory_shouldReclaim_def file_tryAcquire_def file_release_def
      file_shouldReclaim_def readLock_def Let_def demo_iso_inverse)

lemma local_locks_exclusive_witness:
  "run_locks (file_tryAcquire demo_iso demo_date 7) file_release demo_file_world demo_lock_ops =
     [Some (demo_grant ''a'' ''t1'' 0), None, None, None, Some (demo_grant ''b'' ''t3'' 12)] \<and>
   (\<exists>k. 0 < k \<and> k < 4 \<and> releases (demo_grant ''a'' ''t1'' 0) (demo_lock_ops ! k))"
  using local_locks_exclusive [of "run_locks (file_tryAcquire demo_iso demo_date 7) file_release demo_file_world" Map.empty
      demo_iso demo_date 7 demo_file_world demo_lock_ops 0 4 "demo_grant ''a'' ''t1'' 0" "demo_grant ''b'' ''t3'' 12"]
    demo_local_runs
  by (simp add: demo_file_world_def file_inv_def demo_iso_inverse) (simp add: demo_lock_ops_def demo_grant_def)

end
