(* ===== verification/RedisLock.thy ===== *)
theory RedisLock
  imports LeaseLock
begin

text \<open>
  The Redis provider of distributed locks, \<open>control-plane/distributed-lock/redis.ts\<close>. The Redis
  client is not part of the repository: its two commands are arguments of the provider's
  operations, and what the provider relies on is the locale \<open>redis_client\<close>, the documented
  behaviour of \<open>SET key value PX ms NX\<close> and of the compare-and-delete script. Each command is
  one atomic step of the server; \<open>None\<close> is a rejected promise.
\<close>

section \<open>JSON text of a string\<close>

text \<open>\<open>JSON.stringify\<close> of a string: its quote and the escapes of its characters.\<close>

definition hex_digit :: "nat \<Rightarrow> char" where
  "hex_digit n = char_of (if n < 10 then 48 + n else 87 + n)"

definition json_char :: "char \<Rightarrow> string" where
  "json_char c =
    (if c = CHR 0x22 then [CHR 0x5C, CHR 0x22]
     else if c = CHR 0x5C then [CHR 0x5C, CHR 0x5C]
     else if c = CHR 0x08 then [CHR 0x5C, CHR ''b'']
     else if c = CHR 0x09 then [CHR 0x5C, CHR ''t'']
     else if c = CHR 0x0A then [CHR 0x5C, CHR ''n'']
     else if c = CHR 0x0C then [CHR 0x5C, CHR ''f'']
     else if c = CHR 0x0D then [CHR 0x5C, CHR ''r'']
     else if of_char c < (32::nat)
       then CHR 0x5C # ''u00'' @ [hex_digit (of_char c div 16), hex_digit (of_char c mod 16)]
     else [c])"

definition json_string :: "string \<Rightarrow> string" where
  "json_string s = CHR 0x22 # concat (map json_char s) @ [CHR 0x22]"

text \<open>Reading it back: the characters up to the closing quote, and what follows.\<close>

definition hex_value :: "char \<Rightarrow> nat" where
  "hex_value c = (let n = of_char c in if n < 58 then n - 48 else n - 87)"

definition unescape :: "char \<Rightarrow> char" where
  "unescape e = (if e = CHR ''b'' then CHR 0x08 else if e = CHR ''t'' then CHR 0x09
     else if e = CHR ''n'' then CHR 0x0A else if e = CHR ''f'' then CHR 0x0C
     else if e = CHR ''r'' then CHR 0x0D else e)"

fun read_chars :: "string \<Rightarrow> (string \<times> string) option" where
  "read_chars [] = None"
| "read_chars (c # cs) =
     (if c = CHR 0x22 then Some ([], cs)
      else if c = CHR 0x5C then
        (case cs of
           [] \<Rightarrow> None
         | e # cs' \<Rightarrow>
             if e = CHR ''u'' then
               (case cs' of
                  _ # _ # h # l # cs'' \<Rightarrow>
                    map_option (\<lambda>(s, r). (char_of (16 * hex_value h + hex_value l) # s, r)) (read_chars cs'')
                | _ \<Rightarrow> None)
             else map_option (\<lambda>(s, r). (unescape e # s, r)) (read_chars cs'))
      else map_option (\<lambda>(s, r). (c # s, r)) (read_chars cs))"

lemma hex_value_digit [simp]: "n < 16 \<Longrightarrow> hex_value (hex_digit n) = n"
  by (simp add: hex_value_def hex_digit_def)

lemma read_json_char:
  "read_chars (json_char c @ r) = map_option (\<lambda>(s, r). (c # s, r)) (read_chars r)"
proof -
  consider "c \<in> {CHR 0x22, CHR 0x5C, CHR 0x08, CHR 0x09, CHR 0x0A, CHR 0x0C, CHR 0x0D}"
    | "c \<notin> {CHR 0x22, CHR 0x5C, CHR 0x08, CHR 0x09, CHR 0x0A, CHR 0x0C, CHR 0x0D}" "(of_char c :: nat) < 32"
    | "c \<notin> {CHR 0x22, CHR 0x5C, CHR 0x08, CHR 0x09, CHR 0x0A, CHR 0x0C, CHR 0x0D}" "\<not> (of_char c :: nat) < 32"
    by blast
  then show ?thesis
  proof cases
    case 1
    then show ?thesis by (auto simp: json_char_def unescape_def)
  next
    case 2
    then have "char_of (16 * hex_value (hex_digit (of_char c div 16)) +
        hex_value (hex_digit (of_char c mod 16))) = c"
      by (simp add: less_mult_imp_div_less)
    then show ?thesis using 2 by (simp add: json_char_def)
  qed (simp add: json_char_def)
qed

lemma read_json_string: "read_chars (concat (map json_char s) @ CHR 0x22 # r) = Some (s, r)"
  by (induction s) (simp_all add: read_json_char)

lemma json_string_inject: "json_string s @ r = json_string s' @ r' \<Longrightarrow> s = s' \<and> r = r'"
proof -
  assume "json_string s @ r = json_string s' @ r'"
  then have "concat (map json_char s) @ CHR 0x22 # r = concat (map json_char s') @ CHR 0x22 # r'"
    by (simp add: json_string_def)
  then show ?thesis using read_json_string [of s r] read_json_string [of s' r']
    by (metis option.inject prod.inject)
qed

lemma json_string_eq [simp]: "json_string s = json_string s' \<longleftrightarrow> s = s'"
  using json_string_inject [of s "[]" s' "[]"] by auto

section \<open>The provider\<close>

type_synonym 'r redis_set = "'r \<Rightarrow> time \<Rightarrow> string \<Rightarrow> string \<Rightarrow> int \<Rightarrow> 'r \<times> bool option"
type_synonym 'r redis_eval = "'r \<Rightarrow> time \<Rightarrow> string \<Rightarrow> string \<Rightarrow> 'r \<times> bool"

definition REDIS_LOCK_KEY_PREFIX :: string where
  "REDIS_LOCK_KEY_PREFIX = ''athena:lock:''"

text \<open>The constructor: the key prefix of a provider.\<close>

definition redis_provider :: "string \<Rightarrow> string option \<Rightarrow> string result" where
  "redis_provider redisUrl keyPrefix =
     (if trim redisUrl = [] then Inl (AthenaError CONFIG_ERROR
        ''ATHENA_REDIS_URL is required when distributed lock provider is redis.'' False)
      else Inr (case keyPrefix of Some p \<Rightarrow> p | None \<Rightarrow> REDIS_LOCK_KEY_PREFIX))"

definition resolveLockKey :: "string \<Rightarrow> string \<Rightarrow> string" where
  "resolveLockKey keyPrefix lockName = keyPrefix @ lockName"

definition serializeOwnerToken :: "string \<Rightarrow> string \<Rightarrow> string" where
  "serializeOwnerToken ownerId token =
     CHR ''{'' # json_string ''ownerId'' @ '':'' @ json_string ownerId @ '','' @
     json_string ''token'' @ '':'' @ json_string token @ ''}''"

definition redis_error :: "string \<Rightarrow> string \<Rightarrow> error" where
  "redis_error action lockName = AthenaError SESSION_IO_ERROR
     (''Failed to '' @ action @ '' distributed lock via Redis for '' @ lockName @ ''.'') True"

definition redis_tryAcquire :: "'r redis_set \<Rightarrow> string \<Rightarrow> 'r \<Rightarrow> time \<Rightarrow> string \<Rightarrow> acquire_request \<Rightarrow>
    'r \<times> acquire_result result" where
  "redis_tryAcquire setNX keyPrefix server now token request =
     (if \<not> valid_lease (aq_leaseMs request) then (server, Inl lease_error)
      else
        (let key = resolveLockKey keyPrefix (aq_lockName request);
             v = serializeOwnerToken (aq_ownerId request) token
         in case setNX server now key v (lease_ms (aq_leaseMs request)) of
           (server', None) \<Rightarrow> (server', Inl (redis_error ''acquire'' (aq_lockName request)))
         | (server', Some False) \<Rightarrow> (server', Inr NotAcquired)
         | (server', Some True) \<Rightarrow> (server', Inr (Acquired \<lparr>gr_lockName = aq_lockName request,
             gr_ownerId = aq_ownerId request, gr_token = token, gr_acquiredAt = now,
             gr_expiresAt = now + lease_ms (aq_leaseMs request)\<rparr>))))"

definition redis_release :: "'r redis_eval \<Rightarrow> string \<Rightarrow> 'r \<Rightarrow> time \<Rightarrow> release_request \<Rightarrow> 'r \<times> unit result" where
  "redis_release eval keyPrefix server now request =
     (case eval server now (resolveLockKey keyPrefix (rl_lockName request))
         (serializeOwnerToken (rl_ownerId request) (rl_token request)) of
        (server', True) \<Rightarrow> (server', Inr ())
      | (server', False) \<Rightarrow> (server', Inl (redis_error ''release'' (rl_lockName request))))"

lemma serializeOwnerToken_inject [simp]:
  "serializeOwnerToken ow tok = serializeOwnerToken ow' tok' \<longleftrightarrow> ow = ow' \<and> tok = tok'"
  unfolding serializeOwnerToken_def by (auto dest!: json_string_inject)

lemma resolveLockKey_inject [simp]: "resolveLockKey p l = resolveLockKey p l' \<longleftrightarrow> l = l'"
  by (simp add: resolveLockKey_def)

section \<open>The contract\<close>

text \<open>
  The documented behaviour of the two commands while the connection holds: \<open>entry s k\<close> is the
  value last set for a key, with the end of its time to live, and counts as missing from then on.
\<close>

locale redis_client =
  fixes setNX :: "'r redis_set" and eval :: "'r redis_eval"
    and entry :: "'r \<Rightarrow> string \<Rightarrow> (string \<times> time) option"
  assumes set_reply: "snd (setNX s now k v ms) =
      Some (case entry s k of Some (_, e) \<Rightarrow> e \<le> now | None \<Rightarrow> True)"
    and set_entry: "entry (fst (setNX s now k v ms)) k' =
      (if k' = k \<and> (case entry s k of Some (_, e) \<Rightarrow> e \<le> now | None \<Rightarrow> True) then Some (v, now + ms)
       else entry s k')"
    and eval_reply: "snd (eval s now k v)"
    and eval_entry: "entry (fst (eval s now k v)) k' =
      (if k' = k \<and> (case entry s k of Some (v', e) \<Rightarrow> now < e \<and> v' = v | None \<Rightarrow> False) then None
       else entry s k')"

text \<open>The lease a key stands for, and the provider's operations in the shape of \<open>lease_lock\<close>.\<close>

definition redis_holder :: "('r \<Rightarrow> string \<Rightarrow> (string \<times> time) option) \<Rightarrow> string \<Rightarrow> 'r \<Rightarrow> time \<Rightarrow> string \<Rightarrow>
    (string \<times> time) option" where
  "redis_holder entry p s t l = lasts (entry s (resolveLockKey p l)) t"

definition redis_try :: "'r redis_set \<Rightarrow> string \<Rightarrow> 'r \<Rightarrow> time \<Rightarrow> string \<Rightarrow> acquire_request \<Rightarrow>
    ('r \<times> acquire_result) result" where
  "redis_try setNX p s now tok q = (case redis_tryAcquire setNX p s now tok q of
     (s', Inl e) \<Rightarrow> Inl e | (s', Inr r) \<Rightarrow> Inr (s', r))"

definition redis_free :: "'r redis_eval \<Rightarrow> string \<Rightarrow> 'r \<Rightarrow> time \<Rightarrow> release_request \<Rightarrow> 'r" where
  "redis_free eval p s now r = fst (redis_release eval p s now r)"

lemma redis_free_eval: "redis_free eval p s now r =
    fst (eval s now (resolveLockKey p (rl_lockName r)) (serializeOwnerToken (rl_ownerId r) (rl_token r)))"
  by (simp add: redis_free_def redis_release_def split: prod.splits bool.splits)

sublocale redis_client \<subseteq> redis: lease_lock "redis_try setNX p" "redis_free eval p"
    "redis_holder entry p" serializeOwnerToken "\<lambda>_. True" for p
proof (unfold_locales, goal_cases)
  case (1 q s now tok)
  then show ?case by (simp add: redis_try_def redis_tryAcquire_def)
next
  case (2 s q now tok)
  obtain v e where entry: "entry s (resolveLockKey p (aq_lockName q)) = Some (v, e)" and e: "now < e"
    using 2(3) by (auto simp: redis_holder_def lasts_def split: option.splits if_splits)
  obtain s' b where "setNX s now (resolveLockKey p (aq_lockName q))
      (serializeOwnerToken (aq_ownerId q) tok) (lease_ms (aq_leaseMs q)) = (s', b)"
    by fastforce
  then have s': "setNX s now (resolveLockKey p (aq_lockName q))
      (serializeOwnerToken (aq_ownerId q) tok) (lease_ms (aq_leaseMs q)) = (s', Some False)"
    using set_reply [of s now "resolveLockKey p (aq_lockName q)" "serializeOwnerToken (aq_ownerId q) tok"
        "lease_ms (aq_leaseMs q)"] entry e by simp
  have "entry s' k = entry s k" for k
    using set_entry [of s now "resolveLockKey p (aq_lockName q)" "serializeOwnerToken (aq_ownerId q) tok"
        "lease_ms (aq_leaseMs q)" k] s' entry e by (simp split: if_splits)
  then show ?case using 2(1,2) s'
    by (auto simp: redis_try_def redis_tryAcquire_def redis_holder_def)
next
  case (3 s q now tok)
  let ?k = "resolveLockKey p (aq_lockName q)" and ?v = "serializeOwnerToken (aq_ownerId q) tok"
  have free: "case entry s ?k of Some (_, e) \<Rightarrow> e \<le> now | None \<Rightarrow> True"
    using 3(3) by (auto simp: redis_holder_def lasts_def split: option.splits if_splits)
  obtain s' b where "setNX s now ?k ?v (lease_ms (aq_leaseMs q)) = (s', b)"
    by fastforce
  then have s': "setNX s now ?k ?v (lease_ms (aq_leaseMs q)) = (s', Some True)"
    using set_reply [of s now ?k ?v "lease_ms (aq_leaseMs q)"] free by simp
  have en: "entry s' k = (if k = ?k then Some (?v, now + lease_ms (aq_leaseMs q)) else entry s k)" for k
    using set_entry [of s now ?k ?v "lease_ms (aq_leaseMs q)" k] s' free by simp
  have "redis_try setNX p s now tok q = Inr (s', Acquired \<lparr>gr_lockName = aq_lockName q,
      gr_ownerId = aq_ownerId q, gr_token = tok, gr_acquiredAt = now,
      gr_expiresAt = now + lease_ms (aq_leaseMs q)\<rparr>)"
    using 3(2) s' by (simp add: redis_try_def redis_tryAcquire_def)
  moreover have "redis_holder entry p s' t l = (if l = aq_lockName q
      then lasts (Some (?v, now + lease_ms (aq_leaseMs q))) t
      else redis_holder entry p s t l)" for t l
    by (simp add: redis_holder_def en lasts_def)
  ultimately show ?case by blast
next
  case (5 s now t r l)
  then show ?case
    by (auto simp: redis_free_eval redis_holder_def eval_entry lasts_def split: option.splits)
next
  case (6 s now t l)
  then show ?case by (auto simp: redis_holder_def lasts_def split: option.splits)
qed simp

context redis_client begin

lemma locks_exclusive:
  assumes "sorted (map op_time ops)" "i < j" "j < length ops"
    and "run_locks (redis_try setNX p) (redis_free eval p) s ops ! i = Some g"
    and "run_locks (redis_try setNX p) (redis_free eval p) s ops ! j = Some g'"
    and "gr_lockName g = gr_lockName g'" "gr_acquiredAt g' < gr_expiresAt g"
  shows "\<exists>k. i < k \<and> k < j \<and> releases g (ops ! k)"
proof -
  obtain k where "i < k" "k < j" "frees serializeOwnerToken g (ops ! k)"
    using redis.exclusive [of ops i j p s g g'] assms by auto
  then show ?thesis by (intro exI [of _ k]) (auto elim: frees_inject)
qed

end

text \<open>The documented commands on a store of values with an end of life.\<close>

type_synonym redis_store = "string \<Rightarrow> (string \<times> time) option"

definition store_set :: "redis_store redis_set" where
  "store_set st now k v ms =
     (if (case st k of Some (_, e) \<Rightarrow> e \<le> now | None \<Rightarrow> True) then (st(k \<mapsto> (v, now + ms)), Some True)
      else (st, Some False))"

definition store_eval :: "redis_store redis_eval" where
  "store_eval st now k v =
     (if (case st k of Some (v', e) \<Rightarrow> now < e \<and> v' = v | None \<Rightarrow> False) then st(k := None) else st, True)"

interpretation store: redis_client store_set store_eval "\<lambda>st. st"
  by unfold_locales (simp_all add: store_set_def store_eval_def)

section \<open>Properties\<close>

text \<open>
  C26 Mutual exclusion of Redis locks. On any client whose commands behave as documented and
  from any state of the server: of two grants of one lock of which the
  second comes before the lease of the first has ended, the first was released in between by its
  owner with its token.
\<close>

theorem redis_locks_exclusive:
  assumes "redis_client setNX eval entry"
    and "sorted (map op_time ops)" "i < j" "j < length ops"
    and "run_locks (redis_try setNX p) (redis_free eval p) s ops ! i = Some g"
    and "run_locks (redis_try setNX p) (redis_free eval p) s ops ! j = Some g'"
    and "gr_lockName g = gr_lockName g'" "gr_acquiredAt g' < gr_expiresAt g"
  shows "\<exists>k. i < k \<and> k < j \<and> releases g (ops ! k)"
  by (rule redis_client.locks_exclusive [OF assms])

lemma demo_redis_run:
  "run_locks (redis_try store_set ''p:'') (redis_free store_eval ''p:'') Map.empty demo_lock_ops =
     [Some (demo_grant ''a'' ''t1'' 0), None, None, None, Some (demo_grant ''b'' ''t3'' 12)]"
  by (simp add: demo_lock_ops_def demo_grant_def redis_try_def redis_tryAcquire_def redis_free_eval
      store_set_def store_eval_def Let_def)

lemma redis_locks_exclusive_witness:
  "run_locks (redis_try store_set ''p:'') (redis_free store_eval ''p:'') Map.empty demo_lock_ops =
     [Some (demo_grant ''a'' ''t1'' 0), None, None, None, Some (demo_grant ''b'' ''t3'' 12)] \<and>
   (\<exists>k. 0 < k \<and> k < 4 \<and> releases (demo_grant ''a'' ''t1'' 0) (demo_lock_ops ! k))"
  using redis_locks_exclusive [OF store.redis_client_axioms, of demo_lock_ops 0 4 "''p:''" Map.empty
      "demo_grant ''a'' ''t1'' 0" "demo_grant ''b'' ''t3'' 12"] demo_redis_run
  by simp (simp add: demo_lock_ops_def demo_grant_def)

end
