(* ===== verification/K8sLock.thy ===== *)
theory K8sLock
  imports LeaseLock
begin

text \<open>
  The Kubernetes provider of distributed locks, \<open>control-plane/distributed-lock/k8s-lease.ts\<close>.
  The Lease API is not part of the repository: its read, create and delete calls are arguments,
  and what the provider relies on of them is the locale \<open>lease_api\<close>.

  A call of the provider makes several API calls, between which other processes make theirs. So
  \<open>tryAcquire\<close> and \<open>release\<close> are step functions that make one API call each, and the system of
  all processes is the step relation \<open>k8s_step\<close>; alone, a call takes at most three steps, and
  then the provider is a \<open>lease_lock\<close>.
\<close>

section \<open>Leases and the API\<close>

text \<open>A time field is a \<open>Date\<close> (invalid: \<open>None\<close>), a string (not a date: \<open>None\<close>) or anything else.\<close>

datatype k8s_time = TsDate "time option" | TsString "time option" | TsOther

record k8s_lease =
  kl_holderIdentity :: "string option"
  kl_leaseDurationSeconds :: "jsnum option"
  kl_acquireTime :: k8s_time
  kl_renewTime :: k8s_time

datatype 'a api_reply = ApiOk 'a | ApiError js

type_synonym 'k lease_read = "'k \<Rightarrow> string \<Rightarrow> string \<Rightarrow> k8s_lease api_reply"
type_synonym 'k lease_create = "'k \<Rightarrow> string \<Rightarrow> string \<Rightarrow> k8s_lease \<Rightarrow> 'k \<times> unit api_reply"
type_synonym 'k lease_delete = "'k \<Rightarrow> string \<Rightarrow> string \<Rightarrow> 'k \<times> unit api_reply"

definition getK8sErrorCode :: "js \<Rightarrow> jsnum option" where
  "getK8sErrorCode error =
     (case js_get error ''code'' of JNum n \<Rightarrow> Some n
      | _ \<Rightarrow> (case js_get error ''statusCode'' of JNum n \<Rightarrow> Some n | _ \<Rightarrow> None))"

definition isK8sNotFound :: "js \<Rightarrow> bool" where
  "isK8sNotFound error \<longleftrightarrow> getK8sErrorCode error = Some (Fin 404)"

definition isK8sConflict :: "js \<Rightarrow> bool" where
  "isK8sConflict error \<longleftrightarrow> getK8sErrorCode error = Some (Fin 409)"

definition wrapK8sLockError :: "string \<Rightarrow> string \<Rightarrow> error" where
  "wrapK8sLockError action lockName = AthenaError SESSION_IO_ERROR
     (''Failed to '' @ action @ '' distributed lock via Kubernetes Lease for '' @ lockName @ ''.'') True"

text \<open>The value of a time field: the outer option is undefined, the inner one \<open>NaN\<close>.\<close>

fun parseK8sTimestampMs :: "k8s_time \<Rightarrow> time option option" where
  "parseK8sTimestampMs (TsDate t) = Some t"
| "parseK8sTimestampMs (TsString (Some t)) = Some (Some t)"
| "parseK8sTimestampMs (TsString None) = None"
| "parseK8sTimestampMs TsOther = None"

definition parseLeaseObservedAtMs :: "k8s_lease \<Rightarrow> time option option" where
  "parseLeaseObservedAtMs lease =
     (case parseK8sTimestampMs (kl_renewTime lease) of
        Some t \<Rightarrow> Some t
      | None \<Rightarrow> parseK8sTimestampMs (kl_acquireTime lease))"

definition shouldReclaimLease :: "time \<Rightarrow> k8s_lease \<Rightarrow> bool" where
  "shouldReclaimLease now lease =
     (case kl_leaseDurationSeconds lease of
        Some (Fin d) \<Rightarrow>
          if \<not> is_integer (Fin d) \<or> d \<le> 0 then True
          else (case parseLeaseObservedAtMs lease of
              None \<Rightarrow> True
            | Some None \<Rightarrow> False
            | Some (Some t) \<Rightarrow> t + \<lfloor>d\<rfloor> * 1000 \<le> now)
      | _ \<Rightarrow> True)"

definition K8S_LOCK_NAME_PREFIX :: string where
  "K8S_LOCK_NAME_PREFIX = ''athena-lock-''"

text \<open>\<open>hash\<close> is the first forty hexadecimal digits of the SHA-256 of a string.\<close>

definition resolveLeaseName :: "(string \<Rightarrow> string) \<Rightarrow> string \<Rightarrow> string" where
  "resolveLeaseName hash lockName = K8S_LOCK_NAME_PREFIX @ hash lockName"

definition serializeHolderIdentity :: "string \<Rightarrow> string \<Rightarrow> string" where
  "serializeHolderIdentity ownerId token = ownerId @ '':'' @ token"

definition lease_seconds :: "int \<Rightarrow> int" where
  "lease_seconds leaseMs = max 1 (\<lceil>of_int leaseMs / 1000 :: rat\<rceil>)"

definition buildLease :: "string \<Rightarrow> int \<Rightarrow> time \<Rightarrow> k8s_lease" where
  "buildLease holderIdentity leaseMs nowMs =
     \<lparr>kl_holderIdentity = Some holderIdentity,
      kl_leaseDurationSeconds = Some (Fin (of_int (lease_seconds leaseMs))),
      kl_acquireTime = TsString (Some nowMs), kl_renewTime = TsString (Some nowMs)\<rparr>"

text \<open>The namespace: the configured one, the service account's, the context's, or the default.\<close>

definition normalizeNamespace :: "string option \<Rightarrow> string option" where
  "normalizeNamespace value = (case value of None \<Rightarrow> None
     | Some v \<Rightarrow> if v = [] then None else if trim v = [] then None else Some (trim v))"

definition resolveDefaultNamespace :: "string option \<Rightarrow> string option \<Rightarrow> string" where
  "resolveDefaultNamespace fromServiceAccount fromContext =
     (case normalizeNamespace fromServiceAccount of
        Some ns \<Rightarrow> ns
      | None \<Rightarrow> (case normalizeNamespace fromContext of Some ns \<Rightarrow> ns | None \<Rightarrow> ''default''))"

section \<open>The operations, one API call at a time\<close>

datatype acquire_pc = Reading | Deleting | Creating | Finished acquire_result | Failed error

record acquire_call =
  ac_request :: acquire_request
  ac_token :: string
  ac_deadline :: time
  ac_pc :: acquire_pc

definition start_acquire :: "int \<Rightarrow> time \<Rightarrow> string \<Rightarrow> acquire_request \<Rightarrow> acquire_call" where
  "start_acquire maxAcquireWaitMs now token request =
     \<lparr>ac_request = request, ac_token = token, ac_deadline = now + maxAcquireWaitMs,
      ac_pc = (if valid_lease (aq_leaseMs request) then Reading else Failed lease_error)\<rparr>"

definition granted :: "acquire_call \<Rightarrow> time \<Rightarrow> grant" where
  "granted c now = \<lparr>gr_lockName = aq_lockName (ac_request c), gr_ownerId = aq_ownerId (ac_request c),
     gr_token = ac_token c, gr_acquiredAt = now,
     gr_expiresAt = now + lease_ms (aq_leaseMs (ac_request c))\<rparr>"

definition acquire_step :: "'k lease_read \<Rightarrow> 'k lease_create \<Rightarrow> 'k lease_delete \<Rightarrow> (string \<Rightarrow> string) \<Rightarrow>
    string \<Rightarrow> 'k \<Rightarrow> time \<Rightarrow> acquire_call \<Rightarrow> 'k \<times> acquire_call" where
  "acquire_step rd cr del hash ns k now c =
     (let q = ac_request c; l = aq_lockName q; name = resolveLeaseName hash l in
      case ac_pc c of
        Reading \<Rightarrow>
          (case rd k ns name of
             ApiOk existing \<Rightarrow> (k, c\<lparr>ac_pc := (if shouldReclaimLease now existing then Deleting
                 else Finished NotAcquired)\<rparr>)
           | ApiError e \<Rightarrow> (k, c\<lparr>ac_pc := (if isK8sNotFound e then Creating
                 else Failed (wrapK8sLockError ''read'' l))\<rparr>))
      | Deleting \<Rightarrow>
          (case del k ns name of
             (k', ApiOk _) \<Rightarrow> (k', c\<lparr>ac_pc := Creating\<rparr>)
           | (k', ApiError e) \<Rightarrow> (k', c\<lparr>ac_pc := (if isK8sNotFound e then Creating
                 else Failed (wrapK8sLockError ''clean up expired lease'' l))\<rparr>))
      | Creating \<Rightarrow>
          (case cr k ns name (buildLease (serializeHolderIdentity (aq_ownerId q) (ac_token c))
               (lease_ms (aq_leaseMs q)) now) of
             (k', ApiOk _) \<Rightarrow> (k', c\<lparr>ac_pc := Finished (Acquired (granted c now))\<rparr>)
           | (k', ApiError e) \<Rightarrow> (k', c\<lparr>ac_pc :=
               (if \<not> isK8sConflict e then Failed (wrapK8sLockError ''acquire'' l)
                else if now \<ge> ac_deadline c then Finished NotAcquired else Reading)\<rparr>))
      | _ \<Rightarrow> (k, c))"

datatype release_pc = RReading | RDeleting | RDone | RFailed error

definition release_step :: "'k lease_read \<Rightarrow> 'k lease_delete \<Rightarrow> (string \<Rightarrow> string) \<Rightarrow>
    string \<Rightarrow> 'k \<Rightarrow> release_request \<Rightarrow> release_pc \<Rightarrow> 'k \<times> release_pc" where
  "release_step rd del hash ns k r pc =
     (let l = rl_lockName r; name = resolveLeaseName hash l in
      case pc of
        RReading \<Rightarrow>
          (case rd k ns name of
             ApiOk existing \<Rightarrow> (k, if kl_holderIdentity existing \<noteq>
                 Some (serializeHolderIdentity (rl_ownerId r) (rl_token r)) then RDone else RDeleting)
           | ApiError e \<Rightarrow> (k, if isK8sNotFound e then RDone else RFailed (wrapK8sLockError ''read'' l)))
      | RDeleting \<Rightarrow>
          (case del k ns name of
             (k', ApiOk _) \<Rightarrow> (k', RDone)
           | (k', ApiError e) \<Rightarrow> (k', if isK8sNotFound e then RDone
               else RFailed (wrapK8sLockError ''release'' l)))
      | _ \<Rightarrow> (k, pc))"

text \<open>A call that no other process interferes with, and that time does not interrupt.\<close>

definition acquire_alone :: "'k lease_read \<Rightarrow> 'k lease_create \<Rightarrow> 'k lease_delete \<Rightarrow> (string \<Rightarrow> string) \<Rightarrow>
    string \<Rightarrow> int \<Rightarrow> 'k \<Rightarrow> time \<Rightarrow> string \<Rightarrow> acquire_request \<Rightarrow> 'k \<times> acquire_call" where
  "acquire_alone rd cr del hash ns wait k now token q =
     ((\<lambda>(k, c). acquire_step rd cr del hash ns k now c) ^^ 3) (k, start_acquire wait now token q)"

definition k8s_tryAcquire :: "'k lease_read \<Rightarrow> 'k lease_create \<Rightarrow> 'k lease_delete \<Rightarrow> (string \<Rightarrow> string) \<Rightarrow>
    string \<Rightarrow> int \<Rightarrow> 'k \<Rightarrow> time \<Rightarrow> string \<Rightarrow> acquire_request \<Rightarrow> ('k \<times> acquire_result) result" where
  "k8s_tryAcquire rd cr del hash ns wait k now token q =
     (case acquire_alone rd cr del hash ns wait k now token q of
        (k', c) \<Rightarrow> (case ac_pc c of
            Finished res \<Rightarrow> Inr (k', res)
          | Failed e \<Rightarrow> Inl e
          | _ \<Rightarrow> Inl (JsError ''pending'')))"

definition k8s_release :: "'k lease_read \<Rightarrow> 'k lease_delete \<Rightarrow> (string \<Rightarrow> string) \<Rightarrow>
    string \<Rightarrow> 'k \<Rightarrow> time \<Rightarrow> release_request \<Rightarrow> 'k" where
  "k8s_release rd del hash ns k now r =
     fst (((\<lambda>(k, pc). release_step rd del hash ns k r pc) ^^ 2) (k, RReading))"

section \<open>The contract of the API\<close>

locale lease_api =
  fixes rd :: "'k lease_read" and cr :: "'k lease_create" and del :: "'k lease_delete"
    and leases :: "'k \<Rightarrow> string \<Rightarrow> string \<Rightarrow> k8s_lease option"
  assumes read_some: "leases k ns n = Some x \<Longrightarrow> rd k ns n = ApiOk x"
    and read_none: "leases k ns n = None \<Longrightarrow> \<exists>e. rd k ns n = ApiError e \<and> isK8sNotFound e"
    and create_none: "leases k ns n = None \<Longrightarrow> \<exists>k'. cr k ns n x = (k', ApiOk ()) \<and>
      (\<forall>m. leases k' ns m = (if m = n then Some x else leases k ns m))"
    and create_some: "leases k ns n \<noteq> None \<Longrightarrow> \<exists>k' e. cr k ns n x = (k', ApiError e) \<and> isK8sConflict e \<and>
      (\<forall>m. leases k' ns m = leases k ns m)"
    and delete_some: "leases k ns n \<noteq> None \<Longrightarrow> \<exists>k'. del k ns n = (k', ApiOk ()) \<and>
      (\<forall>m. leases k' ns m = (if m = n then None else leases k ns m))"
    and delete_none: "leases k ns n = None \<Longrightarrow> \<exists>k' e. del k ns n = (k', ApiError e) \<and> isK8sNotFound e \<and>
      (\<forall>m. leases k' ns m = leases k ns m)"

locale k8s_cluster = lease_api rd cr del leases
  for rd :: "'k lease_read" and cr :: "'k lease_create" and del :: "'k lease_delete"
    and leases :: "'k \<Rightarrow> string \<Rightarrow> string \<Rightarrow> k8s_lease option" +
  fixes hash :: "string \<Rightarrow> string" and ns :: string
  assumes inj_hash: "inj hash"

text \<open>
  The lease that stands for a lock: its holder identity, and its end when it has one. A lease
  with an invalid \<open>Date\<close> has no end; the contract is for clusters without such leases.
\<close>

definition lease_end :: "k8s_lease \<Rightarrow> time" where
  "lease_end x = (case (kl_leaseDurationSeconds x, parseLeaseObservedAtMs x) of
     (Some (Fin d), Some (Some t)) \<Rightarrow> t + \<lfloor>d\<rfloor> * 1000 | _ \<Rightarrow> 0)"

definition k8s_holder :: "('k \<Rightarrow> string \<Rightarrow> string \<Rightarrow> k8s_lease option) \<Rightarrow> (string \<Rightarrow> string) \<Rightarrow> string \<Rightarrow>
    'k \<Rightarrow> time \<Rightarrow> string \<Rightarrow> (string option \<times> time) option" where
  "k8s_holder leases hash ns k t l = (case leases k ns (resolveLeaseName hash l) of
     Some x \<Rightarrow> if shouldReclaimLease t x then None else Some (kl_holderIdentity x, lease_end x)
   | None \<Rightarrow> None)"

definition dated :: "('k \<Rightarrow> string \<Rightarrow> string \<Rightarrow> k8s_lease option) \<Rightarrow> string \<Rightarrow> 'k \<Rightarrow> bool" where
  "dated leases ns k \<longleftrightarrow> (\<forall>n x. leases k ns n = Some x \<longrightarrow> parseLeaseObservedAtMs x \<noteq> Some None)"

definition k8s_ident :: "string \<Rightarrow> string \<Rightarrow> string option" where
  "k8s_ident ow tok = Some (serializeHolderIdentity ow tok)"

lemma reclaim_iff:
  "parseLeaseObservedAtMs x \<noteq> Some None \<Longrightarrow> \<not> shouldReclaimLease now x \<Longrightarrow>
   shouldReclaimLease t x \<longleftrightarrow> lease_end x \<le> t"
  by (auto simp: shouldReclaimLease_def lease_end_def split: option.splits jsnum.splits if_splits)

lemma reclaim_mono: "shouldReclaimLease now x \<Longrightarrow> now \<le> t \<Longrightarrow> shouldReclaimLease t x"
  by (auto simp: shouldReclaimLease_def split: option.splits jsnum.splits if_splits)

lemma lease_seconds_bounds: "1 \<le> lease_seconds ms" "ms \<le> lease_seconds ms * 1000"
proof -
  show "1 \<le> lease_seconds ms" by (simp add: lease_seconds_def)
  have "(of_int ms / 1000 :: rat) \<le> of_int \<lceil>of_int ms / 1000 :: rat\<rceil>" by (rule le_of_int_ceiling)
  then have "(of_int ms :: rat) \<le> of_int (\<lceil>of_int ms / 1000 :: rat\<rceil> * 1000)"
    by (simp only: of_int_mult of_int_numeral divide_le_eq zero_less_numeral if_True)
  then show "ms \<le> lease_seconds ms * 1000"
    unfolding lease_seconds_def of_int_le_iff by linarith
qed

lemma buildLease_simps [simp]:
  "kl_holderIdentity (buildLease i ms t) = Some i"
  "parseLeaseObservedAtMs (buildLease i ms t) = Some (Some t)"
  "shouldReclaimLease u (buildLease i ms t) \<longleftrightarrow> t + lease_seconds ms * 1000 \<le> u"
  "lease_end (buildLease i ms t) = t + lease_seconds ms * 1000"
  using lease_seconds_bounds(1) [of ms]
  by (simp_all add: buildLease_def parseLeaseObservedAtMs_def shouldReclaimLease_def lease_end_def)

lemma resolveLeaseName_inject: "inj hash \<Longrightarrow> resolveLeaseName hash l = resolveLeaseName hash l' \<longleftrightarrow> l = l'"
  by (auto simp: resolveLeaseName_def dest: injD)

context k8s_cluster begin

lemma acquire_live:
  assumes "valid_lease (aq_leaseMs q)" "leases k ns (resolveLeaseName hash (aq_lockName q)) = Some x"
    and "\<not> shouldReclaimLease now x"
  shows "k8s_tryAcquire rd cr del hash ns wait k now tok q = Inr (k, NotAcquired)"
  using assms read_some [OF assms(2)]
  by (simp add: k8s_tryAcquire_def acquire_alone_def acquire_step_def start_acquire_def numeral_3_eq_3)

lemma acquire_free:
  assumes "valid_lease (aq_leaseMs q)"
    and "\<And>x. leases k ns (resolveLeaseName hash (aq_lockName q)) = Some x \<Longrightarrow> shouldReclaimLease now x"
  shows "\<exists>k'. k8s_tryAcquire rd cr del hash ns wait k now tok q =
      Inr (k', Acquired \<lparr>gr_lockName = aq_lockName q, gr_ownerId = aq_ownerId q, gr_token = tok,
        gr_acquiredAt = now, gr_expiresAt = now + lease_ms (aq_leaseMs q)\<rparr>) \<and>
      (\<forall>m. leases k' ns m = (if m = resolveLeaseName hash (aq_lockName q)
        then Some (buildLease (serializeHolderIdentity (aq_ownerId q) tok) (lease_ms (aq_leaseMs q)) now)
        else leases k ns m))"
proof (cases "leases k ns (resolveLeaseName hash (aq_lockName q))")
  case None
  then show ?thesis using assms(1) read_none [OF None]
      create_none [OF None, of "buildLease (serializeHolderIdentity (aq_ownerId q) tok)
        (lease_ms (aq_leaseMs q)) now"]
    by (auto simp: k8s_tryAcquire_def acquire_alone_def acquire_step_def start_acquire_def
        granted_def numeral_3_eq_3 Let_def)
next
  case (Some x)
  obtain k1 where k1: "del k ns (resolveLeaseName hash (aq_lockName q)) = (k1, ApiOk ())"
      "\<And>m. leases k1 ns m = (if m = resolveLeaseName hash (aq_lockName q) then None else leases k ns m)"
    using delete_some [of k ns "resolveLeaseName hash (aq_lockName q)"] Some by auto
  then have "leases k1 ns (resolveLeaseName hash (aq_lockName q)) = None" by simp
  from create_none [OF this, of "buildLease (serializeHolderIdentity (aq_ownerId q) tok)
      (lease_ms (aq_leaseMs q)) now"]
  show ?thesis using assms Some read_some [OF Some] k1
    by (auto simp: k8s_tryAcquire_def acquire_alone_def acquire_step_def start_acquire_def
        granted_def numeral_3_eq_3 Let_def)
qed

lemma release_leases:
  "leases (k8s_release rd del hash ns k now r) ns m =
     (if m = resolveLeaseName hash (rl_lockName r) \<and> (\<exists>x. leases k ns m = Some x \<and>
        kl_holderIdentity x = Some (serializeHolderIdentity (rl_ownerId r) (rl_token r))) then None
      else leases k ns m)"
proof (cases "leases k ns (resolveLeaseName hash (rl_lockName r))")
  case None
  then show ?thesis using read_none [OF None]
    by (auto simp: k8s_release_def release_step_def numeral_2_eq_2)
next
  case (Some x)
  then show ?thesis
    using read_some [OF Some] delete_some [of k ns "resolveLeaseName hash (rl_lockName r)"]
    by (auto simp: k8s_release_def release_step_def numeral_2_eq_2 Let_def)
qed

end

sublocale k8s_cluster \<subseteq> k8s: lease_lock "k8s_tryAcquire rd cr del hash ns wait" "k8s_release rd del hash ns"
    "k8s_holder leases hash ns" k8s_ident "dated leases ns" for wait
proof (unfold_locales, goal_cases)
  case (1 q s now tok)
  then show ?case
    by (simp add: k8s_tryAcquire_def acquire_alone_def acquire_step_def start_acquire_def numeral_3_eq_3)
next
  case (2 s q now tok)
  then show ?case using acquire_live [of q s]
    by (auto simp: k8s_holder_def split: option.splits if_splits)
next
  case (3 s q now tok)
  then have "leases s ns (resolveLeaseName hash (aq_lockName q)) = Some x \<Longrightarrow> shouldReclaimLease now x" for x
    by (auto simp: k8s_holder_def split: if_splits)
  from acquire_free [where k = s and wait = wait and tok = tok, OF 3(2) this]
  obtain k' where k': "k8s_tryAcquire rd cr del hash ns wait s now tok q =
      Inr (k', Acquired \<lparr>gr_lockName = aq_lockName q, gr_ownerId = aq_ownerId q, gr_token = tok,
        gr_acquiredAt = now, gr_expiresAt = now + lease_ms (aq_leaseMs q)\<rparr>)"
      "\<And>m. leases k' ns m = (if m = resolveLeaseName hash (aq_lockName q)
        then Some (buildLease (serializeHolderIdentity (aq_ownerId q) tok) (lease_ms (aq_leaseMs q)) now)
        else leases s ns m)"
    by auto
  let ?e = "now + lease_seconds (lease_ms (aq_leaseMs q)) * 1000"
  have "now + lease_ms (aq_leaseMs q) \<le> ?e" using lease_seconds_bounds(2) by simp
  moreover have "dated leases ns k'" using 3(1) k'(2) by (auto simp: dated_def split: if_splits)
  moreover have "k8s_holder leases hash ns k' t l = (if l = aq_lockName q
      then lasts (Some (k8s_ident (aq_ownerId q) tok, ?e)) t else k8s_holder leases hash ns s t l)" for t l
    by (auto simp: k8s_holder_def k'(2) resolveLeaseName_inject [OF inj_hash] lasts_def k8s_ident_def)
  ultimately show ?case using k'(1) by blast
next
  case (4 s now r)
  then show ?case by (auto simp: dated_def release_leases split: if_splits)
next
  case (5 s now t r l)
  then show ?case
    by (auto simp: k8s_holder_def release_leases k8s_ident_def resolveLeaseName_inject [OF inj_hash]
        split: option.splits)
next
  case (6 s now t l)
  then show ?case using reclaim_iff [of _ now t] reclaim_mono [of now _ t]
    by (auto simp: k8s_holder_def dated_def lasts_def split: option.splits)
qed

section \<open>Many processes\<close>

text \<open>
  What a process does with a lock. It may stop at any time, leaving its lease behind. Tokens are
  never drawn twice and contain no colon, as UUIDs do not.
\<close>

datatype proc = Idle | Acquiring acquire_call | Holding grant | Releasing grant release_pc

record 'k system =
  sy_cluster :: 'k
  sy_clock :: time
  sy_procs :: "nat \<Rightarrow> proc"
  sy_drawn :: "string list"

datatype action = Tick time | Start nat string acquire_request | Call nat | GiveUp nat | Stop nat

definition settle_acquire :: "acquire_call \<Rightarrow> proc" where
  "settle_acquire c = (case ac_pc c of
     Finished (Acquired g) \<Rightarrow> Holding g
   | Finished NotAcquired \<Rightarrow> Idle
   | Failed _ \<Rightarrow> Idle
   | _ \<Rightarrow> Acquiring c)"

definition settle_release :: "grant \<Rightarrow> release_pc \<Rightarrow> proc" where
  "settle_release g pc = (case pc of RDone \<Rightarrow> Idle | RFailed _ \<Rightarrow> Idle | _ \<Rightarrow> Releasing g pc)"

definition release_of :: "grant \<Rightarrow> release_request" where
  "release_of g = \<lparr>rl_lockName = gr_lockName g, rl_ownerId = gr_ownerId g, rl_token = gr_token g\<rparr>"

fun k8s_act :: "'k lease_read \<Rightarrow> 'k lease_create \<Rightarrow> 'k lease_delete \<Rightarrow> (string \<Rightarrow> string) \<Rightarrow> string \<Rightarrow> int \<Rightarrow>
    'k system \<Rightarrow> action \<Rightarrow> 'k system option" where
  "k8s_act rd cr del hash ns wait s (Tick t) =
     (if sy_clock s \<le> t then Some (s\<lparr>sy_clock := t\<rparr>) else None)"
| "k8s_act rd cr del hash ns wait s (Start p tok q) =
     (if sy_procs s p = Idle \<and> tok \<notin> set (sy_drawn s) \<and> CHR '':'' \<notin> set tok then
        Some (s\<lparr>sy_procs := (sy_procs s)(p := settle_acquire (start_acquire wait (sy_clock s) tok q)),
                sy_drawn := tok # sy_drawn s\<rparr>)
      else None)"
| "k8s_act rd cr del hash ns wait s (Call p) =
     (case sy_procs s p of
        Acquiring c \<Rightarrow>
          (case acquire_step rd cr del hash ns (sy_cluster s) (sy_clock s) c of
             (k, c') \<Rightarrow> Some (s\<lparr>sy_cluster := k, sy_procs := (sy_procs s)(p := settle_acquire c')\<rparr>))
      | Releasing g pc \<Rightarrow>
          (case release_step rd del hash ns (sy_cluster s) (release_of g) pc of
             (k, pc') \<Rightarrow> Some (s\<lparr>sy_cluster := k, sy_procs := (sy_procs s)(p := settle_release g pc')\<rparr>))
      | _ \<Rightarrow> None)"
| "k8s_act rd cr del hash ns wait s (GiveUp p) =
     (case sy_procs s p of
        Holding g \<Rightarrow> Some (s\<lparr>sy_procs := (sy_procs s)(p := Releasing g RReading)\<rparr>)
      | _ \<Rightarrow> None)"
| "k8s_act rd cr del hash ns wait s (Stop p) = Some (s\<lparr>sy_procs := (sy_procs s)(p := Idle)\<rparr>)"

text \<open>
  The runs in which no lease of the namespace ever runs out: every process renews nothing, so
  this is a bound on how long they last.
\<close>

definition unexpired :: "('k \<Rightarrow> string \<Rightarrow> string \<Rightarrow> k8s_lease option) \<Rightarrow> string \<Rightarrow> 'k system \<Rightarrow> bool" where
  "unexpired leases ns s \<longleftrightarrow>
     (\<forall>n x. leases (sy_cluster s) ns n = Some x \<longrightarrow> \<not> shouldReclaimLease (sy_clock s) x)"

inductive k8s_reach :: "'k lease_read \<Rightarrow> 'k lease_create \<Rightarrow> 'k lease_delete \<Rightarrow>
    ('k \<Rightarrow> string \<Rightarrow> string \<Rightarrow> k8s_lease option) \<Rightarrow> (string \<Rightarrow> string) \<Rightarrow> string \<Rightarrow> int \<Rightarrow> 'k system \<Rightarrow> bool"
  for rd cr del leases hash ns wait where
  init: "(\<forall>p. sy_procs s p = Idle) \<Longrightarrow> unexpired leases ns s \<Longrightarrow> k8s_reach rd cr del leases hash ns wait s"
| act: "k8s_reach rd cr del leases hash ns wait s \<Longrightarrow> k8s_act rd cr del hash ns wait s a = Some s' \<Longrightarrow>
    unexpired leases ns s' \<Longrightarrow> k8s_reach rd cr del leases hash ns wait s'"

text \<open>The token a process works with, and the lease it owns.\<close>

fun proc_token :: "proc \<Rightarrow> string option" where
  "proc_token Idle = None"
| "proc_token (Acquiring c) = Some (ac_token c)"
| "proc_token (Holding g) = Some (gr_token g)"
| "proc_token (Releasing g _) = Some (gr_token g)"

fun proc_grant :: "proc \<Rightarrow> grant option" where
  "proc_grant (Holding g) = Some g"
| "proc_grant (Releasing g _) = Some g"
| "proc_grant _ = None"

fun proc_ok :: "proc \<Rightarrow> bool" where
  "proc_ok (Acquiring c) = (ac_pc c = Reading \<or> ac_pc c = Creating)"
| "proc_ok (Releasing g pc) = (pc = RReading \<or> pc = RDeleting)"
| "proc_ok _ = True"

definition tokens_ok :: "'k system \<Rightarrow> bool" where
  "tokens_ok s \<longleftrightarrow>
     (\<forall>p tok. proc_token (sy_procs s p) = Some tok \<longrightarrow> tok \<in> set (sy_drawn s) \<and> CHR '':'' \<notin> set tok) \<and>
     (\<forall>p p' tok. proc_token (sy_procs s p) = Some tok \<longrightarrow> proc_token (sy_procs s p') = Some tok \<longrightarrow> p = p')"

definition owns :: "('k \<Rightarrow> string \<Rightarrow> string \<Rightarrow> k8s_lease option) \<Rightarrow> (string \<Rightarrow> string) \<Rightarrow> string \<Rightarrow> 'k \<Rightarrow> grant \<Rightarrow> bool" where
  "owns leases hash ns k g \<longleftrightarrow> (\<exists>x. leases k ns (resolveLeaseName hash (gr_lockName g)) = Some x \<and>
     kl_holderIdentity x = Some (serializeHolderIdentity (gr_ownerId g) (gr_token g)))"

definition k8s_inv :: "('k \<Rightarrow> string \<Rightarrow> string \<Rightarrow> k8s_lease option) \<Rightarrow> (string \<Rightarrow> string) \<Rightarrow> string \<Rightarrow> 'k system \<Rightarrow> bool" where
  "k8s_inv leases hash ns s \<longleftrightarrow> tokens_ok s \<and> (\<forall>p. proc_ok (sy_procs s p)) \<and>
     (\<forall>p g. proc_grant (sy_procs s p) = Some g \<longrightarrow> owns leases hash ns (sy_cluster s) g)"

lemma identity_token:
  assumes "serializeHolderIdentity ow tok = serializeHolderIdentity ow' tok'"
    and "CHR '':'' \<notin> set tok" "CHR '':'' \<notin> set tok'"
  shows "tok = tok'"
proof -
  have "takeWhile (\<lambda>c. c \<noteq> CHR '':'') (rev (serializeHolderIdentity o1 t)) = rev t"
    if "CHR '':'' \<notin> set t" for o1 t
    using that by (simp add: serializeHolderIdentity_def) (subst takeWhile_append2, auto)
  then show ?thesis using assms by (metis rev_rev_ident)
qed

lemma k8s_inv_update:
  assumes "k8s_inv leases hash ns s" "proc_ok x"
    and "proc_token x = None \<or> proc_token x = proc_token (sy_procs s p)"
    and "\<And>p' g. p' \<noteq> p \<Longrightarrow> proc_grant (sy_procs s p') = Some g \<Longrightarrow> owns leases hash ns k g"
    and "\<And>g. proc_grant x = Some g \<Longrightarrow> owns leases hash ns k g"
  shows "k8s_inv leases hash ns (s\<lparr>sy_cluster := k, sy_procs := (sy_procs s)(p := x)\<rparr>)"
proof -
  have "tokens_ok (s\<lparr>sy_cluster := k, sy_procs := (sy_procs s)(p := x)\<rparr>)"
    using assms(1,3) unfolding k8s_inv_def tokens_ok_def by (auto split: if_splits; metis)
  then show ?thesis using assms by (auto simp: k8s_inv_def)
qed

lemma k8s_inv_owns:
  "k8s_inv leases hash ns s \<Longrightarrow> proc_grant (sy_procs s p) = Some g \<Longrightarrow> owns leases hash ns (sy_cluster s) g"
  by (simp add: k8s_inv_def)

context k8s_cluster begin

lemma acquire_step_safe:
  assumes "ac_pc c = Reading \<or> ac_pc c = Creating"
    and "\<forall>n x. leases k ns n = Some x \<longrightarrow> \<not> shouldReclaimLease now x"
    and "acquire_step rd cr del hash ns k now c = (k', c')"
  obtains (idle) "settle_acquire c' = Idle" "\<And>m. leases k' ns m = leases k ns m"
    | (pending) pc where "settle_acquire c' = Acquiring (c\<lparr>ac_pc := pc\<rparr>)" "pc = Reading \<or> pc = Creating"
        "\<And>m. leases k' ns m = leases k ns m"
    | (grant) "settle_acquire c' = Holding (granted c now)"
        "leases k ns (resolveLeaseName hash (aq_lockName (ac_request c))) = None"
        "\<And>m. leases k' ns m = (if m = resolveLeaseName hash (aq_lockName (ac_request c))
          then Some (buildLease (serializeHolderIdentity (aq_ownerId (ac_request c)) (ac_token c))
            (lease_ms (aq_leaseMs (ac_request c))) now) else leases k ns m)"
proof -
  let ?n = "resolveLeaseName hash (aq_lockName (ac_request c))"
  let ?x = "buildLease (serializeHolderIdentity (aq_ownerId (ac_request c)) (ac_token c))
    (lease_ms (aq_leaseMs (ac_request c))) now"
  show ?thesis
  proof (cases "ac_pc c = Reading")
    case True
    then show ?thesis
    proof (cases "leases k ns ?n")
      case None
      then show ?thesis using assms(3) True read_none [OF None] pending [of Creating]
        by (auto simp: acquire_step_def Let_def settle_acquire_def)
    next
      case (Some x)
      then show ?thesis using assms(2,3) True read_some [OF Some] idle
        by (auto simp: acquire_step_def Let_def settle_acquire_def)
    qed
  next
    case False
    then have pc: "ac_pc c = Creating" using assms(1) by simp
    show ?thesis
    proof (cases "leases k ns ?n")
      case None
      then show ?thesis using assms(3) pc create_none [OF None, of ?x] grant
        by (auto simp: acquire_step_def Let_def settle_acquire_def)
    next
      case (Some x)
      then obtain k1 e where "cr k ns ?n ?x = (k1, ApiError e)" "isK8sConflict e"
          "\<And>m. leases k1 ns m = leases k ns m"
        using create_some [of k ns ?n ?x] by auto
      then show ?thesis using assms(3) pc idle pending [of Reading]
        by (auto simp: acquire_step_def Let_def settle_acquire_def split: if_splits)
    qed
  qed
qed

lemma release_step_safe:
  assumes "pc = RReading \<or> pc = RDeleting" "owns leases hash ns k g"
    and "release_step rd del hash ns k (release_of g) pc = (k', pc')"
  obtains (matched) "settle_release g pc' = Releasing g RDeleting" "\<And>m. leases k' ns m = leases k ns m"
    | (deleted) "settle_release g pc' = Idle"
        "\<And>m. leases k' ns m = (if m = resolveLeaseName hash (gr_lockName g) then None else leases k ns m)"
proof -
  obtain x where x: "leases k ns (resolveLeaseName hash (gr_lockName g)) = Some x"
      "kl_holderIdentity x = Some (serializeHolderIdentity (gr_ownerId g) (gr_token g))"
    using assms(2) by (auto simp: owns_def)
  show ?thesis
    using assms(1,3) x read_some [OF x(1)] delete_some [of k ns "resolveLeaseName hash (gr_lockName g)"]
      matched deleted
    by (auto simp: release_step_def release_of_def settle_release_def Let_def)
qed

lemma owns_apart:
  assumes "tokens_ok s" "p \<noteq> p'" "proc_grant (sy_procs s p) = Some g" "proc_grant (sy_procs s p') = Some g'"
    and "owns leases hash ns k g" "owns leases hash ns k g'"
  shows "gr_lockName g \<noteq> gr_lockName g'"
proof
  assume "gr_lockName g = gr_lockName g'"
  then have "serializeHolderIdentity (gr_ownerId g) (gr_token g) =
      serializeHolderIdentity (gr_ownerId g') (gr_token g')"
    using assms(5,6) by (auto simp: owns_def)
  moreover have "proc_token (sy_procs s p) = Some (gr_token g)" "proc_token (sy_procs s p') = Some (gr_token g')"
    using assms(3,4) by (auto elim: proc_grant.elims)
  ultimately have "proc_token (sy_procs s p) = Some (gr_token g)" "proc_token (sy_procs s p') = Some (gr_token g)"
    using identity_token assms(1) unfolding tokens_ok_def by metis+
  then show False using assms(1,2) unfolding tokens_ok_def by blast
qed

lemma k8s_inv_act:
  assumes inv: "k8s_inv leases hash ns s" and live: "unexpired leases ns s"
    and act: "k8s_act rd cr del hash ns wait s a = Some s'"
  shows "k8s_inv leases hash ns s'"
proof (cases a)
  case (Tick t)
  then show ?thesis using inv act by (auto simp: k8s_inv_def tokens_ok_def split: if_splits)
next
  case (Start p tok q)
  then have new: "sy_procs s p = Idle" "tok \<notin> set (sy_drawn s)" "CHR '':'' \<notin> set tok"
    and s': "s' = s\<lparr>sy_procs := (sy_procs s)(p := settle_acquire (start_acquire wait (sy_clock s) tok q)),
      sy_drawn := tok # sy_drawn s\<rparr>"
    using act by (auto split: if_splits)
  have x: "settle_acquire (start_acquire wait (sy_clock s) tok q) = Idle \<or>
      (\<exists>c. settle_acquire (start_acquire wait (sy_clock s) tok q) = Acquiring c \<and> ac_pc c = Reading \<and> ac_token c = tok)"
    by (simp add: settle_acquire_def start_acquire_def)
  have "tokens_ok s'"
    using inv new x unfolding s' k8s_inv_def tokens_ok_def by (auto split: if_splits)
  then show ?thesis using inv x unfolding k8s_inv_def s' by auto
next
  case (GiveUp p)
  then obtain g where g: "sy_procs s p = Holding g" "s' = s\<lparr>sy_procs := (sy_procs s)(p := Releasing g RReading)\<rparr>"
    using act by (auto split: proc.splits)
  show ?thesis
    using k8s_inv_update [OF inv, of "Releasing g RReading" p "sy_cluster s"]
      k8s_inv_owns [OF inv] k8s_inv_owns [OF inv, of p g] g by simp
next
  case (Stop p)
  then show ?thesis
    using k8s_inv_update [OF inv, of Idle p "sy_cluster s"] inv act by (auto simp: k8s_inv_def)
next
  case (Call p)
  show ?thesis
  proof (cases "sy_procs s p")
    case (Acquiring c)
    obtain k c' where st: "acquire_step rd cr del hash ns (sy_cluster s) (sy_clock s) c = (k, c')" by fastforce
    then have s': "s' = s\<lparr>sy_cluster := k, sy_procs := (sy_procs s)(p := settle_acquire c')\<rparr>"
      using act Call Acquiring by simp
    have pc: "ac_pc c = Reading \<or> ac_pc c = Creating"
      using inv Acquiring unfolding k8s_inv_def by (metis proc_ok.simps(1))
    from pc live [unfolded unexpired_def] st show ?thesis
    proof (cases rule: acquire_step_safe)
      case idle
      then show ?thesis
        using k8s_inv_update [OF inv, of Idle p k] inv s' by (auto simp: k8s_inv_def owns_def)
    next
      case (pending pc)
      then show ?thesis
        using k8s_inv_update [OF inv, of "Acquiring (c\<lparr>ac_pc := pc\<rparr>)" p k] inv s' Acquiring
        by (auto simp: k8s_inv_def owns_def)
    next
      case grant
      have "owns leases hash ns k g'" if "proc_grant (sy_procs s p') = Some g'" for p' g'
        using k8s_inv_owns [OF inv that] grant(2,3) by (auto simp: owns_def)
      moreover have "owns leases hash ns k (granted c (sy_clock s))"
        by (simp add: owns_def granted_def grant(3))
      ultimately show ?thesis
        using k8s_inv_update [OF inv, of "Holding (granted c (sy_clock s))" p k] s' Acquiring grant(1)
        by (auto simp: granted_def)
    qed
  next
    case (Releasing g pc)
    obtain k pc' where st: "release_step rd del hash ns (sy_cluster s) (release_of g) pc = (k, pc')" by fastforce
    then have s': "s' = s\<lparr>sy_cluster := k, sy_procs := (sy_procs s)(p := settle_release g pc')\<rparr>"
      using act Call Releasing by simp
    have pc: "pc = RReading \<or> pc = RDeleting" and own: "owns leases hash ns (sy_cluster s) g"
      using inv Releasing unfolding k8s_inv_def by (metis proc_ok.simps(2), metis proc_grant.simps(2))
    from pc own st show ?thesis
    proof (cases rule: release_step_safe)
      case matched
      then show ?thesis
        using k8s_inv_update [OF inv, of "Releasing g RDeleting" p k] k8s_inv_owns [OF inv] s' Releasing own
        by (simp add: owns_def)
    next
      case deleted
      have "owns leases hash ns k g'" if "p' \<noteq> p" "proc_grant (sy_procs s p') = Some g'" for p' g'
      proof -
        have "gr_lockName g' \<noteq> gr_lockName g"
          by (rule owns_apart [OF _ that _ k8s_inv_owns [OF inv that(2)] own])
            (use inv Releasing in \<open>auto simp: k8s_inv_def\<close>)
        then show ?thesis
          using k8s_inv_owns [OF inv that(2)] resolveLeaseName_inject [OF inj_hash]
          by (auto simp: owns_def deleted(2))
      qed
      then show ?thesis
        using k8s_inv_update [OF inv, of Idle p k] s' deleted(1) by auto
    qed
  qed (use act Call in auto)
qed

lemma k8s_reach_inv: "k8s_reach rd cr del leases hash ns wait s \<Longrightarrow> k8s_inv leases hash ns s \<and> unexpired leases ns s"
proof (induction rule: k8s_reach.induct)
  case (init s)
  then show ?case by (auto simp: k8s_inv_def tokens_ok_def)
next
  case (act s a s')
  then show ?case using k8s_inv_act by blast
qed

lemma k8s_exclusive:
  assumes "k8s_reach rd cr del leases hash ns wait s"
    and "sy_procs s p = Holding g" "sy_procs s p' = Holding g'" "gr_lockName g = gr_lockName g'"
  shows "p = p'"
proof (rule ccontr)
  assume "p \<noteq> p'"
  then show False
    using owns_apart [of s p p' g g' "sy_cluster s"] k8s_reach_inv [OF assms(1)] assms(2-4)
      k8s_inv_owns [of leases hash ns s p g] k8s_inv_owns [of leases hash ns s p' g']
    by (simp add: k8s_inv_def)
qed

end

section \<open>Properties\<close>

text \<open>The documented API on a map of leases.\<close>

type_synonym lease_map = "string \<Rightarrow> string \<Rightarrow> k8s_lease option"

definition status_error :: "int \<Rightarrow> js" where
  "status_error n = JObj [(''code'', JInt n)]"

definition map_read :: "lease_map lease_read" where
  "map_read k ns n = (case k ns n of Some x \<Rightarrow> ApiOk x | None \<Rightarrow> ApiError (status_error 404))"

definition map_create :: "lease_map lease_create" where
  "map_create k ns n x = (if k ns n = None then (k(ns := (k ns)(n \<mapsto> x)), ApiOk ())
     else (k, ApiError (status_error 409)))"

definition map_delete :: "lease_map lease_delete" where
  "map_delete k ns n = (if k ns n = None then (k, ApiError (status_error 404))
     else (k(ns := (k ns)(n := None)), ApiOk ()))"

interpretation lease_map: k8s_cluster map_read map_create map_delete "\<lambda>k. k" "\<lambda>l. l" "''ns''"
  by unfold_locales
    (auto simp: map_read_def map_create_def map_delete_def status_error_def isK8sNotFound_def
      isK8sConflict_def getK8sErrorCode_def)


text \<open>Schedules, and two of them on the map API: the lease is free, and the lease has expired.\<close>

fun k8s_acts :: "'k lease_read \<Rightarrow> 'k lease_create \<Rightarrow> 'k lease_delete \<Rightarrow> (string \<Rightarrow> string) \<Rightarrow> string \<Rightarrow> int \<Rightarrow>
    'k system \<Rightarrow> action list \<Rightarrow> 'k system option" where
  "k8s_acts rd cr del hash ns wait s [] = Some s"
| "k8s_acts rd cr del hash ns wait s (a # as) =
     (case k8s_act rd cr del hash ns wait s a of
        None \<Rightarrow> None | Some s' \<Rightarrow> k8s_acts rd cr del hash ns wait s' as)"

definition demo_request :: "string \<Rightarrow> acquire_request" where
  "demo_request ow = \<lparr>aq_lockName = ''l'', aq_ownerId = ow, aq_leaseMs = Fin 60000\<rparr>"

definition demo_system :: "lease_map \<Rightarrow> lease_map system" where
  "demo_system k = \<lparr>sy_cluster = k, sy_clock = 100000, sy_procs = (\<lambda>_. Idle), sy_drawn = []\<rparr>"

definition dead_lease :: lease_map where
  "dead_lease = (\<lambda>_. Map.empty)(''ns'' := [resolveLeaseName (\<lambda>l. l) ''l'' \<mapsto> buildLease ''c:t0'' 60000 0])"

lemmas demo_k8s_simps = demo_system_def demo_request_def acquire_step_def release_step_def
  start_acquire_def settle_acquire_def map_read_def map_create_def map_delete_def status_error_def
  isK8sNotFound_def isK8sConflict_def getK8sErrorCode_def granted_def Let_def

definition demo_grant_of :: "string \<Rightarrow> string \<Rightarrow> grant" where
  "demo_grant_of ow tok = granted (start_acquire 250 100000 tok (demo_request ow)) 100000"

definition demo_acts :: "lease_map \<Rightarrow> action list \<Rightarrow> lease_map system" where
  "demo_acts k as = the (k8s_acts map_read map_create map_delete (\<lambda>l. l) ''ns'' 250 (demo_system k) as)"

lemma demo_k8s_acquire:
  assumes "as = [Start 0 ''t1'' (demo_request ''a''), Call 0, Call 0]"
  shows "k8s_reach map_read map_create map_delete (\<lambda>k. k) (\<lambda>l. l) ''ns'' 250 (demo_acts (\<lambda>_. Map.empty) as)"
    "sy_procs (demo_acts (\<lambda>_. Map.empty) as) 0 = Holding (demo_grant_of ''a'' ''t1'')"
proof -
  obtain s1 where s1: "k8s_act map_read map_create map_delete (\<lambda>l. l) ''ns'' 250 (demo_system (\<lambda>_. Map.empty))
      (Start 0 ''t1'' (demo_request ''a'')) = Some s1" "unexpired (\<lambda>k. k) ''ns'' s1"
    by (simp add: demo_k8s_simps unexpired_def)
  obtain s2 where s2: "k8s_act map_read map_create map_delete (\<lambda>l. l) ''ns'' 250 s1 (Call 0) = Some s2"
      "unexpired (\<lambda>k. k) ''ns'' s2"
    using s1 by (auto simp: demo_k8s_simps unexpired_def)
  obtain s3 where s3: "k8s_act map_read map_create map_delete (\<lambda>l. l) ''ns'' 250 s2 (Call 0) = Some s3"
      "unexpired (\<lambda>k. k) ''ns'' s3" "sy_procs s3 0 = Holding (demo_grant_of ''a'' ''t1'')"
    using s1 s2 by (auto simp: demo_k8s_simps demo_grant_of_def unexpired_def lease_seconds_def)
  have "k8s_reach map_read map_create map_delete (\<lambda>k. k) (\<lambda>l. l) ''ns'' 250 (demo_system (\<lambda>_. Map.empty))"
    by (rule k8s_reach.init) (simp_all add: demo_system_def unexpired_def)
  then have "k8s_reach map_read map_create map_delete (\<lambda>k. k) (\<lambda>l. l) ''ns'' 250 s3"
    using k8s_reach.act [OF _ s1] k8s_reach.act [OF _ s2] k8s_reach.act [OF _ s3(1,2)] by simp
  moreover have "demo_acts (\<lambda>_. Map.empty) as = s3" using s1(1) s2(1) s3(1) by (simp add: demo_acts_def assms)
  ultimately show "k8s_reach map_read map_create map_delete (\<lambda>k. k) (\<lambda>l. l) ''ns'' 250 (demo_acts (\<lambda>_. Map.empty) as)"
    "sy_procs (demo_acts (\<lambda>_. Map.empty) as) 0 = Holding (demo_grant_of ''a'' ''t1'')"
    using s3(3) by simp_all
qed



end
