(* ===== verification/SessionLock.thy ===== *)
theory SessionLock
  imports Prelude
begin

text \<open>
  The lock file that guards sessions and state directories, \<open>runtime/session-lock.ts\<close>. The file
  system holds the inode the path points to and the text of every inode; a process opens the
  path exclusively, writes its pid and the time into it, and removes the path when it releases
  the lock. A process that finds the path taken may reclaim it when the process named in the file
  is dead. Every step below is one call to the file system or to the process table.

  \<open>isoStr\<close> and \<open>date_parse\<close> stand for \<open>Date.prototype.toISOString\<close> and \<open>Date.parse\<close>, which accepts
  formats that depend on the engine.
\<close>

section \<open>The text of a lock file\<close>

type_synonym lock_meta = "int option \<times> time option"

definition lock_text :: "(time \<Rightarrow> string) \<Rightarrow> int \<Rightarrow> time \<Rightarrow> string" where
  "lock_text isoStr pid now = ''pid='' @ nat_str (nat pid) @ [CHR 0x0A] @ ''createdAt='' @ isoStr now @ [CHR 0x0A]"

definition parse_lock_line :: "(string \<Rightarrow> time option) \<Rightarrow> lock_meta \<Rightarrow> string \<Rightarrow> lock_meta" where
  "parse_lock_line date_parse m line =
     (let trimmed = trim line in
      if trimmed = [] then m
      else if starts_with ''pid='' trimmed then
        (case parse_int (drop 4 trimmed) of
           Some n \<Rightarrow> if 0 < n then (Some n, snd m) else m
         | None \<Rightarrow> m)
      else if starts_with ''createdAt='' trimmed then
        (case date_parse (drop 10 trimmed) of Some ms \<Rightarrow> (fst m, Some ms) | None \<Rightarrow> m)
      else m)"

definition parseLockMetadata :: "(string \<Rightarrow> time option) \<Rightarrow> string \<Rightarrow> lock_meta" where
  "parseLockMetadata date_parse raw = foldl (parse_lock_line date_parse) (None, None) (split_lines raw)"

section \<open>Processes and steps\<close>

record lock_options =
  lo_timeoutMs :: int
  lo_retryDelayMs :: int
  lo_staleAfterMs :: jsnum

definition default_lock_options :: lock_options where
  "default_lock_options = \<lparr>lo_timeoutMs = 10000, lo_retryDelayMs = 40, lo_staleAfterMs = Fin 30000\<rparr>"

text \<open>
  Where a process is: trying to open the path, holding inode \<open>n\<close> open and empty, reading the
  file of another process, judging what it read, removing the path, waiting to try again, owning
  the lock, having closed the file, or finished.
\<close>

datatype lock_pc =
    Trying | Opened nat | Inspecting | Judging lock_meta | Removing | Waiting time
  | Owning nat | Closed nat | Released | LockFailed error

record lock_fs =
  fs_path :: "nat option"
  fs_text :: "nat \<Rightarrow> string"
  fs_next :: nat

definition remove_path :: "lock_fs \<Rightarrow> lock_fs" where
  "remove_path fs = fs\<lparr>fs_path := None\<rparr>"

text \<open>The decision of \<open>reclaimStaleLock\<close> on the metadata it has read.\<close>

definition stale_lock :: "jsnum \<Rightarrow> time \<Rightarrow> (int \<Rightarrow> bool) \<Rightarrow> lock_meta \<Rightarrow> bool" where
  "stale_lock staleAfterMs now alive m =
     (case (staleAfterMs, m) of
        (Fin stale, (Some pid, Some createdAtMs)) \<Rightarrow>
          if stale \<le> 0 then False
          else if pid = 0 \<or> createdAtMs = 0 then False
          else if of_int (now - createdAtMs) < stale then False
          else \<not> alive pid
      | _ \<Rightarrow> False)"

definition lock_step :: "(time \<Rightarrow> string) \<Rightarrow> (string \<Rightarrow> time option) \<Rightarrow> lock_options \<Rightarrow> string \<Rightarrow> int \<Rightarrow> time \<Rightarrow>
    time \<Rightarrow> (int \<Rightarrow> bool) \<Rightarrow> lock_fs \<Rightarrow> lock_pc \<Rightarrow> lock_fs \<times> lock_pc" where
  "lock_step isoStr date_parse opts lockPath pid deadline now alive fs pc =
     (case pc of
        Trying \<Rightarrow>
          if deadline < now then (fs, LockFailed (AthenaError SESSION_LOCK_TIMEOUT
            (''Timed out acquiring session lock at '' @ lockPath) False))
          else (case fs_path fs of
            None \<Rightarrow> (fs\<lparr>fs_path := Some (fs_next fs), fs_text := (fs_text fs)(fs_next fs := []),
                fs_next := Suc (fs_next fs)\<rparr>, Opened (fs_next fs))
          | Some _ \<Rightarrow> (fs, Inspecting))
      | Opened n \<Rightarrow> (fs\<lparr>fs_text := (fs_text fs)(n := lock_text isoStr pid now)\<rparr>, Owning n)
      | Inspecting \<Rightarrow>
          (case fs_path fs of
             None \<Rightarrow> (fs, Waiting (now + lo_retryDelayMs opts))
           | Some n \<Rightarrow> (fs, Judging (parseLockMetadata date_parse (fs_text fs n))))
      | Judging m \<Rightarrow>
          (fs, if stale_lock (lo_staleAfterMs opts) now alive m then Removing
               else Waiting (now + lo_retryDelayMs opts))
      | Removing \<Rightarrow>
          (case fs_path fs of
             None \<Rightarrow> (fs, Waiting (now + lo_retryDelayMs opts))
           | Some _ \<Rightarrow> (remove_path fs, Trying))
      | Waiting t \<Rightarrow> (fs, if t \<le> now then Trying else Waiting t)
      | Owning n \<Rightarrow> (fs, Closed n)
      | Closed n \<Rightarrow> (remove_path fs, Released)
      | Released \<Rightarrow> (fs, Released)
      | LockFailed e \<Rightarrow> (fs, LockFailed e))"

text \<open>All processes of the machine, by pid; \<open>None\<close> is one that does not run.\<close>

record lock_world =
  lw_fs :: lock_fs
  lw_clock :: time
  lw_procs :: "int \<Rightarrow> (time \<times> lock_pc) option"

datatype lock_event = Elapse time | Begin int | Step int | Die int

definition lw_alive :: "lock_world \<Rightarrow> int \<Rightarrow> bool" where
  "lw_alive w pid \<longleftrightarrow> lw_procs w pid \<noteq> None"

fun idle_pc :: "lock_pc \<Rightarrow> bool" where
  "idle_pc Released = True"
| "idle_pc (LockFailed _) = True"
| "idle_pc _ = False"

fun lock_act :: "(time \<Rightarrow> string) \<Rightarrow> (string \<Rightarrow> time option) \<Rightarrow> lock_options \<Rightarrow> string \<Rightarrow>
    lock_world \<Rightarrow> lock_event \<Rightarrow> lock_world option" where
  "lock_act isoStr date_parse opts lockPath w (Elapse t) =
     (if lw_clock w \<le> t then Some (w\<lparr>lw_clock := t\<rparr>) else None)"
| "lock_act isoStr date_parse opts lockPath w (Begin pid) =
     (if 0 < pid \<and> (case lw_procs w pid of None \<Rightarrow> True
          | Some (_, pc) \<Rightarrow> idle_pc pc) then
        Some (w\<lparr>lw_procs := (lw_procs w)(pid \<mapsto> (lw_clock w + lo_timeoutMs opts, Trying))\<rparr>)
      else None)"
| "lock_act isoStr date_parse opts lockPath w (Step pid) =
     (case lw_procs w pid of
        None \<Rightarrow> None
      | Some (deadline, pc) \<Rightarrow>
          (case lock_step isoStr date_parse opts lockPath pid deadline (lw_clock w) (lw_alive w) (lw_fs w) pc of
             (fs, pc') \<Rightarrow> Some (w\<lparr>lw_fs := fs, lw_procs := (lw_procs w)(pid \<mapsto> (deadline, pc'))\<rparr>)))"
| "lock_act isoStr date_parse opts lockPath w (Die pid) = Some (w\<lparr>lw_procs := (lw_procs w)(pid := None)\<rparr>)"

fun lock_acts :: "(time \<Rightarrow> string) \<Rightarrow> (string \<Rightarrow> time option) \<Rightarrow> lock_options \<Rightarrow> string \<Rightarrow>
    lock_world \<Rightarrow> lock_event list \<Rightarrow> lock_world option" where
  "lock_acts isoStr date_parse opts lockPath w [] = Some w"
| "lock_acts isoStr date_parse opts lockPath w (e # es) =
     (case lock_act isoStr date_parse opts lockPath w e of
        None \<Rightarrow> None | Some w' \<Rightarrow> lock_acts isoStr date_parse opts lockPath w' es)"

fun owned_inode :: "lock_pc \<Rightarrow> nat option" where
  "owned_inode (Opened n) = Some n"
| "owned_inode (Owning n) = Some n"
| "owned_inode (Closed n) = Some n"
| "owned_inode _ = None"

text \<open>Runs from a state without lock file and processes in which no process dies.\<close>

inductive lock_reach :: "(time \<Rightarrow> string) \<Rightarrow> (string \<Rightarrow> time option) \<Rightarrow> lock_options \<Rightarrow> string \<Rightarrow>
    lock_world \<Rightarrow> bool"
  for isoStr date_parse opts lockPath where
  init: "lw_procs w = Map.empty \<Longrightarrow> fs_path (lw_fs w) = None \<Longrightarrow>
    lock_reach isoStr date_parse opts lockPath w"
| act: "lock_reach isoStr date_parse opts lockPath w \<Longrightarrow> (\<And>pid. e \<noteq> Die pid) \<Longrightarrow>
    lock_act isoStr date_parse opts lockPath w e = Some w' \<Longrightarrow> lock_reach isoStr date_parse opts lockPath w'"

section \<open>Lemmas\<close>

definition plain_text :: "string \<Rightarrow> bool" where
  "plain_text s \<longleftrightarrow> s \<noteq> [] \<and> (\<forall>c \<in> set s. \<not> is_space c)"

lemma nat_str_plain: "plain_text (nat_str n)"
  using nat_str_digits [of n] digit_not_space by (auto simp: plain_text_def)

lemma space_newline: "is_space CHR 0x0A" "is_space CHR 0x0D"
  by (simp_all add: is_space_def)

lemma plain_trim: "plain_text s \<Longrightarrow> trim s = s"
  by (rule trim_id) (auto simp: plain_text_def)

lemma plain_append: "plain_text s \<Longrightarrow> plain_text t \<Longrightarrow> plain_text (s @ t)"
  by (auto simp: plain_text_def)

lemma plain_chomp: "plain_text s \<Longrightarrow> chomp s = s"
  unfolding chomp_def plain_text_def using space_newline(2) by (metis last_in_set)

lemma plain_no_newline: "plain_text s \<Longrightarrow> CHR 0x0A \<notin> set s"
  using space_newline(1) by (auto simp: plain_text_def)

lemma parse_lock_text:
  assumes "0 < pid" "plain_text (isoStr now)" "date_parse (isoStr now) = Some now"
  shows "parseLockMetadata date_parse (lock_text isoStr pid now) = (Some pid, Some now)"
proof -
  have p: "plain_text (''pid='' @ nat_str (nat pid))" "plain_text (''createdAt='' @ isoStr now)"
    using assms(2) nat_str_plain by (auto intro!: plain_append simp: plain_text_def is_space_def)
  have "split_on CHR 0x0A (lock_text isoStr pid now) =
      [''pid='' @ nat_str (nat pid), ''createdAt='' @ isoStr now, []]"
    unfolding lock_text_def
    using split_on_append [of "CHR 0x0A" "''pid='' @ nat_str (nat pid)"] split_on_append [of "CHR 0x0A" "''createdAt='' @ isoStr now" "[]"]
      plain_no_newline [OF p(1)] plain_no_newline [OF p(2)] by simp
  then have "split_lines (lock_text isoStr pid now) = [''pid='' @ nat_str (nat pid), ''createdAt='' @ isoStr now, []]"
    using plain_chomp [OF p(1)] plain_chomp [OF p(2)] by (simp add: split_lines_def)
  moreover have "trim [] = []" by (simp add: trim_def)
  ultimately show ?thesis
    using assms plain_trim [OF p(1)] plain_trim [OF p(2)] parse_int_nat_str [of "nat pid"]
    by (simp add: parseLockMetadata_def parse_lock_line_def starts_with_def)
qed

text \<open>
  The invariant: an owner's inode is the one the path points to, and every pid that a file names
  or a process has read is running.
\<close>

definition meta_alive :: "lock_world \<Rightarrow> lock_meta \<Rightarrow> bool" where
  "meta_alive w m \<longleftrightarrow> (\<forall>pid. fst m = Some pid \<longrightarrow> snd m \<noteq> None \<longrightarrow> lw_alive w pid)"

definition owner_of :: "lock_world \<Rightarrow> int \<Rightarrow> nat \<Rightarrow> bool" where
  "owner_of w p n \<longleftrightarrow> (\<exists>d pc. lw_procs w p = Some (d, pc) \<and> owned_inode pc = Some n)"

fun pc_safe :: "lock_world \<Rightarrow> lock_pc \<Rightarrow> bool" where
  "pc_safe w Removing = False"
| "pc_safe w (Judging m) = meta_alive w m"
| "pc_safe w _ = True"

definition lock_inv :: "(time \<Rightarrow> string) \<Rightarrow> lock_world \<Rightarrow> bool" where
  "lock_inv isoStr w \<longleftrightarrow>
     (\<forall>p n. owner_of w p n \<longrightarrow> fs_path (lw_fs w) = Some n) \<and>
     (\<forall>p p' n n'. owner_of w p n \<longrightarrow> owner_of w p' n' \<longrightarrow> p = p') \<and>
     (\<forall>n. fs_path (lw_fs w) = Some n \<longrightarrow> (\<exists>p. owner_of w p n \<and> 0 < p \<and>
        (fs_text (lw_fs w) n = [] \<or> (\<exists>t. fs_text (lw_fs w) n = lock_text isoStr p t)))) \<and>
     (\<forall>p d pc. lw_procs w p = Some (d, pc) \<longrightarrow> pc_safe w pc \<and> 0 < p)"

lemma lock_inv_owner: "lock_inv isoStr w \<Longrightarrow> owner_of w p n \<Longrightarrow> owner_of w p' n' \<Longrightarrow> p = p'"
  by (simp add: lock_inv_def) metis

lemma lock_inv_path: "lock_inv isoStr w \<Longrightarrow> owner_of w p n \<Longrightarrow> fs_path (lw_fs w) = Some n"
  by (simp add: lock_inv_def)

lemma lock_inv_file: "lock_inv isoStr w \<Longrightarrow> fs_path (lw_fs w) = Some n \<Longrightarrow>
    \<exists>p. owner_of w p n \<and> 0 < p \<and> (fs_text (lw_fs w) n = [] \<or> (\<exists>t. fs_text (lw_fs w) n = lock_text isoStr p t))"
  by (simp add: lock_inv_def)

lemma owner_alive: "owner_of w p n \<Longrightarrow> lw_alive w p"
  by (auto simp: owner_of_def lw_alive_def)

lemma owner_of_update:
  "owner_of (w\<lparr>lw_fs := fs, lw_procs := (lw_procs w)(p \<mapsto> (d, pc))\<rparr>) p' n \<longleftrightarrow>
     (if p' = p then owned_inode pc = Some n else owner_of w p' n)"
  by (auto simp: owner_of_def)

lemma pc_safe_grow: "pc_safe w pc \<Longrightarrow> (\<And>p. lw_alive w p \<Longrightarrow> lw_alive w' p) \<Longrightarrow> pc_safe w' pc"
  by (cases pc) (auto simp: meta_alive_def)

lemma meta_alive_parse:
  assumes "lock_inv isoStr w" "fs_path (lw_fs w) = Some n"
    and "\<And>t. plain_text (isoStr t) \<and> date_parse (isoStr t) = Some t"
  shows "meta_alive w (parseLockMetadata date_parse (fs_text (lw_fs w) n))"
proof -
  obtain p where p: "owner_of w p n" "0 < p"
      "fs_text (lw_fs w) n = [] \<or> (\<exists>t. fs_text (lw_fs w) n = lock_text isoStr p t)"
    using lock_inv_file [OF assms(1,2)] by blast
  have "parseLockMetadata date_parse [] = (None, None)"
    by (simp add: parseLockMetadata_def split_lines_def parse_lock_line_def trim_def)
  then show ?thesis
    using p parse_lock_text [OF p(2), of isoStr _ date_parse] assms(3) owner_alive [OF p(1)]
    by (auto simp: meta_alive_def)
qed

lemma lock_inv_step:
  assumes inv: "lock_inv isoStr w" and pc: "lw_procs w p = Some (d, pc)"
    and fs: "\<And>p' n. p' \<noteq> p \<Longrightarrow> owner_of w p' n \<Longrightarrow> fs = lw_fs w \<and> owned_inode pc' = None"
    and own: "owned_inode pc' = Some n0 \<Longrightarrow> fs_path fs = Some n0 \<and>
      (fs_text fs n0 = [] \<or> (\<exists>t. fs_text fs n0 = lock_text isoStr p t))"
    and path: "\<And>n. fs_path fs = Some n \<Longrightarrow> owned_inode pc' = Some n \<or>
      fs = lw_fs w \<and> owned_inode pc = None"
    and n0: "\<And>n. owned_inode pc' = Some n \<Longrightarrow> n = n0"
    and safe: "pc_safe w pc'"
  shows "lock_inv isoStr (w\<lparr>lw_fs := fs, lw_procs := (lw_procs w)(p \<mapsto> (d, pc'))\<rparr>)"
proof -
  let ?w = "w\<lparr>lw_fs := fs, lw_procs := (lw_procs w)(p \<mapsto> (d, pc'))\<rparr>"
  have grow: "lw_alive w q \<Longrightarrow> lw_alive ?w q" for q by (simp add: lw_alive_def)
  have p0: "0 < p" using inv pc by (auto simp: lock_inv_def)
  have "fs_path (lw_fs ?w) = Some n" if "owner_of ?w q n" for q n
    using that own n0 fs lock_inv_path [OF inv] by (fastforce simp: owner_of_update split: if_splits)
  moreover have "q = q'" if "owner_of ?w q n" "owner_of ?w q' n'" for q q' n n'
    using that fs lock_inv_owner [OF inv] by (fastforce simp: owner_of_update split: if_splits)
  moreover have "\<exists>q. owner_of ?w q n \<and> 0 < q \<and>
      (fs_text (lw_fs ?w) n = [] \<or> (\<exists>t. fs_text (lw_fs ?w) n = lock_text isoStr q t))"
    if n: "fs_path (lw_fs ?w) = Some n" for n
  proof (cases "owned_inode pc' = Some n")
    case True
    then show ?thesis using own n0 p0 by (intro exI [of _ p]) (auto simp: owner_of_update)
  next
    case False
    then have "fs = lw_fs w" "owned_inode pc = None" using path n by auto
    then obtain q where "owner_of w q n" "0 < q"
        "fs_text fs n = [] \<or> (\<exists>t. fs_text fs n = lock_text isoStr q t)"
      using lock_inv_file [OF inv] n by auto
    moreover have "q \<noteq> p" using calculation(1) pc \<open>owned_inode pc = None\<close> by (auto simp: owner_of_def)
    ultimately show ?thesis by (intro exI [of _ q]) (simp add: owner_of_update)
  qed
  moreover have "pc_safe ?w pc1 \<and> 0 < q" if "lw_procs ?w q = Some (d1, pc1)" for q d1 pc1
    using that inv safe p0 pc_safe_grow [of w _ ?w, OF _ grow] by (auto simp: lock_inv_def split: if_splits)
  ultimately show ?thesis unfolding lock_inv_def by blast
qed

lemma lock_inv_no_inode:
  assumes inv: "lock_inv isoStr w" and pc: "lw_procs w p = Some (d, pc)"
    and "owned_inode pc = None" "owned_inode pc' = None" "pc_safe w pc'"
  shows "lock_inv isoStr (w\<lparr>lw_procs := (lw_procs w)(p \<mapsto> (d, pc'))\<rparr>)"
  using lock_inv_step [OF inv pc, of "lw_fs w" pc'] assms(3-5) by simp

lemma lock_inv_act:
  assumes inv: "lock_inv isoStr w" and ok: "\<And>t. plain_text (isoStr t) \<and> date_parse (isoStr t) = Some t"
    and "\<And>pid. e \<noteq> Die pid" "lock_act isoStr date_parse opts lockPath w e = Some w'"
  shows "lock_inv isoStr w'"
proof (cases e)
  case (Elapse t)
  then have "w' = w\<lparr>lw_clock := t\<rparr>" using assms(4) by (auto split: if_splits)
  moreover have "owner_of (w\<lparr>lw_clock := t\<rparr>) = owner_of w" "lw_alive (w\<lparr>lw_clock := t\<rparr>) = lw_alive w"
    by (auto simp: owner_of_def lw_alive_def fun_eq_iff)
  ultimately show ?thesis
    using inv pc_safe_grow [of w _ "w\<lparr>lw_clock := t\<rparr>"] by (auto simp: lock_inv_def)
next
  case (Begin p)
  let ?d = "lw_clock w + lo_timeoutMs opts"
  have p: "0 < p" "w' = w\<lparr>lw_procs := (lw_procs w)(p \<mapsto> (?d, Trying))\<rparr>"
    and none: "\<not> owner_of w p n" for n
    using Begin assms(4) by (auto simp: owner_of_def split: if_splits option.splits elim: idle_pc.elims)
  have ow: "owner_of w' q n \<longleftrightarrow> owner_of w q n" for q n
    using none by (auto simp: p(2) owner_of_def)
  have "lw_alive w q \<Longrightarrow> lw_alive w' q" for q by (simp add: p(2) lw_alive_def)
  then have "pc_safe w' pc \<and> 0 < q" if "lw_procs w' q = Some (d, pc)" for q d pc
    using that inv p(1) pc_safe_grow [of w _ w'] by (auto simp: p(2) lock_inv_def split: if_splits)
  then show ?thesis using inv p(1) unfolding lock_inv_def ow by (simp add: p(2))
next
  case (Step p)
  obtain d pc where pc: "lw_procs w p = Some (d, pc)" using Step assms(4) by (auto split: option.splits)
  obtain fs pc' where st: "lock_step isoStr date_parse opts lockPath p d (lw_clock w) (lw_alive w) (lw_fs w) pc = (fs, pc')"
    by fastforce
  then have w': "w' = w\<lparr>lw_fs := fs, lw_procs := (lw_procs w)(p \<mapsto> (d, pc'))\<rparr>"
    using Step assms(4) pc by simp
  have safe: "pc_safe w pc" using inv pc by (auto simp: lock_inv_def)
  have own: "owner_of w p n \<longleftrightarrow> owned_inode pc = Some n" for n using pc by (simp add: owner_of_def)
  note quiet = lock_inv_no_inode [OF inv pc]
  show ?thesis
  proof (cases pc)
    case Trying
    show ?thesis
    proof (cases "lw_clock w \<le> d \<and> fs_path (lw_fs w) = None")
      case True
      then have no: "\<not> owner_of w q n" for q n using lock_inv_path [OF inv, of q n] by auto
      have e: "pc' = Opened (fs_next (lw_fs w))" "fs_path fs = Some (fs_next (lw_fs w))"
          "fs_text fs (fs_next (lw_fs w)) = []"
        using st True Trying by (auto simp: lock_step_def)
      show ?thesis unfolding w'
        by (rule lock_inv_step [OF inv pc, where ?n0.0 = "fs_next (lw_fs w)"]) (simp_all add: e no)
    next
      case False
      then show ?thesis using quiet [of pc'] st Trying
        by (auto simp: w' lock_step_def split: if_splits)
    qed
  next
    case (Opened n)
    have "fs_path (lw_fs w) = Some n" by (rule lock_inv_path [OF inv, of p]) (simp add: own Opened)
    moreover have "q = p" if "owner_of w q m" for q m
      by (rule lock_inv_owner [OF inv that, of p n]) (simp add: own Opened)
    moreover have "pc' = Owning n" "fs = (lw_fs w)\<lparr>fs_text := (fs_text (lw_fs w))(n := lock_text isoStr p (lw_clock w))\<rparr>"
      using st Opened by (auto simp: lock_step_def)
    ultimately show ?thesis unfolding w'
      by (intro lock_inv_step [OF inv pc, where ?n0.0 = n]) auto
  next
    case Inspecting
    then show ?thesis
      using quiet [of pc'] meta_alive_parse [OF inv _ ok] st
      by (auto simp: w' lock_step_def split: option.splits)
  next
    case (Judging m)
    have "\<not> stale_lock (lo_staleAfterMs opts) (lw_clock w) (lw_alive w) m"
      using safe Judging by (auto simp: stale_lock_def meta_alive_def split: jsnum.splits prod.splits option.splits)
    then show ?thesis using quiet [of pc'] st Judging by (auto simp: w' lock_step_def)
  next
    case (Owning n)
    have "fs_path (lw_fs w) = Some n" by (rule lock_inv_path [OF inv, of p]) (simp add: own Owning)
    moreover obtain q where q: "owner_of w q n" "fs_text (lw_fs w) n = [] \<or> (\<exists>t. fs_text (lw_fs w) n = lock_text isoStr q t)"
      using lock_inv_file [OF inv calculation] by auto
    moreover have "q = p" if "owner_of w q m" for q m
      by (rule lock_inv_owner [OF inv that, of p n]) (simp add: own Owning)
    moreover have "pc' = Closed n" "fs = lw_fs w" using st Owning by (auto simp: lock_step_def)
    ultimately show ?thesis unfolding w'
      by (intro lock_inv_step [OF inv pc, where ?n0.0 = n]) auto
  next
    case (Closed n)
    have "q = p" if "owner_of w q m" for q m
      by (rule lock_inv_owner [OF inv that, of p n]) (simp add: own Closed)
    moreover have "pc' = Released" "fs_path fs = None"
      using st Closed by (auto simp: lock_step_def remove_path_def)
    ultimately show ?thesis unfolding w'
      by (intro lock_inv_step [OF inv pc]) auto
  qed (use quiet [of pc'] st safe in \<open>auto simp: w' lock_step_def split: if_splits\<close>)
qed (use assms(3) in auto)

lemma lock_reach_inv:
  assumes ok: "\<And>t. plain_text (isoStr t) \<and> date_parse (isoStr t) = Some t"
  shows "lock_reach isoStr date_parse opts lockPath w \<Longrightarrow> lock_inv isoStr w"
proof (induction rule: lock_reach.induct)
  case (init w)
  then show ?case by (simp add: lock_inv_def owner_of_def)
next
  case (act w e w')
  then show ?case using lock_inv_act [OF _ ok] by blast
qed

text \<open>A file without metadata that nobody owns stays for ever.\<close>

fun pc_outside :: "lock_pc \<Rightarrow> bool" where
  "pc_outside Removing = False"
| "pc_outside (Judging m) = (m = (None, None))"
| "pc_outside pc = (owned_inode pc = None)"

definition orphaned :: "lock_world \<Rightarrow> bool" where
  "orphaned w \<longleftrightarrow> (\<exists>n. fs_path (lw_fs w) = Some n \<and> fs_text (lw_fs w) n = []) \<and>
     (\<forall>p d pc. lw_procs w p = Some (d, pc) \<longrightarrow> pc_outside pc)"

lemma orphaned_act:
  assumes "orphaned w" "lock_act isoStr date_parse opts lockPath w e = Some w'"
  shows "orphaned w'"
proof (cases e)
  case (Step p)
  obtain d pc where pc: "lw_procs w p = Some (d, pc)" using Step assms(2) by (auto split: option.splits)
  obtain fs pc' where st: "lock_step isoStr date_parse opts lockPath p d (lw_clock w) (lw_alive w) (lw_fs w) pc = (fs, pc')"
    by fastforce
  have "parseLockMetadata date_parse [] = (None, None)"
    by (simp add: parseLockMetadata_def split_lines_def parse_lock_line_def trim_def)
  moreover have "pc_outside pc" using assms(1) pc by (auto simp: orphaned_def)
  ultimately have "fs = lw_fs w \<and> pc_outside pc'"
    using assms(1) st
    by (cases pc) (auto simp: orphaned_def lock_step_def stale_lock_def split: if_splits jsnum.splits)
  then show ?thesis using assms st pc Step by (auto simp: orphaned_def split: if_splits)
qed (use assms in \<open>auto simp: orphaned_def split: if_splits\<close>)

lemma orphaned_acts:
  "orphaned w \<Longrightarrow> lock_acts isoStr date_parse opts lockPath w es = Some w' \<Longrightarrow> orphaned w'"
  by (induction es arbitrary: w) (auto split: option.splits dest: orphaned_act)

lemma pc_outside_none: "pc_outside pc \<Longrightarrow> owned_inode pc = None"
  by (cases pc) auto

lemma orphaned_no_owner: "orphaned w \<Longrightarrow> \<not> owner_of w p n"
  unfolding orphaned_def owner_of_def using pc_outside_none by fastforce

section \<open>Properties\<close>

text \<open>
  C23 Mutual exclusion of the lock file. Start without a lock file and without processes, and let
  processes begin, wait, time out, own and release in any order, at any speed and with any
  options. While no process dies, at most one has the lock: from the moment it has opened the
  file until it has removed it.
\<close>

theorem lock_file_exclusive:
  assumes "\<And>t. plain_text (isoStr t) \<and> date_parse (isoStr t) = Some t"
    and "lock_reach isoStr date_parse opts lockPath w"
    and "lw_procs w p = Some (d, pc)" "owned_inode pc = Some n"
    and "lw_procs w p' = Some (d', pc')" "owned_inode pc' = Some n'"
  shows "p = p'"
proof -
  have "lock_inv isoStr w" by (rule lock_reach_inv [OF assms(1,2)])
  then show ?thesis by (rule lock_inv_owner) (use assms(3-6) in \<open>auto simp: owner_of_def\<close>)
qed

text \<open>
  The metadata of a lock file survive the round trip: what a process with a positive pid
  writes at a time is read back as that pid and time.
\<close>

theorem lock_metadata_roundtrip:
  assumes "0 < pid" "plain_text (isoStr now)" "date_parse (isoStr now) = Some now"
  shows "parseLockMetadata date_parse (lock_text isoStr pid now) = (Some pid, Some now)"
  using parse_lock_text [of pid isoStr now date_parse] assms by simp

text \<open>
  A process that dies between opening the lock file and writing its metadata blocks the lock
  for ever: the empty file names no process, so nobody reclaims it, and whatever happens
  afterwards, no process ever has the lock again.
\<close>

theorem lock_file_blocked_after_crash:
  assumes "lw_procs w = Map.empty" "fs_path (lw_fs w) = None" "0 \<le> lo_timeoutMs opts"
    and "lock_acts isoStr date_parse opts lockPath w ([Begin q, Step q, Die q] @ es) = Some w'"
  shows "\<nexists>p d pc n. lw_procs w' p = Some (d, pc) \<and> owned_inode pc = Some n"
proof -
  obtain w1 where w1: "lock_acts isoStr date_parse opts lockPath w1 es = Some w'" "orphaned w1"
    using assms by (auto simp: lock_step_def orphaned_def split: if_splits option.splits)
  then show ?thesis using orphaned_no_owner [OF orphaned_acts [OF w1(2,1)]]
    unfolding owner_of_def by blast
qed

text \<open>A machine without lock file.\<close>

definition demo_machine :: lock_world where
  "demo_machine = \<lparr>lw_fs = \<lparr>fs_path = None, fs_text = (\<lambda>_. []), fs_next = 0\<rparr>, lw_clock = 1000,
     lw_procs = Map.empty\<rparr>"

lemma demo_iso_ok: "plain_text (demo_iso t) \<and> demo_date (demo_iso t) = Some t"
  by (simp add: demo_iso_inverse) (simp add: demo_iso_def nat_str_plain)

lemma lock_metadata_roundtrip_witness:
  "parseLockMetadata demo_date (lock_text demo_iso 4711 1700000000000) = (Some 4711, Some 1700000000000)"
  using lock_metadata_roundtrip [of 4711 demo_iso 1700000000000 demo_date] demo_iso_ok by simp

lemma demo_meta:
  "0 < p \<Longrightarrow> parseLockMetadata demo_date (lock_text demo_iso p t) = (Some p, Some t)"
  using parse_lock_text [of p demo_iso t demo_date] demo_iso_ok by simp

lemma empty_meta: "parseLockMetadata demo_date [] = (None, None)"
  by (simp add: parseLockMetadata_def split_lines_def parse_lock_line_def trim_def)

lemmas demo_lock_simps = demo_machine_def default_lock_options_def lock_step_def stale_lock_def
  remove_path_def lw_alive_def demo_meta empty_meta


text \<open>One process acquires the lock file, another has to wait.\<close>

definition demo_lock_run :: "lock_event list \<Rightarrow> lock_world" where
  "demo_lock_run es = the (lock_acts demo_iso demo_date default_lock_options ''s.lock'' demo_machine es)"

lemma demo_lock_reach:
  "(\<forall>pid. Die pid \<notin> set es) \<Longrightarrow> lock_acts demo_iso demo_date default_lock_options ''s.lock'' w es = Some w' \<Longrightarrow>
   lock_reach demo_iso demo_date default_lock_options ''s.lock'' w \<Longrightarrow>
   lock_reach demo_iso demo_date default_lock_options ''s.lock'' w'"
proof (induction es arbitrary: w)
  case (Cons e es)
  obtain w1 where w1: "lock_act demo_iso demo_date default_lock_options ''s.lock'' w e = Some w1"
      "lock_acts demo_iso demo_date default_lock_options ''s.lock'' w1 es = Some w'"
    using Cons.prems(2) by (auto split: option.splits)
  have "e \<noteq> Die pid" for pid using Cons.prems(1) by auto
  then have "lock_reach demo_iso demo_date default_lock_options ''s.lock'' w1"
    using Cons.prems(3) w1(1) lock_reach.act by blast
  then show ?case using Cons.IH [OF _ w1(2)] Cons.prems(1) by simp
qed simp

lemma lock_file_exclusive_witness:
  "lw_procs (demo_lock_run [Begin 5, Begin 6, Step 5, Step 6, Step 5, Step 6]) 5 = Some (11000, Owning 0) \<and>
   \<not> (\<exists>d pc n p. p \<noteq> 5 \<and> owned_inode pc = Some n \<and>
     lw_procs (demo_lock_run [Begin 5, Begin 6, Step 5, Step 6, Step 5, Step 6]) p = Some (d, pc))"
proof -
  let ?es = "[Begin 5, Begin 6, Step 5, Step 6, Step 5, Step 6]"
  obtain w where w: "lock_acts demo_iso demo_date default_lock_options ''s.lock'' demo_machine ?es = Some w"
      "lw_procs w 5 = Some (11000, Owning 0)"
    by (simp add: demo_lock_simps)
  have "lock_reach demo_iso demo_date default_lock_options ''s.lock'' demo_machine"
    by (rule lock_reach.init) (simp_all add: demo_machine_def)
  then have r: "lock_reach demo_iso demo_date default_lock_options ''s.lock'' w"
    using demo_lock_reach [OF _ w(1)] by simp
  have "p = 5" if "lw_procs w p = Some (d, pc)" "owned_inode pc = Some n" for p d pc n
    by (rule lock_file_exclusive [OF demo_iso_ok r that w(2)]) simp
  moreover have "demo_lock_run ?es = w" using w(1) by (simp only: demo_lock_run_def option.sel)
  ultimately show ?thesis using w(2) by blast
qed

lemma lock_file_blocked_after_crash_witness:
  "\<exists>w. lock_acts demo_iso demo_date default_lock_options ''s.lock'' demo_machine
      ([Begin 5, Step 5, Die 5] @ [Elapse 90000, Begin 6, Step 6, Step 6, Step 6]) = Some w \<and>
    \<not> (\<exists>p d pc n. lw_procs w p = Some (d, pc) \<and> owned_inode pc = Some n)"
proof -
  obtain w where w: "lock_acts demo_iso demo_date default_lock_options ''s.lock'' demo_machine
      ([Begin 5, Step 5, Die 5] @ [Elapse 90000, Begin 6, Step 6, Step 6, Step 6]) = Some w"
    by (simp add: demo_lock_simps)
  from lock_file_blocked_after_crash [OF _ _ _ w] show ?thesis
    using w by (intro exI [of _ w]) (simp add: demo_machine_def default_lock_options_def)
qed

end
