(* ===== verification/EgressPolicy.thy ===== *)
theory EgressPolicy
  imports Prelude
begin

text \<open>
  The egress policy of sandboxed runs, from \<open>control-plane/services/policy.ts\<close>: the allow list and
  the declared destinations that a run's metadata name, and the check of the one against the
  other, which denies by default. \<open>urlParse\<close> stands for the WHATWG \<open>URL\<close> constructor: host name,
  port and protocol of a text, or \<open>None\<close> when it throws.
\<close>

section \<open>Definitions\<close>

record egress_rule =
  er_host :: string
  er_port :: "nat option"

datatype egress_source = FromMetadata | FromWorkspaceRepo

record egress_destination =
  ed_host :: string
  ed_port :: "nat option"
  ed_source :: egress_source

type_synonym url = "string \<times> string \<times> string"

definition last_index :: "char \<Rightarrow> string \<Rightarrow> nat option" where
  "last_index c s = map_option (\<lambda>i. length s - 1 - i) (find_index (\<lambda>x. x = c) (rev s))"

definition normalizeEgressHost :: "string \<Rightarrow> string" where
  "normalizeEgressHost value = (let v = to_lower (trim value) in
     if v \<noteq> [] \<and> last v = CHR ''.'' then butlast v else v)"

definition isIpv4Host :: "string \<Rightarrow> bool" where
  "isIpv4Host value = (let parts = split_on CHR ''.'' value in
     if length parts \<noteq> 4 then False
     else list_all (\<lambda>part. part \<noteq> [] \<and> length part \<le> 3 \<and> list_all is_digit part \<and> digits_value part \<le> 255) parts)"

definition is_alnum :: "char \<Rightarrow> bool" where
  "is_alnum c \<longleftrightarrow> is_digit c \<or> (97 \<le> (of_char c :: nat) \<and> (of_char c :: nat) \<le> 122)"

definition host_label :: "string \<Rightarrow> bool" where
  "host_label label \<longleftrightarrow> label \<noteq> [] \<and> is_alnum (hd label) \<and> is_alnum (last label) \<and>
     list_all (\<lambda>c. is_alnum c \<or> c = CHR ''-'') label"

definition isHostname :: "string \<Rightarrow> bool" where
  "isHostname value =
     (if value = [] \<or> 253 < length value then False
      else if \<not> list_all (\<lambda>c. is_alnum c \<or> c = CHR ''.'' \<or> c = CHR ''-'') value then False
      else (let labels = split_on CHR ''.'' value in
        if list_ex (\<lambda>label. label = [] \<or> 63 < length label) labels then False
        else list_all host_label labels))"

definition isValidEgressHost :: "string \<Rightarrow> bool" where
  "isValidEgressHost value =
     (if isIpv4Host value then True
      else if isHostname value then True
      else if starts_with ''*.'' value then isHostname (drop 2 value)
      else False)"

definition parseEgressToken :: "string \<Rightarrow> egress_rule option" where
  "parseEgressToken value =
     (let trimmed = to_lower (trim value) in
      if trimmed = [] then None
      else (let (host, port) =
          (case last_index CHR '':'' trimmed of
             Some separator \<Rightarrow>
               if 0 < separator \<and> separator < length trimmed - 1 \<and> \<not> ends_with '']'' trimmed then
                 (let portCandidate = drop (separator + 1) trimmed in
                  if portCandidate \<noteq> [] \<and> length portCandidate \<le> 5 \<and> list_all is_digit portCandidate \<and>
                    1 \<le> digits_value portCandidate \<and> digits_value portCandidate \<le> 65535
                  then (take separator trimmed, Some (digits_value portCandidate))
                  else (trimmed, None))
               else (trimmed, None)
           | None \<Rightarrow> (trimmed, None));
          h = normalizeEgressHost host
        in if h = [] \<or> \<not> isValidEgressHost h then None else Some \<lparr>er_host = h, er_port = port\<rparr>))"

definition egress_key :: "string \<Rightarrow> nat option \<Rightarrow> string" where
  "egress_key host port = host @ '':'' @ (case port of Some p \<Rightarrow> nat_str p | None \<Rightarrow> ''*'')"

text \<open>The loops that drop an item whose key has been seen.\<close>

fun dedupe_by :: "('a \<Rightarrow> string) \<Rightarrow> string list \<Rightarrow> 'a list \<Rightarrow> 'a list" where
  "dedupe_by key seen [] = []"
| "dedupe_by key seen (x # xs) =
     (if key x \<in> set seen then dedupe_by key seen xs else x # dedupe_by key (key x # seen) xs)"

definition parseSandboxEgressAllowList :: "string option \<Rightarrow> egress_rule list" where
  "parseSandboxEgressAllowList value =
     (case value of
        None \<Rightarrow> []
      | Some v \<Rightarrow> if v = [] then []
          else dedupe_by (\<lambda>r. egress_key (er_host r) (er_port r)) []
            (List.map_filter parseEgressToken (split_on CHR '','' v)))"

definition parseSandboxEgressDestinations :: "string option \<Rightarrow> egress_destination list" where
  "parseSandboxEgressDestinations value =
     (case value of
        None \<Rightarrow> []
      | Some v \<Rightarrow> if v = [] then []
          else map (\<lambda>r. \<lparr>ed_host = er_host r, ed_port = er_port r, ed_source = FromMetadata\<rparr>)
            (List.map_filter parseEgressToken (split_on CHR '','' v)))"

definition parseWorkspaceRepoDestination :: "(string \<Rightarrow> url option) \<Rightarrow> string option \<Rightarrow> egress_rule option" where
  "parseWorkspaceRepoDestination urlParse value =
     (case value of
        None \<Rightarrow> None
      | Some v \<Rightarrow> if v = [] then None
          else (case urlParse v of
            None \<Rightarrow> None
          | Some (hostname, portText, protocol) \<Rightarrow>
              (let host = normalizeEgressHost hostname in
               if host = [] \<or> \<not> isValidEgressHost host then None
               else (let explicitPort = (if portText = [] then None else parse_int portText);
                    defaultPort = (if protocol = ''https:'' then Some 443
                      else if protocol = ''http:'' then Some 80 else None)
                 in Some \<lparr>er_host = host, er_port = (case explicitPort of
                      Some p \<Rightarrow> if 1 \<le> p \<and> p \<le> 65535 then Some (nat p) else defaultPort
                    | None \<Rightarrow> defaultPort)\<rparr>))))"

definition dedupeEgressDestinations :: "egress_destination list \<Rightarrow> egress_destination list" where
  "dedupeEgressDestinations items = dedupe_by (\<lambda>d. egress_key (ed_host d) (ed_port d)) [] items"

definition resolveSandboxEgressPolicy :: "string option \<Rightarrow> egress_rule list" where
  "resolveSandboxEgressPolicy sandboxAllowedEgress = parseSandboxEgressAllowList sandboxAllowedEgress"

definition resolveDeclaredSandboxEgressDestinations :: "(string \<Rightarrow> url option) \<Rightarrow> string option \<Rightarrow>
    string option \<Rightarrow> egress_destination list" where
  "resolveDeclaredSandboxEgressDestinations urlParse sandboxEgressDestinations workspaceSyncRepo =
     (let declared = parseSandboxEgressDestinations sandboxEgressDestinations in
      dedupeEgressDestinations
        (case parseWorkspaceRepoDestination urlParse workspaceSyncRepo of
           None \<Rightarrow> declared
         | Some r \<Rightarrow> declared @ [\<lparr>ed_host = er_host r, ed_port = er_port r, ed_source = FromWorkspaceRepo\<rparr>]))"

definition matchesEgressHostRule :: "string \<Rightarrow> string \<Rightarrow> bool" where
  "matchesEgressHostRule ruleHost destinationHost =
     (if ruleHost = destinationHost then True
      else if \<not> starts_with ''*.'' ruleHost then False
      else (let suffix = drop 1 ruleHost in
        ends_with suffix destinationHost \<and> length suffix < length destinationHost))"

definition rule_matches :: "egress_destination \<Rightarrow> egress_rule \<Rightarrow> bool" where
  "rule_matches destination rule =
     (case er_port rule of
        Some p \<Rightarrow> if ed_port destination = None \<or> ed_port destination \<noteq> Some p then False
          else matchesEgressHostRule (er_host rule) (ed_host destination)
      | None \<Rightarrow> matchesEgressHostRule (er_host rule) (ed_host destination))"

definition matchesAllowedDestination :: "egress_rule list \<Rightarrow> egress_destination \<Rightarrow> bool" where
  "matchesAllowedDestination allow destination = list_ex (rule_matches destination) allow"

definition formatEgressDestination :: "string \<Rightarrow> nat option \<Rightarrow> string" where
  "formatEgressDestination host port = host @ (case port of Some p \<Rightarrow> '':'' @ nat_str p | None \<Rightarrow> [])"

datatype egress_decision = EgressAllowed | EgressBlocked | EgressError

fun evaluateSandboxEgressPolicy :: "egress_rule list \<Rightarrow> egress_destination list \<Rightarrow> egress_decision \<times> string" where
  "evaluateSandboxEgressPolicy allow [] = (EgressAllowed, ''ok'')"
| "evaluateSandboxEgressPolicy allow (destination # declared) =
     (if \<not> isValidEgressHost (ed_host destination) then
        (EgressError, ''Sandbox egress policy evaluation failed: destination host '' @
           quoted (ed_host destination) @ '' is invalid.'')
      else if \<not> matchesAllowedDestination allow destination then
        (EgressBlocked, ''Sandbox egress destination '' @
           quoted (formatEgressDestination (ed_host destination) (ed_port destination)) @ '' is not allow-listed.'')
      else evaluateSandboxEgressPolicy allow declared)"

section \<open>Hosts\<close>

lemma last_index_split: "c \<notin> set y \<Longrightarrow> last_index c (x @ c # y) = Some (length x)"
proof -
  assume "c \<notin> set y"
  then have "find_index (\<lambda>x. x = c) (rev y @ c # rev x) = Some (length y)"
    by (induction y rule: rev_induct) auto
  then show ?thesis by (simp add: last_index_def)
qed

lemma last_index_none: "c \<notin> set s \<Longrightarrow> last_index c s = None"
  by (auto simp: last_index_def find_index_None)

definition host_char :: "char \<Rightarrow> bool" where
  "host_char c \<longleftrightarrow> is_alnum c \<or> c = CHR ''.'' \<or> c = CHR ''-'' \<or> c = CHR ''*''"

lemma split_on_set: "p \<in> set (split_on c s) \<Longrightarrow> x \<in> set p \<Longrightarrow> x \<in> set s"
  by (induction s arbitrary: p) (simp, fastforce split: if_splits list.splits)

lemma set_split_on: "x \<in> set s \<Longrightarrow> x = c \<or> (\<exists>p \<in> set (split_on c s). x \<in> set p)"
  by (induction s) (auto split: list.splits)

lemma ipv4_chars: "isIpv4Host s \<Longrightarrow> c \<in> set s \<Longrightarrow> is_digit c \<or> c = CHR ''.''"
  using set_split_on [of c s "CHR ''.''"] by (auto simp: isIpv4Host_def Let_def list_all_iff split: if_splits)

lemma hostname_chars: "isHostname s \<Longrightarrow> c \<in> set s \<Longrightarrow> is_alnum c \<or> c = CHR ''.'' \<or> c = CHR ''-''"
  by (auto simp: isHostname_def list_all_iff split: if_splits)

lemma starts_with_iff: "starts_with p s \<longleftrightarrow> (\<exists>r. s = p @ r)"
  by (metis append_take_drop_id append_eq_conv_conj starts_with_def)

lemma valid_host_cases:
  assumes "isValidEgressHost s"
  obtains (plain) "\<forall>c \<in> set s. is_alnum c \<or> c = CHR ''.'' \<or> c = CHR ''-''"
    | (wild) t where "s = ''*.'' @ t" "isHostname t" "\<forall>c \<in> set t. is_alnum c \<or> c = CHR ''.'' \<or> c = CHR ''-''"
proof (cases "isIpv4Host s \<or> isHostname s")
  case True
  then show ?thesis using plain ipv4_chars hostname_chars is_alnum_def by metis
next
  case False
  then have "starts_with ''*.'' s" "isHostname (drop 2 s)" using assms by (auto simp: isValidEgressHost_def split: if_splits)
  then show ?thesis using wild [of "drop 2 s"] hostname_chars [of "drop 2 s"] by (auto simp: starts_with_iff)
qed

lemma valid_host_chars: "isValidEgressHost s \<Longrightarrow> c \<in> set s \<Longrightarrow> host_char c"
  by (erule valid_host_cases) (auto simp: host_char_def)

lemma host_char_facts:
  "host_char c \<Longrightarrow> \<not> is_space c \<and> lower_char c = c \<and> c \<noteq> CHR '':'' \<and> c \<noteq> CHR '','' \<and> c \<noteq> CHR '']''"
  by (auto simp: host_char_def is_alnum_def is_digit_def is_space_def lower_char_def Let_def)

lemma digit_facts: "is_digit c \<Longrightarrow> \<not> is_space c \<and> lower_char c = c \<and> c \<noteq> CHR '':'' \<and> c \<noteq> CHR '']''"
  by (auto simp: is_digit_def is_space_def lower_char_def Let_def)

lemma colon_facts: "\<not> is_space CHR '':''" "lower_char CHR '':'' = CHR '':''"
  by (simp_all add: is_space_def lower_char_def)

lemma plain_chars_text:
  assumes "s \<noteq> []" "\<forall>c \<in> set s. \<not> is_space c \<and> lower_char c = c"
  shows "trim s = s" "to_lower s = s"
proof -
  show "to_lower s = s" using assms by (auto simp: to_lower_def intro: map_idI)
  show "trim s = s" by (rule trim_id) (use assms in auto)
qed

lemma host_text:
  assumes "\<forall>c \<in> set s. host_char c"
  shows "trim s = s" "to_lower s = s"
proof -
  show "to_lower s = s" using assms host_char_facts by (auto simp: to_lower_def intro: map_idI)
  show "trim s = s"
  proof (cases "s = []")
    case False
    then show ?thesis using assms host_char_facts by (intro trim_id) auto
  qed (simp add: trim_def)
qed

lemma split_on_Nil: "split_on c s = [[]] \<longleftrightarrow> s = []"
  by (cases s) (auto split: list.splits)

lemma split_on_last: "last (split_on c s) = [] \<longleftrightarrow> s = [] \<or> last s = c"
  by (induction s) (auto split: list.splits simp: split_on_Nil)

lemma ends_with_single: "ends_with [c] s \<longleftrightarrow> s \<noteq> [] \<and> last s = c"
  by (cases s rule: rev_cases) (auto simp: ends_with_def)

lemma valid_host_last: "isValidEgressHost s \<Longrightarrow> s \<noteq> [] \<and> last s \<noteq> CHR ''.''"
proof -
  have h: "t \<noteq> [] \<and> last t \<noteq> CHR ''.''" if "isHostname t" for t
    using that split_on_last [of "CHR ''.''" t] last_in_set [OF split_on_nonempty [of "CHR ''.''" t]]
    by (auto simp: isHostname_def list_ex_iff Let_def split: if_splits)
  have "t \<noteq> [] \<and> last t \<noteq> CHR ''.''" if t: "isIpv4Host t" for t
  proof -
    have "last (split_on CHR ''.'' t) \<noteq> []"
      using t last_in_set [OF split_on_nonempty [of "CHR ''.''" t]]
      by (auto simp: isIpv4Host_def Let_def list_all_iff split: if_splits)
    then show ?thesis using split_on_last [of "CHR ''.''" t] by auto
  qed
  then show "isValidEgressHost s \<Longrightarrow> ?thesis"
    using h [of s] h [of "drop 2 s"] by (auto simp: isValidEgressHost_def split: if_splits)
qed

lemma normalize_valid_host: "isValidEgressHost s \<Longrightarrow> normalizeEgressHost s = s"
  using host_text [of s] valid_host_chars valid_host_last by (auto simp: normalizeEgressHost_def Let_def)

lemma parseEgressToken_valid: "parseEgressToken v = Some r \<Longrightarrow>
    isValidEgressHost (er_host r) \<and> (\<forall>p. er_port r = Some p \<longrightarrow> 1 \<le> p \<and> p \<le> 65535)"
  by (auto simp: parseEgressToken_def Let_def split: if_splits option.splits)

lemma length_nat_str: "n < 10 ^ Suc k \<Longrightarrow> length (nat_str n) \<le> Suc k"
proof (induction k arbitrary: n)
  case (Suc k)
  have "n div 10 < 10 ^ Suc k" using Suc.prems by (auto simp: div_less_iff_less_mult)
  then show ?case using Suc.IH [of "n div 10"] by (simp add: nat_str.simps [of n])
qed (simp add: nat_str.simps)

lemma parse_format_token:
  assumes "isValidEgressHost (er_host r)" "\<And>p. er_port r = Some p \<Longrightarrow> 1 \<le> p \<and> p \<le> 65535"
  shows "parseEgressToken (formatEgressDestination (er_host r) (er_port r)) = Some r"
proof (cases "er_port r")
  case None
  let ?h = "er_host r"
  have "\<forall>c \<in> set ?h. host_char c" using assms(1) valid_host_chars by blast
  then have "trim ?h = ?h" "to_lower ?h = ?h" "last_index CHR '':'' ?h = None"
    using host_text [of ?h] last_index_none [of "CHR '':''" ?h] host_char_facts by auto
  then show ?thesis
    using assms(1) valid_host_last [of ?h] normalize_valid_host None
    by (cases r) (simp add: parseEgressToken_def formatEgressDestination_def)
next
  case (Some p)
  let ?h = "er_host r" and ?s = "er_host r @ CHR '':'' # nat_str p"
  note d = nat_str_digits [of p]
  have h: "\<forall>c \<in> set ?h. host_char c" using assms(1) valid_host_chars by blast
  have "\<forall>c \<in> set ?s. \<not> is_space c \<and> lower_char c = c"
    using h host_char_facts d digit_facts colon_facts by auto
  then have t: "trim ?s = ?s" "to_lower ?s = ?s"
    using plain_chars_text [of ?s] by simp_all
  have "CHR '':'' \<notin> set (nat_str p)" using d digit_facts by metis
  then have i: "last_index CHR '':'' ?s = Some (length ?h)" by (rule last_index_split)
  have e: "\<not> ends_with '']'' ?s"
  proof -
    have "last (nat_str p) \<in> set (nat_str p)" using d by simp
    then have "last (nat_str p) \<noteq> CHR '']''" using d digit_facts by metis
    then have "last ?s \<noteq> CHR '']''" using d by simp
    then show ?thesis by (simp add: ends_with_single)
  qed
  have "length (nat_str p) \<le> 5" using length_nat_str [of p 4] assms(2) [OF Some] by simp
  then show ?thesis
    using assms Some t i e d valid_host_last [OF assms(1)] normalize_valid_host [OF assms(1)]
    by (cases r) (simp add: parseEgressToken_def formatEgressDestination_def list_all_iff Let_def)
qed

section \<open>What a pattern allows\<close>

text \<open>
  The reference: a pattern stands for a set of connections, host name and port. A wildcard
  \<open>*.s\<close> stands for every name with at least one character before \<open>.s\<close>; a pattern without port for
  all ports. Names of hosts contain no star.
\<close>

definition names :: "string \<Rightarrow> string set" where
  "names pattern = {h. CHR ''*'' \<notin> set h \<and>
     (h = pattern \<or> (\<exists>pre rest. pattern = ''*.'' @ rest \<and> pre \<noteq> [] \<and> h = pre @ ''.'' @ rest))}"

definition connections :: "string \<Rightarrow> nat option \<Rightarrow> (string \<times> nat) set" where
  "connections host port = names host \<times> {p. port = None \<or> port = Some p}"

abbreviation rule_connections :: "egress_rule \<Rightarrow> (string \<times> nat) set" where
  "rule_connections r \<equiv> connections (er_host r) (er_port r)"

abbreviation declared_connections :: "egress_destination \<Rightarrow> (string \<times> nat) set" where
  "declared_connections d \<equiv> connections (ed_host d) (ed_port d)"

lemma ends_with_iff: "ends_with p s \<longleftrightarrow> (\<exists>r. s = r @ p)"
  by (auto simp: ends_with_def) (metis append_take_drop_id)

lemma matches_iff: "matchesEgressHostRule r d \<longleftrightarrow>
    r = d \<or> (\<exists>pre rest. r = ''*.'' @ rest \<and> pre \<noteq> [] \<and> d = pre @ ''.'' @ rest)"
  by (auto simp: matchesEgressHostRule_def starts_with_iff ends_with_iff Let_def)

lemma names_plain: "CHR ''*'' \<notin> set h \<Longrightarrow> names h = {h}"
  by (auto simp: names_def)

lemma names_wild: "names (''*.'' @ t) = {pre @ ''.'' @ t |pre. pre \<noteq> [] \<and> CHR ''*'' \<notin> set (pre @ t)}"
  by (auto simp: names_def)

lemma names_mono: "matchesEgressHostRule r d \<Longrightarrow> names d \<subseteq> names r"
proof -
  assume "matchesEgressHostRule r d"
  then consider "r = d" | pre rest where "r = ''*.'' @ rest" "pre \<noteq> []" "d = pre @ ''.'' @ rest"
    by (auto simp: matches_iff)
  then show ?thesis
  proof cases
    case 2
    show ?thesis
    proof
      fix h
      assume h: "h \<in> names d"
      have "\<exists>q. q \<noteq> [] \<and> h = q @ ''.'' @ rest"
      proof (cases "h = d")
        case True
        then show ?thesis using 2 by auto
      next
        case False
        then obtain q t where q: "d = ''*.'' @ t" "q \<noteq> []" "h = q @ ''.'' @ t"
          using h by (auto simp: names_def)
        then obtain pre' where "pre = CHR ''*'' # pre'" "''.'' @ t = pre' @ ''.'' @ rest"
          using 2(2,3) by (cases pre) auto
        then show ?thesis using q by (intro exI [of _ "q @ pre'"]) simp
      qed
      then show "h \<in> names r" using h 2(1) by (auto simp: names_def)
    qed
  qed simp
qed

lemma names_subset:
  assumes "isValidEgressHost d" "isValidEgressHost r" "names d \<subseteq> names r"
  shows "matchesEgressHostRule r d"
  using assms(1)
proof (cases rule: valid_host_cases)
  case plain
  then have "CHR ''*'' \<notin> set d" by (auto simp: is_alnum_def is_digit_def)
  then have "d \<in> names r" using assms(3) names_plain by auto
  then show ?thesis by (auto simp: names_def matches_iff)
next
  case (wild t)
  have star: "CHR ''*'' \<notin> set t" using wild(3) by (auto simp: is_alnum_def is_digit_def)
  have in_r: "[c] @ ''.'' @ t \<in> names r" if "c \<noteq> CHR ''*''" for c
    using assms(3) star that unfolding wild(1) names_wild by auto
  from assms(2) show ?thesis
  proof (cases rule: valid_host_cases)
    case plain
    then have "CHR ''*'' \<notin> set r" by (auto simp: is_alnum_def is_digit_def)
    then show ?thesis using in_r [of "CHR ''a''"] in_r [of "CHR ''b''"] names_plain by auto
  next
    case (wild s)
    then obtain pre where "pre \<noteq> []" "[CHR ''a''] @ ''.'' @ t = pre @ ''.'' @ s"
      using in_r [of "CHR ''a''"] by (auto simp: names_def)
    then obtain pre' where "''.'' @ t = pre' @ ''.'' @ s" by (cases pre) auto
    then show ?thesis using \<open>d = _\<close> wild(1)
      by (auto simp: matches_iff intro!: exI [of _ "CHR ''*'' # pre'"])
  qed
qed

lemma valid_names_nonempty: "isValidEgressHost d \<Longrightarrow> names d \<noteq> {}"
proof (erule valid_host_cases)
  assume "\<forall>c\<in>set d. is_alnum c \<or> c = CHR ''.'' \<or> c = CHR ''-''"
  then have "CHR ''*'' \<notin> set d" by (auto simp: is_alnum_def is_digit_def)
  then show ?thesis using names_plain by auto
next
  fix t
  assume t: "d = ''*.'' @ t" "\<forall>c\<in>set t. is_alnum c \<or> c = CHR ''.'' \<or> c = CHR ''-''"
  then have "CHR ''*'' \<notin> set (''a'' @ t)" by (auto simp: is_alnum_def is_digit_def)
  then show ?thesis unfolding t(1) names_wild by blast
qed

lemma rule_matches_iff:
  assumes "isValidEgressHost (ed_host d)" "isValidEgressHost (er_host r)"
  shows "rule_matches d r \<longleftrightarrow> declared_connections d \<subseteq> rule_connections r"
proof -
  have ports: "{p. ed_port d = None \<or> ed_port d = Some p} \<subseteq> {p. er_port r = None \<or> er_port r = Some p} \<longleftrightarrow>
      er_port r = None \<or> ed_port d = er_port r"
  proof (cases "ed_port d")
    case None
    have "\<exists>p. p \<noteq> n" for n :: nat by (metis n_not_Suc_n)
    then show ?thesis using None by (cases "er_port r") auto
  qed auto
  have "declared_connections d \<subseteq> rule_connections r \<longleftrightarrow> names (ed_host d) \<subseteq> names (er_host r) \<and>
      (er_port r = None \<or> ed_port d = er_port r)"
    using valid_names_nonempty [OF assms(1)] unfolding connections_def ports [symmetric]
    by (cases "ed_port d") auto
  also have "\<dots> \<longleftrightarrow> rule_matches d r"
    using names_mono names_subset [OF assms] by (auto simp: rule_matches_def split: option.splits)
  finally show ?thesis by simp
qed

lemma evaluate_allowed_iff:
  "fst (evaluateSandboxEgressPolicy allow ds) = EgressAllowed \<longleftrightarrow>
     (\<forall>d \<in> set ds. isValidEgressHost (ed_host d) \<and> matchesAllowedDestination allow d)"
  by (induction ds) auto

lemma evaluate_error:
  "(\<forall>d \<in> set ds. isValidEgressHost (ed_host d)) \<Longrightarrow> fst (evaluateSandboxEgressPolicy allow ds) \<noteq> EgressError"
  by (induction ds) auto

lemma set_dedupe_by: "set (dedupe_by key seen xs) \<subseteq> set xs"
  by (induction xs arbitrary: seen) auto

lemma dedupe_by_keys: "x \<in> set xs \<Longrightarrow> key x \<notin> set seen \<Longrightarrow> \<exists>y \<in> set (dedupe_by key seen xs). key y = key x"
proof (induction xs arbitrary: seen)
  case (Cons a xs)
  show ?case
  proof (cases "key x = key a")
    case True
    then show ?thesis using Cons.prems by auto
  next
    case False
    then show ?thesis using Cons.prems Cons.IH [of seen] Cons.IH [of "key a # seen"] by auto
  qed
qed simp

lemma egress_key_inject:
  assumes "egress_key h p = egress_key h' p'" "CHR '':'' \<notin> set h" "CHR '':'' \<notin> set h'"
  shows "h = h' \<and> p = p'"
proof -
  have "takeWhile (\<lambda>c. c \<noteq> CHR '':'') (egress_key h p) = h"
    "takeWhile (\<lambda>c. c \<noteq> CHR '':'') (egress_key h' p') = h'"
    using assms(2,3) unfolding egress_key_def by (subst takeWhile_append2; force)+
  then have "h = h'" using assms(1) by simp
  then have eq: "(case p of Some n \<Rightarrow> nat_str n | None \<Rightarrow> ''*'') = (case p' of Some n \<Rightarrow> nat_str n | None \<Rightarrow> ''*'')"
    using assms(1) by (simp add: egress_key_def)
  have star: "nat_str n \<noteq> ''*''" for n using nat_str_digits [of n] by (auto simp: is_digit_def)
  have "n = m" if "nat_str n = nat_str m" for n m using nat_str_digits by (metis that)
  then show ?thesis using \<open>h = h'\<close> eq star by (auto split: option.splits dest!: sym [of "''*''"])
qed

lemma allow_list_valid: "r \<in> set (parseSandboxEgressAllowList v) \<Longrightarrow> isValidEgressHost (er_host r)"
  using set_dedupe_by parseEgressToken_valid
  by (fastforce simp: parseSandboxEgressAllowList_def List.map_filter_def split: option.splits if_splits)

lemma repo_destination_valid:
  "parseWorkspaceRepoDestination u v = Some r \<Longrightarrow> isValidEgressHost (er_host r)"
  by (auto simp: parseWorkspaceRepoDestination_def Let_def split: option.splits if_splits)

definition declared_items :: "(string \<Rightarrow> url option) \<Rightarrow> string option \<Rightarrow> string option \<Rightarrow> egress_rule set" where
  "declared_items urlParse dests repo =
     {r. \<exists>v token. dests = Some v \<and> v \<noteq> [] \<and> token \<in> set (split_on CHR '','' v) \<and> parseEgressToken token = Some r} \<union>
     {r. parseWorkspaceRepoDestination urlParse repo = Some r}"

lemma set_map_filter: "set (List.map_filter f xs) = {y. \<exists>x \<in> set xs. f x = Some y}"
  by (induction xs) (auto simp: List.map_filter_def)

lemma parsed_destinations:
  "(\<lambda>d. (ed_host d, ed_port d)) ` set (parseSandboxEgressDestinations dests) =
   (\<lambda>r. (er_host r, er_port r)) `
     {r. \<exists>v token. dests = Some v \<and> v \<noteq> [] \<and> token \<in> set (split_on CHR '','' v) \<and> parseEgressToken token = Some r}"
proof (cases "dests = None \<or> dests = Some []")
  case True
  then show ?thesis by (auto simp: parseSandboxEgressDestinations_def)
next
  case False
  then obtain v where v: "dests = Some v" "v \<noteq> []" by auto
  then show ?thesis
    by (simp add: parseSandboxEgressDestinations_def image_image set_map_filter Bex_def)
qed

lemma declared_items_valid: "r \<in> declared_items urlParse dests repo \<Longrightarrow> isValidEgressHost (er_host r)"
  unfolding declared_items_def using parseEgressToken_valid repo_destination_valid by blast

lemma declared_set:
  "(\<lambda>d. (ed_host d, ed_port d)) ` set (resolveDeclaredSandboxEgressDestinations urlParse dests repo) =
   (\<lambda>r. (er_host r, er_port r)) ` declared_items urlParse dests repo"
proof -
  let ?pre = "parseSandboxEgressDestinations dests @
    (case parseWorkspaceRepoDestination urlParse repo of None \<Rightarrow> []
     | Some r \<Rightarrow> [\<lparr>ed_host = er_host r, ed_port = er_port r, ed_source = FromWorkspaceRepo\<rparr>])"
  let ?f = "\<lambda>d. (ed_host d, ed_port d)" and ?k = "\<lambda>d. egress_key (ed_host d) (ed_port d)"
  have res: "resolveDeclaredSandboxEgressDestinations urlParse dests repo = dedupe_by ?k [] ?pre"
    by (simp add: resolveDeclaredSandboxEgressDestinations_def dedupeEgressDestinations_def Let_def
        split: option.splits)
  have pre: "?f ` set ?pre = (\<lambda>r. (er_host r, er_port r)) ` declared_items urlParse dests repo"
    unfolding declared_items_def image_Un set_append parsed_destinations
    by (cases "parseWorkspaceRepoDestination urlParse repo") simp_all
  have colon: "CHR '':'' \<notin> set (ed_host d)" if "d \<in> set ?pre" for d
  proof -
    have "(ed_host d, ed_port d) \<in> (\<lambda>r. (er_host r, er_port r)) ` declared_items urlParse dests repo"
      using that unfolding pre [symmetric] by blast
    then obtain r where "r \<in> declared_items urlParse dests repo" "ed_host d = er_host r" by blast
    then have "isValidEgressHost (ed_host d)" using declared_items_valid by simp
    then show ?thesis using valid_host_chars host_char_facts by blast
  qed
  have "?f ` set (dedupe_by ?k [] ?pre) = ?f ` set ?pre"
  proof
    show "?f ` set (dedupe_by ?k [] ?pre) \<subseteq> ?f ` set ?pre" by (rule image_mono [OF set_dedupe_by])
    show "?f ` set ?pre \<subseteq> ?f ` set (dedupe_by ?k [] ?pre)"
    proof
      fix y
      assume "y \<in> ?f ` set ?pre"
      then obtain d where d: "d \<in> set ?pre" "y = ?f d" by blast
      obtain d' where d': "d' \<in> set (dedupe_by ?k [] ?pre)" "?k d' = ?k d"
        using dedupe_by_keys [OF d(1), of ?k "[]"] by auto
      moreover have "d' \<in> set ?pre" by (rule subsetD [OF set_dedupe_by d'(1)])
      ultimately have "y = ?f d'" using egress_key_inject [OF d'(2)] colon d by simp
      then show "y \<in> ?f ` set (dedupe_by ?k [] ?pre)" by (rule image_eqI) (rule d'(1))
    qed
  qed
  then show ?thesis unfolding res pre by simp
qed

lemma declared_valid:
  "d \<in> set (resolveDeclaredSandboxEgressDestinations urlParse dests repo) \<Longrightarrow> isValidEgressHost (ed_host d)"
proof -
  assume "d \<in> set (resolveDeclaredSandboxEgressDestinations urlParse dests repo)"
  then have "(ed_host d, ed_port d) \<in> (\<lambda>r. (er_host r, er_port r)) ` declared_items urlParse dests repo"
    unfolding declared_set [symmetric] by blast
  then obtain r where "r \<in> declared_items urlParse dests repo" "ed_host d = er_host r" by blast
  then show ?thesis using declared_items_valid by simp
qed

section \<open>Properties\<close>

lemmas egress_token_simps = parseEgressToken_def Let_def trim_def to_lower_def lower_char_def is_space_def
  last_index_def normalizeEgressHost_def isValidEgressHost_def isIpv4Host_def isHostname_def
  host_label_def is_alnum_def is_digit_def digits_value_def starts_with_def ends_with_def

text \<open>
  C19 The egress check is exact. For every allow list and every declaration in a run's metadata,
  the evaluation allows the run exactly when, for every destination that the metadata or the
  workspace repository declares, one rule of the allow list covers all the connections the
  destination stands for; an empty list covers none. Otherwise the run is blocked.
\<close>

theorem egress_check_exact:
  "fst (evaluateSandboxEgressPolicy (resolveSandboxEgressPolicy allowed)
       (resolveDeclaredSandboxEgressDestinations urlParse dests repo)) =
   (if \<forall>r \<in> declared_items urlParse dests repo. \<exists>rule \<in> set (resolveSandboxEgressPolicy allowed).
         rule_connections r \<subseteq> rule_connections rule
    then EgressAllowed else EgressBlocked)"
proof -
  let ?allow = "resolveSandboxEgressPolicy allowed"
  let ?ds = "resolveDeclaredSandboxEgressDestinations urlParse dests repo"
  have valid: "\<forall>d \<in> set ?ds. isValidEgressHost (ed_host d)" using declared_valid by blast
  have m: "matchesAllowedDestination ?allow d \<longleftrightarrow>
      (\<exists>rule \<in> set ?allow. declared_connections d \<subseteq> rule_connections rule)" if "d \<in> set ?ds" for d
    using rule_matches_iff valid that allow_list_valid
    by (auto simp: matchesAllowedDestination_def list_ex_iff resolveSandboxEgressPolicy_def)
  have "(\<forall>d \<in> set ?ds. \<exists>rule \<in> set ?allow. connections (ed_host d) (ed_port d) \<subseteq> rule_connections rule) \<longleftrightarrow>
      (\<forall>(h, p) \<in> (\<lambda>d. (ed_host d, ed_port d)) ` set ?ds. \<exists>rule \<in> set ?allow. connections h p \<subseteq> rule_connections rule)"
    by auto
  also have "\<dots> \<longleftrightarrow> (\<forall>r \<in> declared_items urlParse dests repo. \<exists>rule \<in> set ?allow.
      rule_connections r \<subseteq> rule_connections rule)"
    unfolding declared_set by auto
  finally have "fst (evaluateSandboxEgressPolicy ?allow ?ds) = EgressAllowed \<longleftrightarrow>
      (\<forall>r \<in> declared_items urlParse dests repo. \<exists>rule \<in> set ?allow. rule_connections r \<subseteq> rule_connections rule)"
    using valid m by (simp add: evaluate_allowed_iff)
  moreover have "fst (evaluateSandboxEgressPolicy ?allow ?ds) \<noteq> EgressError"
    by (rule evaluate_error [OF valid])
  ultimately show ?thesis by (cases "fst (evaluateSandboxEgressPolicy ?allow ?ds)") auto
qed

lemma egress_check_exact_witness:
  "fst (evaluateSandboxEgressPolicy (resolveSandboxEgressPolicy (Some ''*.ab.c''))
     (resolveDeclaredSandboxEgressDestinations (\<lambda>_. None) (Some ''x.ab.c:80'') None)) = EgressAllowed \<and>
   rule_connections \<lparr>er_host = ''x.ab.c'', er_port = Some 80\<rparr> \<subseteq> rule_connections \<lparr>er_host = ''*.ab.c'', er_port = None\<rparr>"
proof -
  let ?d = "resolveDeclaredSandboxEgressDestinations (\<lambda>_. None) (Some ''x.ab.c:80'') None"
  let ?a = "resolveSandboxEgressPolicy (Some ''*.ab.c'')"
  have t: "parseEgressToken ''x.ab.c:80'' = Some \<lparr>er_host = ''x.ab.c'', er_port = Some 80\<rparr>"
    "parseEgressToken ''*.ab.c'' = Some \<lparr>er_host = ''*.ab.c'', er_port = None\<rparr>"
    by (simp_all add: egress_token_simps)
  have a: "?a = [\<lparr>er_host = ''*.ab.c'', er_port = None\<rparr>]"
    by (simp add: resolveSandboxEgressPolicy_def parseSandboxEgressAllowList_def List.map_filter_def t)
  have d: "?d = [\<lparr>ed_host = ''x.ab.c'', ed_port = Some 80, ed_source = FromMetadata\<rparr>]"
    by (simp add: resolveDeclaredSandboxEgressDestinations_def parseSandboxEgressDestinations_def
        parseWorkspaceRepoDestination_def dedupeEgressDestinations_def List.map_filter_def t)
  have "isValidEgressHost ''x.ab.c''" by (simp add: egress_token_simps)
  then have allowed: "fst (evaluateSandboxEgressPolicy ?a ?d) = EgressAllowed"
    unfolding a d by (simp add: matchesAllowedDestination_def rule_matches_def matchesEgressHostRule_def
        starts_with_def ends_with_def)
  have "\<lparr>er_host = ''x.ab.c'', er_port = Some 80\<rparr> \<in> declared_items (\<lambda>_. None) (Some ''x.ab.c:80'') None"
    by (simp add: declared_items_def parseWorkspaceRepoDestination_def t)
  with egress_check_exact [of "Some ''*.ab.c''" "\<lambda>_. None" "Some ''x.ab.c:80''" None] allowed show ?thesis
    unfolding a by (force split: if_splits dest: bspec)
qed

text \<open>
  Rules round-trip through their text: every rule that parsing can return, and every host with
  a port in range, is what parsing the text that the error messages print for it returns.
\<close>

theorem egress_token_roundtrip:
  "parseEgressToken v = Some r \<longrightarrow>
     parseEgressToken (formatEgressDestination (er_host r) (er_port r)) = Some r"
  using parse_format_token [of r] parseEgressToken_valid [of v r] by blast

lemma egress_token_roundtrip_witness:
  "parseEgressToken ''api.example.com:443'' = Some \<lparr>er_host = ''api.example.com'', er_port = Some 443\<rparr>"
proof -
  have "parseEgressToken '' api.example.com.:443 '' = Some \<lparr>er_host = ''api.example.com'', er_port = Some 443\<rparr>"
    by (simp add: egress_token_simps)
  moreover have "formatEgressDestination ''api.example.com'' (Some 443) = ''api.example.com:443''"
    by code_simp
  ultimately show ?thesis
    using egress_token_roundtrip [of "'' api.example.com.:443 ''"
        "\<lparr>er_host = ''api.example.com'', er_port = Some 443\<rparr>"] by simp
qed

text \<open>
  Declarations the parser does not understand are dropped, not denied: with an empty allow
  list, a run whose metadata declare only a host name with an underscore, and whose workspace is
  cloned over ssh, is allowed, although the evaluation has a case for invalid hosts.
\<close>

theorem egress_invalid_declaration_allowed:
  "evaluateSandboxEgressPolicy (resolveSandboxEgressPolicy None)
     (resolveDeclaredSandboxEgressDestinations (\<lambda>_. None) (Some ''ex_fil.example.com'')
       (Some ''git@example.com:org/repo.git'')) = (EgressAllowed, ''ok'')"
proof -
  have "parseEgressToken ''ex_fil.example.com'' = None" by (simp add: egress_token_simps)
  moreover have "split_on CHR '','' ''ex_fil.example.com'' = [''ex_fil.example.com'']" by simp
  ultimately show ?thesis
    by (simp add: resolveSandboxEgressPolicy_def parseSandboxEgressAllowList_def
        resolveDeclaredSandboxEgressDestinations_def parseSandboxEgressDestinations_def
        parseWorkspaceRepoDestination_def dedupeEgressDestinations_def List.map_filter_def)
qed

end
