(* ===== verification/PolicyDocument.thy ===== *)
theory PolicyDocument
  imports Prelude
begin

text \<open>
  The policy document and its state file: \<open>get\<close> and \<open>put\<close> of \<open>LocalPolicyService\<close> in
  \<open>control-plane/services/policy.ts\<close>. Every operation runs under a session lock (theory
  \<open>SessionLock\<close>) and is one step here. \<open>isoStr\<close> and \<open>dateParse\<close> stand for \<open>toISOString\<close> and the
  \<open>Date\<close> parser.
\<close>

section \<open>Policy documents\<close>

record policy_document =
  pd_schemaVersion :: int
  pd_updatedAt :: string
  pd_maxConcurrentRuns :: "int option"
  pd_defaultRunTimeoutMs :: "int option"
  pd_defaultScheduleTimeoutMs :: "int option"
  pd_retryBudgetPerRun :: "int option"
  pd_costBudgetDailyUsd :: "rat option"

definition normalizePolicyIsoString :: "(time \<Rightarrow> string) \<Rightarrow> (string \<Rightarrow> time option) \<Rightarrow> js \<Rightarrow> string \<Rightarrow>
    string result" where
  "normalizePolicyIsoString isoStr dateParse v label =
     (case v of
        JStr s \<Rightarrow> if trim s = [] then Inl (config_error (label @ '' must be a non-empty ISO datetime string.''))
          else (case dateParse s of
            None \<Rightarrow> Inl (config_error (label @ '' must be a valid ISO datetime string.''))
          | Some t \<Rightarrow> Inr (isoStr t))
      | _ \<Rightarrow> Inl (config_error (label @ '' must be a non-empty ISO datetime string.'')))"

definition normalizePolicySchemaVersion :: "js \<Rightarrow> int result" where
  "normalizePolicySchemaVersion v =
     (if absent v then Inr 1
      else case js_int v of
        Some i \<Rightarrow> if i \<le> 0 then Inl (config_error ''policy.schemaVersion must be a positive integer.'') else Inr i
      | None \<Rightarrow> Inl (config_error ''policy.schemaVersion must be a positive integer.''))"

definition readOptionalPositiveInt :: "js \<Rightarrow> string \<Rightarrow> int option result" where
  "readOptionalPositiveInt v label =
     (if absent v then Inr None
      else case js_int v of
        Some i \<Rightarrow> if i \<le> 0 then Inl (config_error (label @ '' must be a positive integer.'')) else Inr (Some i)
      | None \<Rightarrow> Inl (config_error (label @ '' must be a positive integer.'')))"

definition readOptionalNonNegativeInt :: "js \<Rightarrow> string \<Rightarrow> int option result" where
  "readOptionalNonNegativeInt v label =
     (if absent v then Inr None
      else case js_int v of
        Some i \<Rightarrow> if i < 0 then Inl (config_error (label @ '' must be a non-negative integer.'')) else Inr (Some i)
      | None \<Rightarrow> Inl (config_error (label @ '' must be a non-negative integer.'')))"

definition readOptionalNonNegativeNumber :: "js \<Rightarrow> string \<Rightarrow> rat option result" where
  "readOptionalNonNegativeNumber v label =
     (if absent v then Inr None
      else case v of
        JNum (Fin r) \<Rightarrow> if r < 0 then Inl (config_error (label @ '' must be a non-negative number.'')) else Inr (Some r)
      | _ \<Rightarrow> Inl (config_error (label @ '' must be a non-negative number.'')))"

definition normalizePolicyDocument :: "(time \<Rightarrow> string) \<Rightarrow> (string \<Rightarrow> time option) \<Rightarrow> js \<Rightarrow> string option \<Rightarrow>
    policy_document result" where
  "normalizePolicyDocument isoStr dateParse v serverAuthoredUpdatedAt =
     (if \<not> is_record v then Inl (config_error ''Policy document must be a JSON object.'')
      else
        bindR (case serverAuthoredUpdatedAt of
            Some t \<Rightarrow> Inr t
          | None \<Rightarrow> normalizePolicyIsoString isoStr dateParse (js_get v ''updatedAt'') ''policy.updatedAt'') (\<lambda>updatedAt.
        bindR (normalizePolicySchemaVersion (js_get v ''schemaVersion'')) (\<lambda>schemaVersion.
        bindR (readOptionalPositiveInt (js_get v ''maxConcurrentRuns'') ''policy.maxConcurrentRuns'') (\<lambda>maxConcurrentRuns.
        bindR (readOptionalPositiveInt (js_get v ''defaultRunTimeoutMs'') ''policy.defaultRunTimeoutMs'') (\<lambda>defaultRunTimeoutMs.
        bindR (readOptionalPositiveInt (js_get v ''defaultScheduleTimeoutMs'') ''policy.defaultScheduleTimeoutMs'') (\<lambda>defaultScheduleTimeoutMs.
        bindR (readOptionalNonNegativeInt (js_get v ''retryBudgetPerRun'') ''policy.retryBudgetPerRun'') (\<lambda>retryBudgetPerRun.
        bindR (readOptionalNonNegativeNumber (js_get v ''costBudgetDailyUsd'') ''policy.costBudgetDailyUsd'') (\<lambda>costBudgetDailyUsd.
        Inr \<lparr>pd_schemaVersion = schemaVersion, pd_updatedAt = updatedAt,
          pd_maxConcurrentRuns = maxConcurrentRuns, pd_defaultRunTimeoutMs = defaultRunTimeoutMs,
          pd_defaultScheduleTimeoutMs = defaultScheduleTimeoutMs, pd_retryBudgetPerRun = retryBudgetPerRun,
          pd_costBudgetDailyUsd = costBudgetDailyUsd\<rparr>))))))))"

text \<open>The object literal that a document is.\<close>

definition policy_json :: "policy_document \<Rightarrow> js" where
  "policy_json p = JObj ([(''schemaVersion'', JInt (pd_schemaVersion p)), (''updatedAt'', JStr (pd_updatedAt p))] @
     opt_field ''maxConcurrentRuns'' (map_option JInt (pd_maxConcurrentRuns p)) @
     opt_field ''defaultRunTimeoutMs'' (map_option JInt (pd_defaultRunTimeoutMs p)) @
     opt_field ''defaultScheduleTimeoutMs'' (map_option JInt (pd_defaultScheduleTimeoutMs p)) @
     opt_field ''retryBudgetPerRun'' (map_option JInt (pd_retryBudgetPerRun p)) @
     opt_field ''costBudgetDailyUsd'' (map_option (\<lambda>r. JNum (Fin r)) (pd_costBudgetDailyUsd p)))"

section \<open>The state file\<close>

record policy_state =
  ps_schemaVersion :: int
  ps_policy :: "policy_document option"

definition POLICY_STATE_SCHEMA_VERSION :: int where
  "POLICY_STATE_SCHEMA_VERSION = 1"

definition policy_io_error :: "string \<Rightarrow> error" where
  "policy_io_error m = AthenaError SESSION_IO_ERROR m False"

definition migratePolicyState :: "(time \<Rightarrow> string) \<Rightarrow> (string \<Rightarrow> time option) \<Rightarrow> js \<Rightarrow>
    (policy_state \<times> bool) result" where
  "migratePolicyState isoStr dateParse raw =
     (if \<not> is_record raw then Inl (policy_io_error ''Policy state file must contain a JSON object.'')
      else if has_key raw ''policy'' then
        bindR (if absent (js_get raw ''policy'') then Inr None
               else bindR (normalizePolicyDocument isoStr dateParse (js_get raw ''policy'') None) (\<lambda>p. Inr (Some p)))
          (\<lambda>p. Inr (\<lparr>ps_schemaVersion = POLICY_STATE_SCHEMA_VERSION, ps_policy = p\<rparr>,
            js_get raw ''schemaVersion'' \<noteq> JInt POLICY_STATE_SCHEMA_VERSION))
      else if has_key raw ''updatedAt'' then
        bindR (normalizePolicyDocument isoStr dateParse raw None)
          (\<lambda>p. Inr (\<lparr>ps_schemaVersion = POLICY_STATE_SCHEMA_VERSION, ps_policy = Some p\<rparr>, True))
      else Inr (\<lparr>ps_schemaVersion = POLICY_STATE_SCHEMA_VERSION, ps_policy = None\<rparr>, True))"

definition state_json :: "policy_state \<Rightarrow> js" where
  "state_json s = JObj [(''schemaVersion'', JInt (ps_schemaVersion s)),
     (''policy'', case ps_policy s of Some p \<Rightarrow> policy_json p | None \<Rightarrow> JNull)]"

definition policy_loadState :: "(time \<Rightarrow> string) \<Rightarrow> (string \<Rightarrow> time option) \<Rightarrow> file_content option \<Rightarrow>
    (policy_state \<times> bool) result" where
  "policy_loadState isoStr dateParse fl =
     (case fl of
        None \<Rightarrow> Inr (\<lparr>ps_schemaVersion = POLICY_STATE_SCHEMA_VERSION, ps_policy = None\<rparr>, False)
      | Some NotJson \<Rightarrow> Inl (policy_io_error ''Policy state file is not valid JSON.'')
      | Some (Json v) \<Rightarrow> migratePolicyState isoStr dateParse v)"

definition policy_saveState :: "policy_state \<Rightarrow> file_content option" where
  "policy_saveState s = Some (Json (state_json s))"

text \<open>The operations: the file afterwards and the result; an error leaves the file as it was.\<close>

definition policy_get :: "(time \<Rightarrow> string) \<Rightarrow> (string \<Rightarrow> time option) \<Rightarrow> file_content option \<Rightarrow>
    file_content option \<times> policy_document option result" where
  "policy_get isoStr dateParse fl =
     (case policy_loadState isoStr dateParse fl of
        Inl e \<Rightarrow> (fl, Inl e)
      | Inr (state, migrated) \<Rightarrow>
          (if migrated then policy_saveState state else fl, Inr (ps_policy state)))"

definition policy_put :: "(time \<Rightarrow> string) \<Rightarrow> (string \<Rightarrow> time option) \<Rightarrow> time \<Rightarrow> file_content option \<Rightarrow> js \<Rightarrow>
    file_content option \<times> policy_document result" where
  "policy_put isoStr dateParse now fl policy =
     (case policy_loadState isoStr dateParse fl of
        Inl e \<Rightarrow> (fl, Inl e)
      | Inr (state, migrated) \<Rightarrow>
          (case normalizePolicyDocument isoStr dateParse policy (Some (isoStr now)) of
             Inl e \<Rightarrow> (fl, Inl e)
           | Inr normalized \<Rightarrow>
               (let next = \<lparr>ps_schemaVersion = POLICY_STATE_SCHEMA_VERSION, ps_policy = Some normalized\<rparr> in
                (if migrated \<or> state_json state \<noteq> state_json next then policy_saveState next else fl,
                 Inr normalized))))"

section \<open>Lemmas on documents\<close>

definition dates_ok :: "(time \<Rightarrow> string) \<Rightarrow> (string \<Rightarrow> time option) \<Rightarrow> bool" where
  "dates_ok isoStr dateParse \<longleftrightarrow> (\<forall>t. dateParse (isoStr t) = Some t \<and> trim (isoStr t) \<noteq> [])"

definition document_ok :: "(time \<Rightarrow> string) \<Rightarrow> policy_document \<Rightarrow> bool" where
  "document_ok isoStr p \<longleftrightarrow> 0 < pd_schemaVersion p \<and> (\<exists>t. pd_updatedAt p = isoStr t) \<and>
     (\<forall>i. pd_maxConcurrentRuns p = Some i \<longrightarrow> 0 < i) \<and> (\<forall>i. pd_defaultRunTimeoutMs p = Some i \<longrightarrow> 0 < i) \<and>
     (\<forall>i. pd_defaultScheduleTimeoutMs p = Some i \<longrightarrow> 0 < i) \<and> (\<forall>i. pd_retryBudgetPerRun p = Some i \<longrightarrow> 0 \<le> i) \<and>
     (\<forall>r. pd_costBudgetDailyUsd p = Some r \<longrightarrow> 0 \<le> r)"

lemma read_positive_json:
  "(\<And>i. x = Some i \<Longrightarrow> 0 < i) \<Longrightarrow>
   readOptionalPositiveInt (case x of None \<Rightarrow> JUndefined | Some i \<Rightarrow> JInt i) l = Inr x"
  by (cases x) (auto simp: readOptionalPositiveInt_def)

lemma read_nonneg_json:
  "(\<And>i. x = Some i \<Longrightarrow> 0 \<le> i) \<Longrightarrow>
   readOptionalNonNegativeInt (case x of None \<Rightarrow> JUndefined | Some i \<Rightarrow> JInt i) l = Inr x"
  by (cases x) (auto simp: readOptionalNonNegativeInt_def)

lemma read_number_json:
  "(\<And>r. x = Some r \<Longrightarrow> 0 \<le> r) \<Longrightarrow>
   readOptionalNonNegativeNumber (case x of None \<Rightarrow> JUndefined | Some r \<Rightarrow> JNum (Fin r)) l = Inr x"
  by (cases x) (auto simp: readOptionalNonNegativeNumber_def)

lemma policy_json_get:
  "js_get (policy_json p) ''schemaVersion'' = JInt (pd_schemaVersion p)"
  "js_get (policy_json p) ''updatedAt'' = JStr (pd_updatedAt p)"
  "js_get (policy_json p) ''maxConcurrentRuns'' =
     (case pd_maxConcurrentRuns p of None \<Rightarrow> JUndefined | Some i \<Rightarrow> JInt i)"
  "js_get (policy_json p) ''defaultRunTimeoutMs'' =
     (case pd_defaultRunTimeoutMs p of None \<Rightarrow> JUndefined | Some i \<Rightarrow> JInt i)"
  "js_get (policy_json p) ''defaultScheduleTimeoutMs'' =
     (case pd_defaultScheduleTimeoutMs p of None \<Rightarrow> JUndefined | Some i \<Rightarrow> JInt i)"
  "js_get (policy_json p) ''retryBudgetPerRun'' =
     (case pd_retryBudgetPerRun p of None \<Rightarrow> JUndefined | Some i \<Rightarrow> JInt i)"
  "js_get (policy_json p) ''costBudgetDailyUsd'' =
     (case pd_costBudgetDailyUsd p of None \<Rightarrow> JUndefined | Some r \<Rightarrow> JNum (Fin r))"
  "is_record (policy_json p)"
  by (auto simp: policy_json_def opt_field_def split: option.splits)

lemma normalize_json:
  assumes "dates_ok isoStr dateParse" "document_ok isoStr p"
  shows "normalizePolicyDocument isoStr dateParse (policy_json p) None = Inr p"
proof -
  obtain t where t: "pd_updatedAt p = isoStr t" using assms(2) by (auto simp: document_ok_def)
  have "normalizePolicyIsoString isoStr dateParse (JStr (pd_updatedAt p)) l = Inr (pd_updatedAt p)" for l
    using assms(1) by (simp add: normalizePolicyIsoString_def dates_ok_def t)
  moreover have "normalizePolicySchemaVersion (JInt (pd_schemaVersion p)) = Inr (pd_schemaVersion p)"
    using assms(2) by (simp add: normalizePolicySchemaVersion_def document_ok_def)
  ultimately show ?thesis
    using assms(2)
    by (simp add: normalizePolicyDocument_def policy_json_get document_ok_def
        read_positive_json read_nonneg_json read_number_json)
qed

lemma read_ok:
  "readOptionalPositiveInt v l = Inr (Some i) \<Longrightarrow> 0 < i"
  "readOptionalNonNegativeInt v l = Inr (Some i) \<Longrightarrow> 0 \<le> i"
  "readOptionalNonNegativeNumber v l = Inr (Some r) \<Longrightarrow> 0 \<le> r"
  "normalizePolicySchemaVersion v = Inr i \<Longrightarrow> 0 < i"
  "normalizePolicyIsoString isoStr dateParse v l = Inr s \<Longrightarrow> \<exists>t. s = isoStr t"
  by (auto simp: readOptionalPositiveInt_def readOptionalNonNegativeInt_def readOptionalNonNegativeNumber_def
      normalizePolicySchemaVersion_def normalizePolicyIsoString_def
      split: if_splits option.splits js.splits jsnum.splits)

lemma normalize_ok:
  assumes "normalizePolicyDocument isoStr dateParse v u = Inr p" "\<And>s. u = Some s \<Longrightarrow> \<exists>t. s = isoStr t"
  shows "document_ok isoStr p"
proof -
  have u: "(case u of Some t \<Rightarrow> Inr t
      | None \<Rightarrow> normalizePolicyIsoString isoStr dateParse (js_get v ''updatedAt'') ''policy.updatedAt'') = Inr s \<Longrightarrow>
      \<exists>t. s = isoStr t" for s
    using assms(2) read_ok(5) by (cases u) auto
  obtain a b c d e f g where r:
    "(case u of Some t \<Rightarrow> Inr t
      | None \<Rightarrow> normalizePolicyIsoString isoStr dateParse (js_get v ''updatedAt'') ''policy.updatedAt'') = Inr a"
    "normalizePolicySchemaVersion (js_get v ''schemaVersion'') = Inr b"
    "readOptionalPositiveInt (js_get v ''maxConcurrentRuns'') ''policy.maxConcurrentRuns'' = Inr c"
    "readOptionalPositiveInt (js_get v ''defaultRunTimeoutMs'') ''policy.defaultRunTimeoutMs'' = Inr d"
    "readOptionalPositiveInt (js_get v ''defaultScheduleTimeoutMs'') ''policy.defaultScheduleTimeoutMs'' = Inr e"
    "readOptionalNonNegativeInt (js_get v ''retryBudgetPerRun'') ''policy.retryBudgetPerRun'' = Inr f"
    "readOptionalNonNegativeNumber (js_get v ''costBudgetDailyUsd'') ''policy.costBudgetDailyUsd'' = Inr g"
    "\<lparr>pd_schemaVersion = b, pd_updatedAt = a, pd_maxConcurrentRuns = c, pd_defaultRunTimeoutMs = d,
      pd_defaultScheduleTimeoutMs = e, pd_retryBudgetPerRun = f, pd_costBudgetDailyUsd = g\<rparr> = p"
    using assms(1) unfolding normalizePolicyDocument_def
    by (simp only: bindR_eq_Inr sum.inject sum.distinct split: if_split_asm) (elim exE conjE, blast)
  have "0 < b" "\<exists>t. a = isoStr t" using read_ok(4) [OF r(2)] u [OF r(1)] by auto
  moreover have "\<forall>i. c = Some i \<longrightarrow> 0 < i" "\<forall>i. d = Some i \<longrightarrow> 0 < i" "\<forall>i. e = Some i \<longrightarrow> 0 < i"
    using read_ok(1) r(3-5) by blast+
  moreover have "\<forall>i. f = Some i \<longrightarrow> 0 \<le> i" "\<forall>i. g = Some i \<longrightarrow> 0 \<le> i"
    using read_ok(2,3) r(6,7) by blast+
  ultimately show ?thesis unfolding document_ok_def r(8) [symmetric] by simp
qed

lemma normalize_server_date:
  "normalizePolicyDocument isoStr dateParse v (Some s) = Inr p \<Longrightarrow> pd_updatedAt p = s"
  unfolding normalizePolicyDocument_def
  by (simp only: bindR_eq_Inr split: if_split_asm) auto

lemma migrate_written:
  assumes "dates_ok isoStr dateParse" "document_ok isoStr p"
  shows "migratePolicyState isoStr dateParse (state_json \<lparr>ps_schemaVersion = 1, ps_policy = Some p\<rparr>) =
    Inr (\<lparr>ps_schemaVersion = 1, ps_policy = Some p\<rparr>, False)"
proof -
  have "\<not> absent (policy_json p)" by (simp add: policy_json_def)
  then show ?thesis
    using normalize_json [OF assms]
    by (simp add: migratePolicyState_def state_json_def POLICY_STATE_SCHEMA_VERSION_def)
qed

lemma state_json_inject:
  assumes "state_json s = state_json s'"
  shows "s = s'"
proof -
  have opt: "opt_field k x @ r = opt_field k y @ r' \<Longrightarrow> (\<forall>v. (k, v) \<notin> set r \<and> (k, v) \<notin> set r') \<Longrightarrow> x = y \<and> r = r'"
    for k x y and r r' :: "(string \<times> js) list"
    by (auto simp: opt_field_def split: option.splits)
  have doc: "p = q" if "policy_json p = policy_json q" for p q :: policy_document
  proof -
    have "js_get (policy_json p) k = js_get (policy_json q) k" for k
      using that by simp
    from this [of "''schemaVersion''"] this [of "''updatedAt''"] this [of "''maxConcurrentRuns''"]
      this [of "''defaultRunTimeoutMs''"] this [of "''defaultScheduleTimeoutMs''"]
      this [of "''retryBudgetPerRun''"] this [of "''costBudgetDailyUsd''"]
    show ?thesis
      unfolding policy_json_get
      by (intro policy_document.equality) (simp_all split: option.splits)
  qed
  have "policy_json p \<noteq> JNull" for p by (simp add: policy_json_def)
  then show ?thesis
    using assms doc
    by (cases s; cases s') (auto simp: state_json_def dest: sym split: option.splits)
qed

lemma load_state_version:
  "policy_loadState isoStr dateParse fl = Inr (s, m) \<Longrightarrow> ps_schemaVersion s = 1"
  by (auto simp: policy_loadState_def migratePolicyState_def POLICY_STATE_SCHEMA_VERSION_def bindR_eq_Inr
      split: option.splits file_content.splits if_splits)

text \<open>
  C29 Putting a policy and getting it back: a \<open>put\<close> that succeeds at \<open>now\<close> leaves a state file from which
  \<open>get\<close> returns exactly the document that \<open>put\<close> returned, dated \<open>now\<close>, and which \<open>get\<close> leaves as it is
  (no further migration), whatever the file was before: absent, of the present schema or of an older one.
\<close>

theorem policy_put_get:
  assumes "dates_ok isoStr dateParse"
    and "policy_put isoStr dateParse now fl policy = (fl', Inr p)"
  shows "policy_get isoStr dateParse fl' = (fl', Inr (Some p)) \<and> pd_updatedAt p = isoStr now"
proof -
  obtain st m where load: "policy_loadState isoStr dateParse fl = Inr (st, m)"
    and norm: "normalizePolicyDocument isoStr dateParse policy (Some (isoStr now)) = Inr p"
    and fl': "fl' = (if m \<or> state_json st \<noteq> state_json \<lparr>ps_schemaVersion = 1, ps_policy = Some p\<rparr>
      then policy_saveState \<lparr>ps_schemaVersion = 1, ps_policy = Some p\<rparr> else fl)"
    using assms(2) by (auto simp: policy_put_def POLICY_STATE_SCHEMA_VERSION_def Let_def split: sum.splits)
  have ok: "document_ok isoStr p" by (rule normalize_ok [OF norm]) auto
  have "pd_updatedAt p = isoStr now" by (rule normalize_server_date [OF norm])
  moreover have "policy_get isoStr dateParse fl' = (fl', Inr (Some p))"
  proof (cases "m \<or> state_json st \<noteq> state_json \<lparr>ps_schemaVersion = 1, ps_policy = Some p\<rparr>")
    case True
    then show ?thesis
      using migrate_written [OF assms(1) ok]
      by (simp add: fl' policy_get_def policy_loadState_def policy_saveState_def)
  next
    case False
    then have "st = \<lparr>ps_schemaVersion = 1, ps_policy = Some p\<rparr>" by (auto intro: state_json_inject)
    then show ?thesis using False load by (simp add: fl' policy_get_def)
  qed
  ultimately show ?thesis by simp
qed

lemma trim_nat_str: "trim (nat_str n) = nat_str n"
  using nat_str_digits [of n] digit_not_space by (intro trim_id) auto

lemma trim_demo_iso: "trim (demo_iso t) = demo_iso t" "demo_iso t \<noteq> []"
  by (simp_all add: demo_iso_def trim_nat_str nat_str_digits)

lemma demo_dates_ok: "dates_ok demo_iso demo_date"
  by (simp add: dates_ok_def demo_iso_inverse trim_demo_iso)

text \<open>An older file (a bare document) is replaced.\<close>

definition demo_policy :: js where
  "demo_policy = JObj [(''updatedAt'', JStr ''x''), (''maxConcurrentRuns'', JInt 3)]"

definition demo_put :: "file_content option \<times> policy_document result" where
  "demo_put = policy_put demo_iso demo_date 7 (Some (Json (JObj []))) demo_policy"

lemma demo_put_result: "\<exists>fl' p. demo_put = (fl', Inr p) \<and> pd_maxConcurrentRuns p = Some 3"
  by (simp add: demo_put_def demo_policy_def policy_put_def policy_loadState_def migratePolicyState_def
      normalizePolicyDocument_def normalizePolicySchemaVersion_def readOptionalPositiveInt_def
      readOptionalNonNegativeInt_def readOptionalNonNegativeNumber_def Let_def)

theorem policy_put_get_witness:
  "\<exists>fl' p. demo_put = (fl', Inr p) \<and> pd_maxConcurrentRuns p = Some 3 \<and>
     policy_get demo_iso demo_date fl' = (fl', Inr (Some p)) \<and> pd_updatedAt p = demo_iso 7"
proof -
  obtain fl' p where r: "demo_put = (fl', Inr p)" "pd_maxConcurrentRuns p = Some 3"
    using demo_put_result by auto
  from policy_put_get [OF demo_dates_ok r(1) [unfolded demo_put_def]] r show ?thesis by auto
qed

end
