(* ===== verification/Effects.thy ===== *)
theory Effects
  imports Prelude
begin

text \<open>
  Code that changes a state and may throw: an action takes the state to the state afterwards and a result, and
  the state it changed before it threw is kept. The weakest precondition \<open>wp m Q E s\<close> says that running \<open>m\<close>
  from \<open>s\<close> ends in \<open>Q\<close> if it returns and in \<open>E\<close> if it throws; its equations (\<open>wp_simps\<close>) turn a statement
  about a body into one about its branches.
\<close>

named_theorems wp_simps \<open>weakest preconditions of the constructs\<close>

type_synonym ('s, 'a) act = "'s \<Rightarrow> 's \<times> 'a result"

definition okA :: "'a \<Rightarrow> ('s, 'a) act" where
  "okA x = (\<lambda>s. (s, Inr x))"

definition throwA :: "error \<Rightarrow> ('s, 'a) act" where
  "throwA e = (\<lambda>s. (s, Inl e))"

definition liftA :: "'a result \<Rightarrow> ('s, 'a) act" where
  "liftA r = (\<lambda>s. (s, r))"

definition getA :: "('s \<Rightarrow> 'a) \<Rightarrow> ('s, 'a) act" where
  "getA f = (\<lambda>s. (s, Inr (f s)))"

definition doA :: "('s \<Rightarrow> 's) \<Rightarrow> ('s, unit) act" where
  "doA f = (\<lambda>s. (f s, Inr ()))"

definition thenA :: "('s, 'a) act \<Rightarrow> ('a \<Rightarrow> ('s, 'b) act) \<Rightarrow> ('s, 'b) act" where
  "thenA m f = (\<lambda>s. case m s of (s', Inl e) \<Rightarrow> (s', Inl e) | (s', Inr x) \<Rightarrow> f x s')"

abbreviation seqA :: "('s, 'a) act \<Rightarrow> ('s, 'b) act \<Rightarrow> ('s, 'b) act" where
  "seqA m m' \<equiv> thenA m (\<lambda>_. m')"

text \<open>\<open>try m catch (e) h\<close>, and \<open>try m finally c\<close> where \<open>c\<close> may look at how \<open>m\<close> ended.\<close>

definition catchA :: "('s, 'a) act \<Rightarrow> (error \<Rightarrow> ('s, 'a) act) \<Rightarrow> ('s, 'a) act" where
  "catchA m h = (\<lambda>s. case m s of (s', Inl e) \<Rightarrow> h e s' | (s', Inr x) \<Rightarrow> (s', Inr x))"

definition finallyA :: "('s, 'a) act \<Rightarrow> ('a result \<Rightarrow> ('s, unit) act) \<Rightarrow> ('s, 'a) act" where
  "finallyA m c = (\<lambda>s. case m s of (s', r) \<Rightarrow> (case c r s' of (s'', Inl e) \<Rightarrow> (s'', Inl e) | (s'', Inr _) \<Rightarrow> (s'', r)))"

text \<open>Evaluation runs an action only once it has its state.\<close>

lemma acts_code [code]:
  "okA x s = (s, Inr x)" "throwA e s = (s, Inl e)" "liftA r s = (s, r)" "getA g s = (s, Inr (g s))" "doA g s = (g s, Inr ())"
  by (simp_all add: okA_def throwA_def liftA_def getA_def doA_def)

lemma seq_acts_code [code]:
  "thenA m f s = (case m s of (s', r) \<Rightarrow> (case r of Inl e \<Rightarrow> (s', Inl e) | Inr x \<Rightarrow> f x s'))"
  "catchA m h s = (case m s of (s', r) \<Rightarrow> (case r of Inl e \<Rightarrow> h e s' | Inr x \<Rightarrow> (s', Inr x)))"
  by (simp_all add: thenA_def catchA_def split: prod.split sum.split)

definition wp :: "('s, 'a) act \<Rightarrow> ('a \<Rightarrow> 's \<Rightarrow> bool) \<Rightarrow> (error \<Rightarrow> 's \<Rightarrow> bool) \<Rightarrow> 's \<Rightarrow> bool" where
  "wp m Q E s = (case m s of (s', Inl e) \<Rightarrow> E e s' | (s', Inr x) \<Rightarrow> Q x s')"

lemma wp_basic [wp_simps]:
  "wp (okA x) Q E s = Q x s"
  "wp (throwA e) Q E s = E e s"
  "wp (liftA r) Q E s = (case r of Inl e \<Rightarrow> E e s | Inr x \<Rightarrow> Q x s)"
  "wp (getA f) Q E s = Q (f s) s"
  by (simp_all add: wp_def okA_def throwA_def liftA_def getA_def split: sum.split)

lemma wp_doA [wp_simps]: "wp (doA g) Q E s = Q () (g s)"
  by (simp add: wp_def doA_def)

lemma wp_thenA [wp_simps]: "wp (thenA m f) Q E s = wp m (\<lambda>x. wp (f x) Q E) E s"
  by (simp add: wp_def thenA_def split: prod.split sum.split)

lemma wp_catchA [wp_simps]: "wp (catchA m h) Q E s = wp m Q (\<lambda>e. wp (h e) Q E) s"
  by (simp add: wp_def catchA_def split: prod.split sum.split)

lemma wp_finallyA [wp_simps]:
  "wp (finallyA m c) Q E s = wp m (\<lambda>x. wp (c (Inr x)) (\<lambda>_. Q x) E) (\<lambda>e. wp (c (Inl e)) (\<lambda>_. E e) E) s"
  by (simp add: wp_def finallyA_def split: prod.split sum.split)

lemma wp_if [wp_simps]: "wp (if b then m else m') Q E s = (if b then wp m Q E s else wp m' Q E s)"
  by simp

lemma wp_option [wp_simps]:
  "wp (case v of None \<Rightarrow> m | Some x \<Rightarrow> f x) Q E s = (case v of None \<Rightarrow> wp m Q E s | Some x \<Rightarrow> wp (f x) Q E s)"
  by (simp split: option.split)

lemma wp_sum [wp_simps]:
  "wp (case v of Inl x \<Rightarrow> f x | Inr y \<Rightarrow> g y) Q E s = (case v of Inl x \<Rightarrow> wp (f x) Q E s | Inr y \<Rightarrow> wp (g y) Q E s)"
  by (simp split: sum.split)

lemma wp_mono:
  "wp m Q E s \<Longrightarrow> (\<And>x s. Q x s \<Longrightarrow> Q' x s) \<Longrightarrow> (\<And>e s. E e s \<Longrightarrow> E' e s) \<Longrightarrow> wp m Q' E' s"
  by (auto simp: wp_def split: prod.splits sum.splits)

lemma wp_run: "wp m Q E s \<longleftrightarrow> (case m s of (s', r) \<Rightarrow> (case r of Inl e \<Rightarrow> E e s' | Inr x \<Rightarrow> Q x s'))"
  by (simp add: wp_def split: prod.split sum.split)

lemma wpI:
  assumes "wp m (\<lambda>x s. P s (Inr x)) (\<lambda>e s. P s (Inl e)) s" "m s = (s', r)"
  shows "P s' r"
  using assms by (auto simp: wp_def split: sum.splits)

end
