(* ===== verification/SandboxConfig.thy ===== *)
theory SandboxConfig
  imports Prelude
begin

text \<open>
  What a run's metadata ask of its sandbox: the isolation profile, the workspace and the resource quotas, from
  \<open>control-plane/services/policy.ts\<close>. The metadata are a record of strings, here an association list; the
  configuration is the part of \<open>AthenaConfig\<close> (\<open>shared/config.ts\<close>) that is read. Numbers of metadata are
  read exactly, where the code reads the nearest double.
\<close>

type_synonym metadata = "(string \<times> string) list"

abbreviation meta :: "metadata \<Rightarrow> string \<Rightarrow> string option" where
  "meta m k \<equiv> map_of m k"

text \<open>The optional members \<open>...(v ? {k: v} : {})\<close>: the empty string counts as absent.\<close>

definition truthy :: "string option \<Rightarrow> string option" where
  "truthy v = (case v of Some s \<Rightarrow> if s = [] then None else Some s | None \<Rightarrow> None)"

lemma truthy_None [simp]: "truthy None = None"
  by (simp add: truthy_def)

lemma truthy_Some [simp]: "truthy v = Some s \<longleftrightarrow> v = Some s \<and> s \<noteq> []"
  by (auto simp: truthy_def split: option.splits)

section \<open>Isolation\<close>

datatype isolation_profile = Standard | HighSecurity

datatype start_mode = Warm | Cold

record profile_config =
  pc_runtimeClassName :: "string option"
  pc_requireSandbox :: bool

record isolation_config =
  ic_defaultProfile :: isolation_profile
  ic_fallbackToDefaultRuntimeClass :: bool
  ic_standard :: profile_config
  ic_highSecurity :: profile_config

record sandbox_config =
  sc_enabled :: bool
  sc_requireForHighSecurity :: bool
  sc_workspaceHostPath :: "string option"

record athena_config =
  cfg_runtimeIsolation :: "isolation_config option"
  cfg_sandbox :: "sandbox_config option"
  cfg_workspaceRoot :: string
  cfg_runtimeRunTimeoutMs :: int

record isolation_selection =
  is_profile :: isolation_profile
  is_startMode :: start_mode
  is_runtimeClassName :: "string option"
  is_requireSandbox :: bool

fun profile_of :: "isolation_config \<Rightarrow> isolation_profile \<Rightarrow> profile_config" where
  "profile_of c Standard = ic_standard c"
| "profile_of c HighSecurity = ic_highSecurity c"

definition normalizeRuntimeIsolationProfile :: "string option \<Rightarrow> isolation_profile option" where
  "normalizeRuntimeIsolationProfile value =
     (case truthy value of
        None \<Rightarrow> None
      | Some v \<Rightarrow>
          (let normalized = to_lower (trim v) in
           if normalized = ''standard'' then Some Standard
           else if normalized \<in> {''high-security'', ''high_security'', ''highsecurity''} then Some HighSecurity
           else None))"

definition resolveRuntimeIsolationSelection :: "athena_config \<Rightarrow> metadata \<Rightarrow> isolation_selection" where
  "resolveRuntimeIsolationSelection cfg m =
     (let configured = cfg_runtimeIsolation cfg;
          explicit = normalizeRuntimeIsolationProfile (meta m ''isolationProfile'');
          inferred = (if meta m ''securityLevel'' = Some ''high'' then Some HighSecurity else None);
          profile = (case explicit of Some p \<Rightarrow> p | None \<Rightarrow>
            (case inferred of Some p \<Rightarrow> p | None \<Rightarrow>
              (case configured of Some c \<Rightarrow> ic_defaultProfile c | None \<Rightarrow> Standard)));
          profileConfig = map_option (\<lambda>c. profile_of c profile) configured;
          startMode = (if truthy (meta m ''sandboxWarmPoolRef'') \<noteq> None then Warm else Cold);
          fallback = (case configured of Some c \<Rightarrow> ic_fallbackToDefaultRuntimeClass c | None \<Rightarrow> True);
          defaultRuntimeClass = (case configured of Some c \<Rightarrow> pc_runtimeClassName (ic_standard c) | None \<Rightarrow> None);
          runtimeClassName = (case Option.bind profileConfig pc_runtimeClassName of Some r \<Rightarrow> Some r
            | None \<Rightarrow> if fallback \<and> profile \<noteq> Standard then defaultRuntimeClass else None);
          requireSandbox = ((case profileConfig of Some p \<Rightarrow> pc_requireSandbox p | None \<Rightarrow> False) \<or>
            (case cfg_sandbox cfg of Some s \<Rightarrow> sc_requireForHighSecurity s | None \<Rightarrow> False) \<and> profile = HighSecurity)
      in \<lparr>is_profile = profile, is_startMode = startMode, is_runtimeClassName = truthy runtimeClassName,
          is_requireSandbox = requireSandbox\<rparr>)"

section \<open>Workspace\<close>

text \<open>\<open>replace(/\/+/g, "/")\<close>.\<close>

fun squeeze_slashes :: "string \<Rightarrow> string" where
  "squeeze_slashes [] = []"
| "squeeze_slashes [c] = [c]"
| "squeeze_slashes (c # d # cs) =
     (if c = CHR ''/'' \<and> d = CHR ''/'' then squeeze_slashes (d # cs) else c # squeeze_slashes (d # cs))"

definition normalizeSandboxAbsolutePath :: "string \<Rightarrow> string option" where
  "normalizeSandboxAbsolutePath value =
     (let trimmed = trim value in
      if \<not> starts_with ''/'' trimmed then None
      else if has_substring ''..'' trimmed then None
      else Some (squeeze_slashes trimmed))"

definition normalizeSandboxRelativeOrAbsolutePath :: "string \<Rightarrow> string option" where
  "normalizeSandboxRelativeOrAbsolutePath value =
     (let trimmed = trim value in
      if trimmed = [] \<or> has_substring ''..'' trimmed then None
      else Some (squeeze_slashes trimmed))"

definition normalizeSandboxWorkspaceBoolean :: "string option \<Rightarrow> bool option" where
  "normalizeSandboxWorkspaceBoolean value =
     (case truthy value of
        None \<Rightarrow> None
      | Some v \<Rightarrow>
          (let normalized = to_lower (trim v) in
           if normalized \<in> set [''1'', ''true'', ''yes'', ''on''] then Some True
           else if normalized \<in> set [''0'', ''false'', ''no'', ''off''] then Some False
           else None))"

definition normalizeSandboxWorkspaceMountPath :: "string option \<Rightarrow> string option" where
  "normalizeSandboxWorkspaceMountPath value = Option.bind (truthy value) normalizeSandboxAbsolutePath"

definition normalizeSandboxWorkspaceSubPath :: "string option \<Rightarrow> string option" where
  "normalizeSandboxWorkspaceSubPath value =
     (case truthy (Option.bind (truthy value) normalizeSandboxRelativeOrAbsolutePath) of
        Some normalized \<Rightarrow> Some (dropWhile (\<lambda>c. c = CHR ''/'') normalized)
      | None \<Rightarrow> None)"

definition normalizeSandboxWorkspaceRepo :: "string option \<Rightarrow> string option" where
  "normalizeSandboxWorkspaceRepo value =
     (case truthy value of
        None \<Rightarrow> None
      | Some v \<Rightarrow>
          (let normalized = trim v in
           if \<not> (starts_with ''http://'' normalized \<or> starts_with ''https://'' normalized) \<and>
             \<not> starts_with ''git@'' normalized then None
           else Some normalized))"

definition normalizeSandboxWorkspaceRef :: "string option \<Rightarrow> string option" where
  "normalizeSandboxWorkspaceRef value =
     (case truthy value of None \<Rightarrow> None | Some v \<Rightarrow> (let normalized = trim v in if normalized \<noteq> [] then Some normalized else None))"

definition normalizeSandboxWorkspaceIgnoreList :: "string option \<Rightarrow> string list option" where
  "normalizeSandboxWorkspaceIgnoreList value =
     (case truthy value of
        None \<Rightarrow> None
      | Some v \<Rightarrow>
          (let rows = filter (\<lambda>e. e \<noteq> []) (List.map_filter normalizeSandboxRelativeOrAbsolutePath (split_on CHR '','' v)) in
           if rows \<noteq> [] then Some (js_set rows) else None))"

definition normalizeSandboxWorkspaceSyncStrategy :: "string option \<Rightarrow> string option" where
  "normalizeSandboxWorkspaceSyncStrategy value =
     (case truthy value of
        None \<Rightarrow> None
      | Some v \<Rightarrow>
          (let normalized = to_lower (trim v) in
           if normalized = ''init-git-clone'' \<or> normalized = ''git-sync'' then Some normalized else None))"

record workspace_config =
  ws_hostPath :: string
  ws_mountPath :: string
  ws_readOnly :: "bool option"
  ws_syncRepo :: "string option"
  ws_syncRef :: "string option"
  ws_syncSubPath :: "string option"
  ws_syncStrategy :: "string option"
  ws_ignore :: "string list option"

definition resolveSandboxWorkspaceConfig :: "athena_config \<Rightarrow> metadata \<Rightarrow> workspace_config" where
  "resolveSandboxWorkspaceConfig cfg m =
     \<lparr>ws_hostPath = (case Option.bind (cfg_sandbox cfg) sc_workspaceHostPath of Some p \<Rightarrow> p | None \<Rightarrow> cfg_workspaceRoot cfg),
      ws_mountPath = (case normalizeSandboxWorkspaceMountPath (meta m ''sandboxWorkspaceMountPath'') of
        Some p \<Rightarrow> p | None \<Rightarrow> ''/workspace''),
      ws_readOnly = normalizeSandboxWorkspaceBoolean (meta m ''sandboxWorkspaceReadOnly''),
      ws_syncRepo = truthy (normalizeSandboxWorkspaceRepo (meta m ''sandboxWorkspaceRepo'')),
      ws_syncRef = truthy (normalizeSandboxWorkspaceRef (meta m ''sandboxWorkspaceRef'')),
      ws_syncSubPath = truthy (normalizeSandboxWorkspaceSubPath (meta m ''sandboxWorkspaceSubPath'')),
      ws_syncStrategy = truthy (normalizeSandboxWorkspaceSyncStrategy (meta m ''sandboxWorkspaceSyncStrategy'')),
      ws_ignore = normalizeSandboxWorkspaceIgnoreList (meta m ''sandboxWorkspaceIgnore'')\<rparr>"

section \<open>Quotas\<close>

record quota_config =
  qc_enabled :: bool
  qc_cpuCoresMax :: "rat option"
  qc_memoryBytesMax :: "int option"
  qc_diskBytesMax :: "int option"
  qc_pollIntervalMs :: int

text \<open>
  \<open>Number.parseFloat\<close> of a decimal literal: a sign, digits with an optional fraction, an optional exponent;
  \<open>None\<close> for \<open>NaN\<close>. The literal \<open>Infinity\<close> is not finite, so it is refused like \<open>NaN\<close>.
\<close>

definition parse_exponent :: "string \<Rightarrow> int" where
  "parse_exponent s =
     (if s \<noteq> [] \<and> (hd s = CHR ''e'' \<or> hd s = CHR ''E'') then
        (let t = tl s;
             neg = (t \<noteq> [] \<and> hd t = CHR ''-'');
             ds = takeWhile is_digit (if t \<noteq> [] \<and> (hd t = CHR ''-'' \<or> hd t = CHR ''+'') then tl t else t)
         in (if neg then -1 else 1) * int (digits_value ds))
      else 0)"

definition parse_float :: "string \<Rightarrow> rat option" where
  "parse_float s =
     (let t = dropWhile is_space s;
          neg = (t \<noteq> [] \<and> hd t = CHR ''-'');
          body = (if t \<noteq> [] \<and> (hd t = CHR ''-'' \<or> hd t = CHR ''+'') then tl t else t);
          ds = takeWhile is_digit body;
          r = dropWhile is_digit body;
          fs = (if r \<noteq> [] \<and> hd r = CHR ''.'' then takeWhile is_digit (tl r) else []);
          r' = (if r \<noteq> [] \<and> hd r = CHR ''.'' then dropWhile is_digit (tl r) else r);
          ex = parse_exponent r';
          v = of_nat (digits_value (ds @ fs)) / 10 ^ length fs;
          v' = (if 0 \<le> ex then v * 10 ^ nat ex else v / 10 ^ nat (- ex))
      in if ds @ fs = [] then None else Some (if neg then - v' else v'))"

definition normalizeSandboxQuotaFloat :: "string option \<Rightarrow> rat option" where
  "normalizeSandboxQuotaFloat value =
     (case truthy value of
        None \<Rightarrow> None
      | Some v \<Rightarrow> (case parse_float (trim v) of None \<Rightarrow> None | Some x \<Rightarrow> if x \<le> 0 then None else Some x))"

definition normalizeSandboxQuotaInt :: "string option \<Rightarrow> int option" where
  "normalizeSandboxQuotaInt value =
     (case truthy value of
        None \<Rightarrow> None
      | Some v \<Rightarrow> (case parse_int (trim v) of None \<Rightarrow> None | Some x \<Rightarrow> if x \<le> 0 then None else Some x))"

definition resolveSandboxQuotaConfig :: "metadata \<Rightarrow> quota_config" where
  "resolveSandboxQuotaConfig m =
     (let cpu = normalizeSandboxQuotaFloat (meta m ''sandboxQuotaCpuCores'');
          memory = normalizeSandboxQuotaInt (meta m ''sandboxQuotaMemoryBytes'');
          disk = normalizeSandboxQuotaInt (meta m ''sandboxQuotaDiskBytes'');
          poll = (case normalizeSandboxQuotaInt (meta m ''sandboxQuotaPollMs'') of Some p \<Rightarrow> p | None \<Rightarrow> 1000)
      in \<lparr>qc_enabled = (cpu \<noteq> None \<or> memory \<noteq> None \<or> disk \<noteq> None), qc_cpuCoresMax = cpu,
          qc_memoryBytesMax = memory, qc_diskBytesMax = disk, qc_pollIntervalMs = max 250 poll\<rparr>)"

record resource_usage =
  ru_status :: string
  ru_cpuCores :: "rat option"
  ru_memoryBytes :: "rat option"
  ru_diskBytes :: "rat option"
  ru_reason :: "string option"

text \<open>\<open>toFixed(3)\<close> of a number that is not negative, and the rendering of an integer.\<close>

definition int_str :: "int \<Rightarrow> string" where
  "int_str i = (if i < 0 then ''-'' @ nat_str (nat (- i)) else nat_str (nat i))"

definition to_fixed3 :: "rat \<Rightarrow> string" where
  "to_fixed3 r =
     (let n = nat \<lfloor>r * 1000 + 1 / 2\<rfloor>; f = nat_str (n mod 1000)
      in nat_str (n div 1000) @ ''.'' @ replicate (3 - length f) CHR ''0'' @ f)"

definition resolveQuotaViolation :: "quota_config \<Rightarrow> resource_usage \<Rightarrow> string option" where
  "resolveQuotaViolation quota usage =
     (let cpu = (case qc_cpuCoresMax quota of
            None \<Rightarrow> None
          | Some mx \<Rightarrow> (case ru_cpuCores usage of
              None \<Rightarrow> Some ''Sandbox quota monitor missing cpu usage for configured cpu limit.''
            | Some u \<Rightarrow> if u > mx
                then Some (''Sandbox quota exceeded: cpu '' @ to_fixed3 u @ '' > '' @ to_fixed3 mx @ '' cores.'') else None));
          memory = (case qc_memoryBytesMax quota of
            None \<Rightarrow> None
          | Some mx \<Rightarrow> (case ru_memoryBytes usage of
              None \<Rightarrow> Some ''Sandbox quota monitor missing memory usage for configured memory limit.''
            | Some u \<Rightarrow> if u > of_int mx
                then Some (''Sandbox quota exceeded: memory '' @ int_str \<lfloor>u\<rfloor> @ '' > '' @ int_str mx @ '' bytes.'') else None));
          disk = (case qc_diskBytesMax quota of
            None \<Rightarrow> None
          | Some mx \<Rightarrow> (case ru_diskBytes usage of
              None \<Rightarrow> Some ''Sandbox quota monitor missing disk usage for configured disk limit.''
            | Some u \<Rightarrow> if u > of_int mx
                then Some (''Sandbox quota exceeded: disk '' @ int_str \<lfloor>u\<rfloor> @ '' > '' @ int_str mx @ '' bytes.'') else None))
      in case cpu of Some v \<Rightarrow> Some v | None \<Rightarrow> (case memory of Some v \<Rightarrow> Some v | None \<Rightarrow> disk))"

section \<open>Properties\<close>

fun no_double_slash :: "string \<Rightarrow> bool" where
  "no_double_slash (c # d # cs) = (\<not> (c = CHR ''/'' \<and> d = CHR ''/'') \<and> no_double_slash (d # cs))"
| "no_double_slash _ = True"

lemma squeeze_head: "squeeze_slashes (c # cs) \<noteq> [] \<and> hd (squeeze_slashes (c # cs)) = c"
  by (induction "c # cs" arbitrary: c cs rule: squeeze_slashes.induct) auto

lemma squeeze_no_double: "no_double_slash (squeeze_slashes s)"
proof (induction s rule: squeeze_slashes.induct)
  case (3 c d cs)
  show ?case
  proof (cases "c = CHR ''/'' \<and> d = CHR ''/''")
    case False
    obtain x xs where x: "squeeze_slashes (d # cs) = x # xs" "x = d"
      using squeeze_head [of d cs] by (cases "squeeze_slashes (d # cs)") auto
    then show ?thesis using 3(2) False by auto
  qed (use 3(1) in simp)
qed auto

lemma no_double_tl: "no_double_slash (c # cs) \<Longrightarrow> no_double_slash cs"
  by (cases cs) auto

lemma squeeze_id: "no_double_slash s \<Longrightarrow> squeeze_slashes s = s"
  by (induction s rule: squeeze_slashes.induct) auto

lemma squeeze_dots: "has_substring ''..'' (squeeze_slashes s) \<Longrightarrow> has_substring ''..'' s"
proof (induction s rule: squeeze_slashes.induct)
  case (3 c d cs)
  show ?case
  proof (cases "c = CHR ''/'' \<and> d = CHR ''/''")
    case True
    then show ?thesis using 3 by simp
  next
    case False
    obtain x xs where x: "squeeze_slashes (d # cs) = x # xs" "x = d"
      using squeeze_head [of d cs] by (cases "squeeze_slashes (d # cs)") auto
    have "starts_with ''..'' (c # d # cs) \<or> has_substring ''..'' (squeeze_slashes (d # cs))"
      using 3(3) False x by (auto simp: starts_with_def)
    then show ?thesis using 3(2) False by auto
  qed
qed auto

lemma has_substring_drop: "has_substring p (dropWhile P s) \<Longrightarrow> has_substring p s"
  by (induction s) (auto split: if_splits)

text \<open>Paths of a workspace: not empty, without a parent segment and without repeated slashes.\<close>

definition path_ok :: "string \<Rightarrow> bool" where
  "path_ok p \<longleftrightarrow> p \<noteq> [] \<and> \<not> has_substring ''..'' p \<and> no_double_slash p"

lemma relative_path_ok: "normalizeSandboxRelativeOrAbsolutePath v = Some p \<Longrightarrow> path_ok p"
  using squeeze_dots [of "trim v"] squeeze_head squeeze_no_double
  by (cases "trim v") (auto simp: normalizeSandboxRelativeOrAbsolutePath_def Let_def path_ok_def split: if_splits)

lemma absolute_path_ok: "normalizeSandboxAbsolutePath v = Some p \<Longrightarrow> path_ok p \<and> hd p = CHR ''/''"
  using squeeze_dots [of "trim v"] squeeze_head squeeze_no_double
  by (cases "trim v") (auto simp: normalizeSandboxAbsolutePath_def Let_def path_ok_def starts_with_def split: if_splits)

lemma no_double_dropWhile: "no_double_slash s \<Longrightarrow> no_double_slash (dropWhile P s)"
  by (induction s) (auto dest: no_double_tl)

text \<open>
  C32 The workspace stays where it is put: whatever the metadata of a run say, the mount path is absolute, the
  sub-path is relative, and neither of them nor any of the ignored paths has a parent segment (\<open>..\<close>), an empty
  segment or is empty; the ignored paths are listed once each.
\<close>

theorem workspace_paths_confined:
  "path_ok (ws_mountPath (resolveSandboxWorkspaceConfig cfg m)) \<and>
   hd (ws_mountPath (resolveSandboxWorkspaceConfig cfg m)) = CHR ''/'' \<and>
   (case ws_syncSubPath (resolveSandboxWorkspaceConfig cfg m) of
      None \<Rightarrow> True | Some p \<Rightarrow> path_ok p \<and> hd p \<noteq> CHR ''/'') \<and>
   (case ws_ignore (resolveSandboxWorkspaceConfig cfg m) of
      None \<Rightarrow> True | Some ps \<Rightarrow> ps \<noteq> [] \<and> distinct ps \<and> list_all path_ok ps)"
proof (intro conjI)
  let ?ws = "resolveSandboxWorkspaceConfig cfg m"
  have "path_ok ''/workspace''" by (simp add: path_ok_def starts_with_def)
  moreover have "normalizeSandboxWorkspaceMountPath v = Some p \<Longrightarrow> path_ok p \<and> hd p = CHR ''/''" for v p
    by (auto simp: normalizeSandboxWorkspaceMountPath_def bind_eq_Some_conv dest: absolute_path_ok)
  ultimately show "path_ok (ws_mountPath ?ws)" "hd (ws_mountPath ?ws) = CHR ''/''"
    by (auto simp: resolveSandboxWorkspaceConfig_def split: option.splits)
  have "path_ok p \<and> hd p \<noteq> CHR ''/''" if sub: "truthy (normalizeSandboxWorkspaceSubPath v) = Some p" for v p
  proof -
    obtain x q where q: "normalizeSandboxRelativeOrAbsolutePath x = Some q" "p = dropWhile (\<lambda>c. c = CHR ''/'') q"
      using sub by (auto simp: normalizeSandboxWorkspaceSubPath_def bind_eq_Some_conv split: option.splits)
    have ne: "p \<noteq> []" using sub by simp
    have "path_ok q" by (rule relative_path_ok [OF q(1)])
    then have "path_ok p" using q(2) ne has_substring_drop [of "''..''" "\<lambda>c. c = CHR ''/''" q]
      by (auto simp: path_ok_def no_double_dropWhile)
    then show ?thesis using dropWhile_hd_not [of "\<lambda>c. c = CHR ''/''" q] q(2) ne by metis
  qed
  then show "case ws_syncSubPath ?ws of None \<Rightarrow> True | Some p \<Rightarrow> path_ok p \<and> hd p \<noteq> CHR ''/''"
    by (auto simp: resolveSandboxWorkspaceConfig_def split: option.split)
  have "ps \<noteq> [] \<and> distinct ps \<and> list_all path_ok ps" if ign: "normalizeSandboxWorkspaceIgnoreList v = Some ps" for v ps
  proof -
    obtain x where "ps = js_set (filter (\<lambda>e. e \<noteq> []) (List.map_filter normalizeSandboxRelativeOrAbsolutePath (split_on CHR '','' x)))"
      "filter (\<lambda>e. e \<noteq> []) (List.map_filter normalizeSandboxRelativeOrAbsolutePath (split_on CHR '','' x)) \<noteq> []"
      using ign by (auto simp: normalizeSandboxWorkspaceIgnoreList_def Let_def split: option.splits if_splits)
    moreover from this have "set ps \<subseteq> set (List.map_filter normalizeSandboxRelativeOrAbsolutePath (split_on CHR '','' x))" "ps \<noteq> []"
      using set_js_set by (auto simp del: set_empty simp: set_empty [symmetric])
    ultimately show ?thesis
      by (auto simp: list_all_iff List.map_filter_def dest!: subsetD intro: relative_path_ok)
  qed
  then show "case ws_ignore ?ws of None \<Rightarrow> True | Some ps \<Rightarrow> ps \<noteq> [] \<and> distinct ps \<and> list_all path_ok ps"
    by (auto simp: resolveSandboxWorkspaceConfig_def split: option.split)
qed

text \<open>
  The quota check is exact: no violation is found exactly when each limit that is configured has a reported
  usage that does not exceed it; in particular usage that is not reported is a violation.
\<close>

theorem quota_violation_exact:
  "resolveQuotaViolation quota usage = None \<longleftrightarrow>
     (case qc_cpuCoresMax quota of None \<Rightarrow> True
      | Some mx \<Rightarrow> (case ru_cpuCores usage of None \<Rightarrow> False | Some u \<Rightarrow> u \<le> mx)) \<and>
     (case qc_memoryBytesMax quota of None \<Rightarrow> True
      | Some mx \<Rightarrow> (case ru_memoryBytes usage of None \<Rightarrow> False | Some u \<Rightarrow> u \<le> of_int mx)) \<and>
     (case qc_diskBytesMax quota of None \<Rightarrow> True
      | Some mx \<Rightarrow> (case ru_diskBytes usage of None \<Rightarrow> False | Some u \<Rightarrow> u \<le> of_int mx))"
  by (simp add: resolveQuotaViolation_def Let_def linorder_not_less split: option.split)

end
