(* ===== verification/Pagination.thy ===== *)
theory Pagination
  imports Prelude
begin

text \<open>
  Cursors over lists, \<open>control-plane/services/pagination.ts\<close>, and the page that the stores cut out of
  the rows that match a query. A cursor is the base64url text of an offset; \<open>b64\<close> and \<open>unb64\<close> stand
  for \<open>Buffer\<close>'s encoding and decoding.
\<close>

definition clampLimit :: "rat \<Rightarrow> int \<Rightarrow> int \<Rightarrow> int" where
  "clampLimit v mn mx = max mn (min mx \<lfloor>v\<rfloor>)"

definition decodeOffsetCursor :: "(string \<Rightarrow> string) \<Rightarrow> string option \<Rightarrow> nat" where
  "decodeOffsetCursor unb64 cursor =
     (case cursor of
        None \<Rightarrow> 0
      | Some c \<Rightarrow> if c = [] then 0
          else (case parse_int (unb64 c) of None \<Rightarrow> 0 | Some n \<Rightarrow> if n < 0 then 0 else nat n))"

definition encodeOffsetCursor :: "(string \<Rightarrow> string) \<Rightarrow> nat \<Rightarrow> string" where
  "encodeOffsetCursor b64 offset = b64 (nat_str offset)"

definition page_of :: "(string \<Rightarrow> string) \<Rightarrow> (string \<Rightarrow> string) \<Rightarrow> 'a list \<Rightarrow> nat \<Rightarrow> string option \<Rightarrow>
    'a list \<times> string option" where
  "page_of b64 unb64 filtered limit cursor =
     (let offset = decodeOffsetCursor unb64 cursor;
          items = take limit (drop offset filtered);
          next = offset + length items
      in (items, if next < length filtered then Some (encodeOffsetCursor b64 next) else None))"

text \<open>Following the cursors from page to page.\<close>

fun all_pages :: "nat \<Rightarrow> (string option \<Rightarrow> 'a list \<times> string option) \<Rightarrow> string option \<Rightarrow> 'a list" where
  "all_pages 0 page cursor = []"
| "all_pages (Suc fuel) page cursor =
     (case page cursor of
        (items, None) \<Rightarrow> items
      | (items, Some c) \<Rightarrow> items @ all_pages fuel page (Some c))"

text \<open>The documented behaviour of the codec: decoding inverts encoding, and only the empty text is empty.\<close>

definition codec :: "(string \<Rightarrow> string) \<Rightarrow> (string \<Rightarrow> string) \<Rightarrow> bool" where
  "codec b64 unb64 \<longleftrightarrow> (\<forall>s. unb64 (b64 s) = s \<and> (b64 s = [] \<longrightarrow> s = []))"

lemma decode_encode [simp]:
  "codec b64 unb64 \<Longrightarrow> decodeOffsetCursor unb64 (Some (encodeOffsetCursor b64 n)) = n"
  using nat_str_digits [of n]
  by (auto simp: codec_def decodeOffsetCursor_def encodeOffsetCursor_def parse_int_nat_str)

lemma all_pages_from:
  assumes "codec b64 unb64" "0 < limit"
  shows "length xs - decodeOffsetCursor unb64 cursor < fuel \<Longrightarrow>
    all_pages fuel (page_of b64 unb64 xs limit) cursor = drop (decodeOffsetCursor unb64 cursor) xs"
proof (induction fuel arbitrary: cursor)
  case (Suc fuel)
  let ?o = "decodeOffsetCursor unb64 cursor"
  let ?items = "take limit (drop ?o xs)"
  let ?n = "?o + length ?items"
  show ?case
  proof (cases "?n < length xs")
    case True
    have "length xs - ?n < fuel" using Suc.prems True assms(2) by auto
    then have "all_pages fuel (page_of b64 unb64 xs limit) (Some (encodeOffsetCursor b64 ?n)) = drop ?n xs"
      using Suc.IH [of "Some (encodeOffsetCursor b64 ?n)"] assms(1) by simp
    moreover have "?items @ drop ?n xs = drop ?o xs"
      using True by (simp add: min_def) (metis add.commute append_take_drop_id drop_drop)
    moreover have "page_of b64 unb64 xs limit cursor = (?items, Some (encodeOffsetCursor b64 ?n))"
      using True by (simp add: page_of_def Let_def del: length_take length_drop)
    ultimately show ?thesis by simp
  next
    case False
    then have "?items = drop ?o xs" by (simp add: min_def split: if_splits)
    moreover have "page_of b64 unb64 xs limit cursor = (?items, None)"
      using False by (simp add: page_of_def Let_def del: length_take length_drop)
    ultimately show ?thesis by simp
  qed
qed simp

lemma all_pages_complete:
  "codec b64 unb64 \<Longrightarrow> 0 < limit \<Longrightarrow> length xs < fuel \<Longrightarrow>
   all_pages fuel (page_of b64 unb64 xs limit) None = xs"
  using all_pages_from [of b64 unb64 limit xs None fuel] by (simp add: decodeOffsetCursor_def)

lemma page_bounds: "length (fst (page_of b64 unb64 xs limit cursor)) \<le> limit"
  by (simp add: page_of_def Let_def)

lemma clampLimit_bounds: "mn \<le> mx \<Longrightarrow> mn \<le> clampLimit v mn mx \<and> clampLimit v mn mx \<le> mx"
  by (simp add: clampLimit_def)

lemma codec_id: "codec (\<lambda>s. s) (\<lambda>s. s)"
  by (simp add: codec_def)

end
