(* ===== verification/RejectionLog.thy ===== *)
theory RejectionLog
  imports Pagination
begin

text \<open>
  The log of runs that were rejected for concurrency: \<open>recordConcurrencyRejection\<close> and
  \<open>listConcurrencyRejections\<close> of \<open>LocalPolicyService\<close> (\<open>control-plane/services/policy.ts\<close>) with
  the store they fill (\<open>control-plane/rejection-event-store.ts\<close>). The file is the list of its lines,
  each the JSON it parses to or no JSON; blank lines are not counted. Each operation runs under a session
  lock (theory \<open>SessionLock\<close>) and is one step here.
\<close>

section \<open>Records and their JSON\<close>

datatype rejection_reason = MaxConcurrentRunsExceeded | LockAcquisitionFailed

record policy_resource_ref =
  ref_kind :: string
  ref_name :: string
  ref_namespace :: "string option"
  ref_apiVersion :: "string option"

record policy_origin =
  po_engine :: string
  po_ruleType :: string
  po_policyName :: "string option"
  po_ruleName :: "string option"
  po_failureAction :: "string option"
  po_resourceRef :: "policy_resource_ref option"
  po_message :: "string option"

record rejection_event =
  ev_timestamp :: string
  ev_limit :: int
  ev_sessionId :: string
  ev_agentName :: "string option"
  ev_reason :: rejection_reason
  ev_activeRuns :: int
  ev_policy :: "policy_origin option"

record rejection_record =
  rj_id :: string
  rj_createdAt :: string
  rj_sessionId :: string
  rj_activeRuns :: int
  rj_maxConcurrentRuns :: int
  rj_reason :: rejection_reason
  rj_policy :: "policy_origin option"
  rj_event :: rejection_event

fun reason_str :: "rejection_reason \<Rightarrow> string" where
  "reason_str MaxConcurrentRunsExceeded = ''max-concurrent-runs-exceeded''"
| "reason_str LockAcquisitionFailed = ''lock-acquisition-failed''"

definition read_reason :: "js \<Rightarrow> rejection_reason option" where
  "read_reason v = (if v = JStr ''max-concurrent-runs-exceeded'' then Some MaxConcurrentRunsExceeded
     else if v = JStr ''lock-acquisition-failed'' then Some LockAcquisitionFailed else None)"

text \<open>\<open>typeof v === "string" ? v : undefined\<close> where the empty string counts as absent.\<close>

definition read_nonempty :: "js \<Rightarrow> string option" where
  "read_nonempty v = (case v of JStr s \<Rightarrow> if s = [] then None else Some s | _ \<Rightarrow> None)"

definition read_one_of :: "string list \<Rightarrow> js \<Rightarrow> string option" where
  "read_one_of xs v = (case v of JStr s \<Rightarrow> if s \<in> set xs then Some s else None | _ \<Rightarrow> None)"

definition normalizePolicyResourceRef :: "js \<Rightarrow> policy_resource_ref option" where
  "normalizePolicyResourceRef v =
     (case (read_nonempty (js_get v ''kind''), read_nonempty (js_get v ''name'')) of
        (Some k, Some n) \<Rightarrow> Some \<lparr>ref_kind = k, ref_name = n, ref_namespace = js_str (js_get v ''namespace''),
          ref_apiVersion = js_str (js_get v ''apiVersion'')\<rparr>
      | _ \<Rightarrow> None)"

definition normalizePolicyOriginDetails :: "js \<Rightarrow> policy_origin option" where
  "normalizePolicyOriginDetails v =
     (if \<not> is_record v then None
      else if js_get v ''schemaVersion'' \<noteq> JInt 1 then None
      else case (read_one_of [''athena'', ''kyverno''] (js_get v ''engine''),
          read_one_of [''concurrency'', ''validate'', ''mutate'', ''generate''] (js_get v ''ruleType'')) of
        (Some e, Some t) \<Rightarrow> Some \<lparr>po_engine = e, po_ruleType = t,
          po_policyName = js_str (js_get v ''policyName''), po_ruleName = js_str (js_get v ''ruleName''),
          po_failureAction = read_one_of [''audit'', ''enforce''] (js_get v ''failureAction''),
          po_resourceRef = (if is_record (js_get v ''resourceRef'')
            then normalizePolicyResourceRef (js_get v ''resourceRef'') else None),
          po_message = js_str (js_get v ''message'')\<rparr>
      | _ \<Rightarrow> None)"

definition createFallbackRunRejectionEvent :: "string \<Rightarrow> string \<Rightarrow> int \<Rightarrow> int \<Rightarrow> rejection_reason \<Rightarrow>
    policy_origin option \<Rightarrow> rejection_event" where
  "createFallbackRunRejectionEvent createdAt sessionId activeRuns maxConcurrentRuns reason policy =
     \<lparr>ev_timestamp = createdAt, ev_limit = maxConcurrentRuns, ev_sessionId = sessionId, ev_agentName = None,
      ev_reason = reason, ev_activeRuns = activeRuns, ev_policy = policy\<rparr>"

definition normalizeRunRejectionEvent :: "js \<Rightarrow> rejection_event \<Rightarrow> rejection_event" where
  "normalizeRunRejectionEvent v fallback =
     (if \<not> is_record v then fallback
      else
        let details = (if is_record (js_get v ''rejectedRunDetails'') then js_get v ''rejectedRunDetails'' else JUndefined);
            policy = (case normalizePolicyOriginDetails (js_get v ''policy'') of
              Some p \<Rightarrow> Some p | None \<Rightarrow> ev_policy fallback)
        in case (read_nonempty (js_get v ''timestamp''), js_int (js_get v ''limit''),
            read_nonempty (js_get details ''sessionId''), read_reason (js_get v ''reason''),
            js_int (js_get v ''activeRuns'')) of
          (Some timestamp, Some limit, Some sessionId, Some reason, Some activeRuns) \<Rightarrow>
            if js_get v ''schemaVersion'' = JInt 1 \<and> js_get v ''policyType'' = JStr ''CONCURRENCY'' \<and>
               limit > 0 \<and> activeRuns \<ge> 0
            then \<lparr>ev_timestamp = timestamp, ev_limit = limit, ev_sessionId = sessionId,
              ev_agentName = read_nonempty (js_get details ''agentName''), ev_reason = reason,
              ev_activeRuns = activeRuns, ev_policy = policy\<rparr>
            else fallback
        | _ \<Rightarrow> fallback)"

definition read_rejection :: "js \<Rightarrow> rejection_record option" where
  "read_rejection v =
     (let reason = (case read_reason (js_get v ''reason'') of Some r \<Rightarrow> r | None \<Rightarrow> MaxConcurrentRunsExceeded);
          policy = normalizePolicyOriginDetails (js_get v ''policy'')
      in case (read_nonempty (js_get v ''id''), read_nonempty (js_get v ''createdAt''),
          read_nonempty (js_get v ''sessionId''), js_int (js_get v ''activeRuns''),
          js_int (js_get v ''maxConcurrentRuns'')) of
        (Some i, Some createdAt, Some sessionId, Some activeRuns, Some maxConcurrentRuns) \<Rightarrow>
          if activeRuns < 0 \<or> maxConcurrentRuns \<le> 0 then None
          else Some \<lparr>rj_id = i, rj_createdAt = createdAt, rj_sessionId = sessionId, rj_activeRuns = activeRuns,
            rj_maxConcurrentRuns = maxConcurrentRuns, rj_reason = reason, rj_policy = policy,
            rj_event = normalizeRunRejectionEvent (js_get v ''event'')
              (createFallbackRunRejectionEvent createdAt sessionId activeRuns maxConcurrentRuns reason policy)\<rparr>
      | _ \<Rightarrow> None)"

fun readConcurrencyRejections :: "file_content list \<Rightarrow> rejection_record list" where
  "readConcurrencyRejections [] = []"
| "readConcurrencyRejections (Json v # lines) =
     (case read_rejection v of
        None \<Rightarrow> readConcurrencyRejections lines
      | Some row \<Rightarrow> row # readConcurrencyRejections lines)"
| "readConcurrencyRejections (NotJson # lines) = readConcurrencyRejections lines"

text \<open>The object literals that are written.\<close>

definition resource_ref_json :: "policy_resource_ref \<Rightarrow> js" where
  "resource_ref_json r = JObj ([(''kind'', JStr (ref_kind r)), (''name'', JStr (ref_name r))] @
     opt_field ''namespace'' (map_option JStr (ref_namespace r)) @
     opt_field ''apiVersion'' (map_option JStr (ref_apiVersion r)))"

definition policy_origin_json :: "policy_origin \<Rightarrow> js" where
  "policy_origin_json p = JObj ([(''schemaVersion'', JInt 1), (''engine'', JStr (po_engine p)),
     (''ruleType'', JStr (po_ruleType p))] @
     opt_field ''policyName'' (map_option JStr (po_policyName p)) @
     opt_field ''ruleName'' (map_option JStr (po_ruleName p)) @
     opt_field ''failureAction'' (map_option JStr (po_failureAction p)) @
     opt_field ''resourceRef'' (map_option resource_ref_json (po_resourceRef p)) @
     opt_field ''message'' (map_option JStr (po_message p)))"

definition rejection_event_json :: "rejection_event \<Rightarrow> js" where
  "rejection_event_json e = JObj ([(''schemaVersion'', JInt 1), (''timestamp'', JStr (ev_timestamp e)),
     (''policyType'', JStr ''CONCURRENCY''), (''limit'', JInt (ev_limit e)),
     (''rejectedRunDetails'', JObj ([(''sessionId'', JStr (ev_sessionId e))] @
        opt_field ''agentName'' (map_option JStr (ev_agentName e)))),
     (''reason'', JStr (reason_str (ev_reason e))), (''activeRuns'', JInt (ev_activeRuns e))] @
     opt_field ''policy'' (map_option policy_origin_json (ev_policy e)))"

definition rejection_json :: "rejection_record \<Rightarrow> js" where
  "rejection_json r = JObj ([(''id'', JStr (rj_id r)), (''createdAt'', JStr (rj_createdAt r)),
     (''sessionId'', JStr (rj_sessionId r)), (''activeRuns'', JInt (rj_activeRuns r)),
     (''maxConcurrentRuns'', JInt (rj_maxConcurrentRuns r)), (''reason'', JStr (reason_str (rj_reason r)))] @
     opt_field ''policy'' (map_option policy_origin_json (rj_policy r)) @
     [(''event'', rejection_event_json (rj_event r))])"

section \<open>The in-memory store\<close>

record rejection_store =
  rs_maxRecords :: nat
  rs_defaultLimit :: nat
  rs_maxLimit :: nat
  rs_records :: "rejection_record list"

record rejection_query =
  rq_sessionId :: string
  rq_createdAfter :: string
  rq_createdBefore :: string
  rq_limit :: "rat option"
  rq_cursor :: "string option"

text \<open>An absent criterion of a query is the empty string, which the code treats as absent.\<close>

definition new_rejection_store :: "rat \<Rightarrow> rat option \<Rightarrow> rat option \<Rightarrow> rejection_store" where
  "new_rejection_store maxRecords defaultLimit maxLimit =
     (let d = max 1 (case defaultLimit of None \<Rightarrow> 200 | Some l \<Rightarrow> nat \<lfloor>l\<rfloor>) in
      \<lparr>rs_maxRecords = max 1 (nat \<lfloor>maxRecords\<rfloor>), rs_defaultLimit = d,
       rs_maxLimit = max d (case maxLimit of None \<Rightarrow> 500 | Some l \<Rightarrow> nat \<lfloor>l\<rfloor>), rs_records = []\<rparr>)"

definition rejections_replace :: "rejection_record list \<Rightarrow> rejection_store \<Rightarrow> rejection_store" where
  "rejections_replace records s = s\<lparr>rs_records := take_last (rs_maxRecords s) records\<rparr>"

definition rejections_add :: "rejection_record \<Rightarrow> rejection_store \<Rightarrow> rejection_store" where
  "rejections_add r s =
     (let records = rs_records s @ [r] in
      s\<lparr>rs_records := if rs_maxRecords s < length records
         then drop (length records - rs_maxRecords s) records else records\<rparr>)"

definition matchesQuery :: "(string \<Rightarrow> time option) \<Rightarrow> rejection_query \<Rightarrow> rejection_record \<Rightarrow> bool" where
  "matchesQuery dateParse q row =
     (if rq_sessionId q \<noteq> [] \<and> rj_sessionId row \<noteq> rq_sessionId q then False
      else if rq_createdAfter q \<noteq> [] \<or> rq_createdBefore q \<noteq> [] then
        (case dateParse (rj_createdAt row) of
           None \<Rightarrow> False
         | Some createdAtMs \<Rightarrow>
             if rq_createdAfter q \<noteq> [] \<and>
                (case dateParse (rq_createdAfter q) of None \<Rightarrow> False | Some afterMs \<Rightarrow> createdAtMs < afterMs) then False
             else if rq_createdBefore q \<noteq> [] \<and>
                (case dateParse (rq_createdBefore q) of None \<Rightarrow> False | Some beforeMs \<Rightarrow> createdAtMs > beforeMs) then False
             else True)
      else True)"

definition rejections_list :: "(string \<Rightarrow> string) \<Rightarrow> (string \<Rightarrow> string) \<Rightarrow> (string \<Rightarrow> time option) \<Rightarrow>
    rejection_store \<Rightarrow> rejection_query \<Rightarrow> rejection_record list \<times> string option" where
  "rejections_list b64 unb64 dateParse s q =
     (let limit = clampLimit (case rq_limit q of None \<Rightarrow> of_nat (rs_defaultLimit s) | Some l \<Rightarrow> l) 1 (int (rs_maxLimit s))
      in page_of b64 unb64 (filter (matchesQuery dateParse q) (rs_records s)) (nat limit) (rq_cursor q))"

section \<open>The service\<close>

definition assertValidSessionId :: "string \<Rightarrow> unit result" where
  "assertValidSessionId s =
     (if s \<noteq> [] \<and> (\<forall>c \<in> set s. is_digit c \<or> (65 \<le> (of_char c :: nat) \<and> of_char c \<le> (90 :: nat)) \<or>
         (97 \<le> (of_char c :: nat) \<and> of_char c \<le> (122 :: nat)) \<or> c \<in> set ''._-'')
      then Inr ()
      else Inl (AthenaError CONFIG_ERROR (''Invalid sessionId '' @ quoted s @ ''. Allowed pattern: ^[A-Za-z0-9._-]+$'') False))"

record rejection_service =
  sv_retention :: nat
  sv_log :: "file_content list"
  sv_store :: rejection_store

definition new_rejection_service :: "rat option \<Rightarrow> rejection_service" where
  "new_rejection_service retention =
     (let n = nat (clampLimit (case retention of None \<Rightarrow> 500 | Some r \<Rightarrow> r) 1 500) in
      \<lparr>sv_retention = n, sv_log = [], sv_store = new_rejection_store (of_nat n) (Some 200) (Some 500)\<rparr>)"

definition pruneConcurrencyRejectionsLocked :: "rejection_service \<Rightarrow> rejection_service" where
  "pruneConcurrencyRejectionsLocked sv =
     (let rows = readConcurrencyRejections (sv_log sv) in
      if length rows \<le> sv_retention sv then sv
      else sv\<lparr>sv_log := map (\<lambda>r. Json (rejection_json r)) (take_last (sv_retention sv) rows)\<rparr>)"

definition syncRejectionStoreFromDiskLocked :: "rejection_service \<Rightarrow> rejection_service" where
  "syncRejectionStoreFromDiskLocked sv =
     sv\<lparr>sv_store := rejections_replace (readConcurrencyRejections (sv_log sv)) (sv_store sv)\<rparr>"

definition listConcurrencyRejections :: "(string \<Rightarrow> string) \<Rightarrow> (string \<Rightarrow> string) \<Rightarrow> (string \<Rightarrow> time option) \<Rightarrow>
    rejection_service \<Rightarrow> rejection_query \<Rightarrow> rejection_service \<times> rejection_record list \<times> string option" where
  "listConcurrencyRejections b64 unb64 dateParse sv q =
     (let sv' = syncRejectionStoreFromDiskLocked sv in (sv', rejections_list b64 unb64 dateParse (sv_store sv') q))"

definition new_rejection :: "string \<Rightarrow> string \<Rightarrow> string \<Rightarrow> int \<Rightarrow> int \<Rightarrow> rejection_reason option \<Rightarrow>
    policy_origin option \<Rightarrow> rejection_record" where
  "new_rejection uuid createdAt sessionId activeRuns maxConcurrentRuns reason policy =
     (let reason = (case reason of Some r \<Rightarrow> r | None \<Rightarrow> MaxConcurrentRunsExceeded) in
      \<lparr>rj_id = uuid, rj_createdAt = createdAt, rj_sessionId = sessionId, rj_activeRuns = activeRuns,
       rj_maxConcurrentRuns = maxConcurrentRuns, rj_reason = reason, rj_policy = policy,
       rj_event = \<lparr>ev_timestamp = createdAt, ev_limit = maxConcurrentRuns, ev_sessionId = sessionId,
         ev_agentName = None, ev_reason = reason, ev_activeRuns = activeRuns, ev_policy = policy\<rparr>\<rparr>)"

definition recordConcurrencyRejection :: "string \<Rightarrow> string \<Rightarrow> string \<Rightarrow> int \<Rightarrow> int \<Rightarrow> rejection_reason option \<Rightarrow>
    policy_origin option \<Rightarrow> rejection_service \<Rightarrow> rejection_service \<times> rejection_record result" where
  "recordConcurrencyRejection uuid createdAt sessionId activeRuns maxConcurrentRuns reason policy sv =
     (case assertValidSessionId sessionId of
        Inl e \<Rightarrow> (sv, Inl e)
      | Inr _ \<Rightarrow>
          (let event = new_rejection uuid createdAt sessionId activeRuns maxConcurrentRuns reason policy;
               sv1 = sv\<lparr>sv_log := sv_log sv @ [Json (rejection_json event)]\<rparr>;
               sv2 = syncRejectionStoreFromDiskLocked (pruneConcurrencyRejectionsLocked sv1)
           in (sv2, Inr event)))"

section \<open>Round trip of the rows\<close>

definition origin_ok :: "policy_origin \<Rightarrow> bool" where
  "origin_ok p \<longleftrightarrow> po_engine p \<in> {''athena'', ''kyverno''} \<and>
     po_ruleType p \<in> {''concurrency'', ''validate'', ''mutate'', ''generate''} \<and>
     (\<forall>a. po_failureAction p = Some a \<longrightarrow> a \<in> {''audit'', ''enforce''}) \<and>
     (\<forall>r. po_resourceRef p = Some r \<longrightarrow> ref_kind r \<noteq> [] \<and> ref_name r \<noteq> [])"

definition event_ok :: "rejection_event \<Rightarrow> bool" where
  "event_ok e \<longleftrightarrow> ev_timestamp e \<noteq> [] \<and> 0 < ev_limit e \<and> ev_sessionId e \<noteq> [] \<and> 0 \<le> ev_activeRuns e \<and>
     ev_agentName e \<noteq> Some [] \<and> (\<forall>p. ev_policy e = Some p \<longrightarrow> origin_ok p)"

definition record_ok :: "rejection_record \<Rightarrow> bool" where
  "record_ok r \<longleftrightarrow> rj_id r \<noteq> [] \<and> rj_createdAt r \<noteq> [] \<and> rj_sessionId r \<noteq> [] \<and> 0 \<le> rj_activeRuns r \<and>
     0 < rj_maxConcurrentRuns r \<and> (\<forall>p. rj_policy r = Some p \<longrightarrow> origin_ok p) \<and> event_ok (rj_event r) \<and>
     (ev_policy (rj_event r) = None \<longrightarrow> rj_policy r = None)"

lemma read_reason_str [simp]: "read_reason (JStr (reason_str r)) = Some r"
  by (cases r) (simp_all add: read_reason_def)

lemma map_js_str:
  "js_str (case x of None \<Rightarrow> JUndefined | Some s \<Rightarrow> JStr s) = x"
  by (cases x) auto

lemma resource_ref_json_get:
  "js_get (resource_ref_json r) ''kind'' = JStr (ref_kind r)"
  "js_get (resource_ref_json r) ''name'' = JStr (ref_name r)"
  "js_get (resource_ref_json r) ''namespace'' = (case ref_namespace r of None \<Rightarrow> JUndefined | Some s \<Rightarrow> JStr s)"
  "js_get (resource_ref_json r) ''apiVersion'' = (case ref_apiVersion r of None \<Rightarrow> JUndefined | Some s \<Rightarrow> JStr s)"
  "is_record (resource_ref_json r)"
  by (auto simp: resource_ref_json_def opt_field_def split: option.splits)

lemma policy_origin_json_get:
  "js_get (policy_origin_json p) ''schemaVersion'' = JInt 1"
  "js_get (policy_origin_json p) ''engine'' = JStr (po_engine p)"
  "js_get (policy_origin_json p) ''ruleType'' = JStr (po_ruleType p)"
  "js_get (policy_origin_json p) ''policyName'' = (case po_policyName p of None \<Rightarrow> JUndefined | Some s \<Rightarrow> JStr s)"
  "js_get (policy_origin_json p) ''ruleName'' = (case po_ruleName p of None \<Rightarrow> JUndefined | Some s \<Rightarrow> JStr s)"
  "js_get (policy_origin_json p) ''failureAction'' = (case po_failureAction p of None \<Rightarrow> JUndefined | Some s \<Rightarrow> JStr s)"
  "js_get (policy_origin_json p) ''resourceRef'' = (case po_resourceRef p of None \<Rightarrow> JUndefined | Some s \<Rightarrow> resource_ref_json s)"
  "js_get (policy_origin_json p) ''message'' = (case po_message p of None \<Rightarrow> JUndefined | Some s \<Rightarrow> JStr s)"
  "is_record (policy_origin_json p)"
  by (auto simp: policy_origin_json_def opt_field_def split: option.splits)

lemma rejection_event_json_get:
  "js_get (rejection_event_json e) ''schemaVersion'' = JInt 1"
  "js_get (rejection_event_json e) ''timestamp'' = JStr (ev_timestamp e)"
  "js_get (rejection_event_json e) ''policyType'' = JStr ''CONCURRENCY''"
  "js_get (rejection_event_json e) ''limit'' = JInt (ev_limit e)"
  "js_get (js_get (rejection_event_json e) ''rejectedRunDetails'') ''sessionId'' = JStr (ev_sessionId e)"
  "js_get (js_get (rejection_event_json e) ''rejectedRunDetails'') ''agentName'' =
     (case ev_agentName e of None \<Rightarrow> JUndefined | Some s \<Rightarrow> JStr s)"
  "is_record (js_get (rejection_event_json e) ''rejectedRunDetails'')"
  "js_get (rejection_event_json e) ''reason'' = JStr (reason_str (ev_reason e))"
  "js_get (rejection_event_json e) ''activeRuns'' = JInt (ev_activeRuns e)"
  "js_get (rejection_event_json e) ''policy'' = (case ev_policy e of None \<Rightarrow> JUndefined | Some s \<Rightarrow> policy_origin_json s)"
  "is_record (rejection_event_json e)"
  by (auto simp: rejection_event_json_def opt_field_def split: option.splits)

lemma rejection_json_get:
  "js_get (rejection_json r) ''id'' = JStr (rj_id r)"
  "js_get (rejection_json r) ''createdAt'' = JStr (rj_createdAt r)"
  "js_get (rejection_json r) ''sessionId'' = JStr (rj_sessionId r)"
  "js_get (rejection_json r) ''activeRuns'' = JInt (rj_activeRuns r)"
  "js_get (rejection_json r) ''maxConcurrentRuns'' = JInt (rj_maxConcurrentRuns r)"
  "js_get (rejection_json r) ''reason'' = JStr (reason_str (rj_reason r))"
  "js_get (rejection_json r) ''policy'' = (case rj_policy r of None \<Rightarrow> JUndefined | Some s \<Rightarrow> policy_origin_json s)"
  "js_get (rejection_json r) ''event'' = rejection_event_json (rj_event r)"
  by (auto simp: rejection_json_def opt_field_def split: option.splits)

lemma read_one_of_opt:
  "(\<forall>a. x = Some a \<longrightarrow> a \<in> set as) \<Longrightarrow> read_one_of as (case x of None \<Rightarrow> JUndefined | Some s \<Rightarrow> JStr s) = x"
  by (cases x) (auto simp: read_one_of_def)

lemma read_nonempty_opt:
  "x \<noteq> Some [] \<Longrightarrow> read_nonempty (case x of None \<Rightarrow> JUndefined | Some s \<Rightarrow> JStr s) = x"
  by (cases x) (auto simp: read_nonempty_def)

lemma read_nonempty_str: "s \<noteq> [] \<Longrightarrow> read_nonempty (JStr s) = Some s"
  by (simp add: read_nonempty_def)

lemma resource_ref_roundtrip:
  "ref_kind r \<noteq> [] \<Longrightarrow> ref_name r \<noteq> [] \<Longrightarrow> normalizePolicyResourceRef (resource_ref_json r) = Some r"
  by (simp add: normalizePolicyResourceRef_def resource_ref_json_get read_nonempty_str map_js_str)

lemma origin_roundtrip:
  assumes "origin_ok p"
  shows "normalizePolicyOriginDetails (policy_origin_json p) = Some p"
proof -
  have e: "read_one_of [''athena'', ''kyverno''] (JStr (po_engine p)) = Some (po_engine p)"
    "read_one_of [''concurrency'', ''validate'', ''mutate'', ''generate''] (JStr (po_ruleType p)) = Some (po_ruleType p)"
    using assms by (auto simp: origin_ok_def read_one_of_def)
  have f: "read_one_of [''audit'', ''enforce''] (case po_failureAction p of None \<Rightarrow> JUndefined | Some s \<Rightarrow> JStr s) =
      po_failureAction p"
    using assms by (intro read_one_of_opt) (auto simp: origin_ok_def)
  have r: "(if is_record (case po_resourceRef p of None \<Rightarrow> JUndefined | Some s \<Rightarrow> resource_ref_json s)
      then normalizePolicyResourceRef (case po_resourceRef p of None \<Rightarrow> JUndefined | Some s \<Rightarrow> resource_ref_json s)
      else None) = po_resourceRef p"
    using assms
    by (cases "po_resourceRef p") (simp_all add: origin_ok_def resource_ref_roundtrip resource_ref_json_get)
  show ?thesis
    unfolding normalizePolicyOriginDetails_def policy_origin_json_get(1-8) e f r map_js_str
    by (simp add: policy_origin_json_get(9))
qed

lemma origin_opt_roundtrip:
  "\<forall>p. x = Some p \<longrightarrow> origin_ok p \<Longrightarrow>
   normalizePolicyOriginDetails (case x of None \<Rightarrow> JUndefined | Some s \<Rightarrow> policy_origin_json s) = x"
  by (cases x) (simp add: normalizePolicyOriginDetails_def, simp add: origin_roundtrip)

lemma event_roundtrip:
  assumes "event_ok e" "ev_policy e = None \<Longrightarrow> ev_policy fallback = None"
  shows "normalizeRunRejectionEvent (rejection_event_json e) fallback = e"
proof -
  have p: "normalizePolicyOriginDetails (case ev_policy e of None \<Rightarrow> JUndefined | Some s \<Rightarrow> policy_origin_json s) = ev_policy e"
    using assms(1) by (intro origin_opt_roundtrip) (simp add: event_ok_def)
  have "(case ev_policy e of Some p \<Rightarrow> Some p | None \<Rightarrow> ev_policy fallback) = ev_policy e"
    using assms(2) by (cases "ev_policy e") auto
  then show ?thesis
    using assms(1)
    by (simp add: normalizeRunRejectionEvent_def rejection_event_json_get p read_nonempty_str read_nonempty_opt
        event_ok_def Let_def del: js_int.simps)
qed

lemma record_roundtrip:
  assumes "record_ok r"
  shows "read_rejection (rejection_json r) = Some r"
proof -
  have p: "normalizePolicyOriginDetails (case rj_policy r of None \<Rightarrow> JUndefined | Some s \<Rightarrow> policy_origin_json s) = rj_policy r"
    using assms by (intro origin_opt_roundtrip) (simp add: record_ok_def)
  have "normalizeRunRejectionEvent (rejection_event_json (rj_event r)) fallback = rj_event r"
    if "ev_policy fallback = rj_policy r" for fallback
    using assms that by (intro event_roundtrip) (auto simp: record_ok_def)
  then show ?thesis
    using assms
    by (simp add: read_rejection_def rejection_json_get p read_nonempty_str record_ok_def Let_def
        createFallbackRunRejectionEvent_def del: js_int.simps)
qed

lemma read_rejections_append:
  "readConcurrencyRejections (xs @ ys) = readConcurrencyRejections xs @ readConcurrencyRejections ys"
  by (induction xs rule: readConcurrencyRejections.induct) (auto split: option.splits)

lemma read_rejections_written:
  "\<forall>r \<in> set rs. record_ok r \<Longrightarrow> readConcurrencyRejections (map (\<lambda>r. Json (rejection_json r)) rs) = rs"
  by (induction rs) (simp_all add: record_roundtrip)

text \<open>Whatever the log holds, the rows that are read from it are well formed.\<close>

lemma read_nonempty_Some: "read_nonempty v = Some s \<Longrightarrow> s \<noteq> []"
  by (auto simp: read_nonempty_def split: js.splits if_splits)

lemma read_nonempty_not_empty: "read_nonempty v \<noteq> Some []"
  using read_nonempty_Some by blast

lemma normalize_origin_ok: "normalizePolicyOriginDetails v = Some p \<Longrightarrow> origin_ok p"
proof -
  have m: "read_one_of as w = Some a \<Longrightarrow> a \<in> set as" for as w a
    by (auto simp: read_one_of_def split: js.splits if_splits)
  have r: "normalizePolicyResourceRef w = Some r \<Longrightarrow> ref_kind r \<noteq> [] \<and> ref_name r \<noteq> []" for w r
    by (auto simp: normalizePolicyResourceRef_def dest: read_nonempty_Some split: option.splits)
  assume "normalizePolicyOriginDetails v = Some p"
  then show ?thesis
    unfolding normalizePolicyOriginDetails_def origin_ok_def
    by (auto dest!: m r split: option.splits if_splits)
qed

lemma normalize_event_cases:
  obtains (fallback) "normalizeRunRejectionEvent v fb = fb"
    | (read) ts l s r a d where "ts \<noteq> []" "s \<noteq> []" "0 < l" "0 \<le> a"
      "normalizeRunRejectionEvent v fb = \<lparr>ev_timestamp = ts, ev_limit = l, ev_sessionId = s,
         ev_agentName = read_nonempty d, ev_reason = r, ev_activeRuns = a,
         ev_policy = (case normalizePolicyOriginDetails (js_get v ''policy'') of
           Some p \<Rightarrow> Some p | None \<Rightarrow> ev_policy fb)\<rparr>"
proof -
  obtain d where d: "d = (if is_record (js_get v ''rejectedRunDetails'') then js_get v ''rejectedRunDetails'' else JUndefined)"
    by simp
  show thesis
  proof (cases "read_nonempty (js_get v ''timestamp'')"; cases "js_int (js_get v ''limit'')";
      cases "read_nonempty (js_get d ''sessionId'')"; cases "read_reason (js_get v ''reason'')";
      cases "js_int (js_get v ''activeRuns'')")
    fix ts l s r a
    assume o: "read_nonempty (js_get v ''timestamp'') = Some ts" "js_int (js_get v ''limit'') = Some l"
      "read_nonempty (js_get d ''sessionId'') = Some s" "read_reason (js_get v ''reason'') = Some r"
      "js_int (js_get v ''activeRuns'') = Some a"
    show thesis
    proof (cases "is_record v \<and> js_get v ''schemaVersion'' = JInt 1 \<and> js_get v ''policyType'' = JStr ''CONCURRENCY'' \<and>
        l > 0 \<and> a \<ge> 0")
      case True
      then show ?thesis
        using o read_nonempty_Some by (intro read [of ts s l a _ r]) (auto simp: normalizeRunRejectionEvent_def Let_def d [symmetric])
    qed (use o fallback in \<open>auto simp: normalizeRunRejectionEvent_def Let_def d [symmetric]\<close>)
  qed (use fallback in \<open>simp_all add: normalizeRunRejectionEvent_def Let_def d [symmetric]\<close>)
qed

lemma normalize_event_ok:
  assumes "event_ok fb"
  shows "event_ok (normalizeRunRejectionEvent v fb) \<and>
    (ev_policy (normalizeRunRejectionEvent v fb) = None \<longrightarrow> ev_policy fb = None)"
proof (cases rule: normalize_event_cases [of v fb])
  case (read ts l s r a d)
  show ?thesis unfolding read(5) using read(1-4) assms read_nonempty_not_empty normalize_origin_ok
    by (auto simp: event_ok_def split: option.splits)
qed (use assms in simp)

lemma read_rejection_ok:
  assumes "read_rejection v = Some r"
  shows "record_ok r"
proof -
  obtain i c s a m reason where f: "read_nonempty (js_get v ''id'') = Some i" "read_nonempty (js_get v ''createdAt'') = Some c"
    "read_nonempty (js_get v ''sessionId'') = Some s" "0 \<le> a" "0 < m"
    and r: "r = \<lparr>rj_id = i, rj_createdAt = c, rj_sessionId = s, rj_activeRuns = a, rj_maxConcurrentRuns = m,
      rj_reason = reason, rj_policy = normalizePolicyOriginDetails (js_get v ''policy''),
      rj_event = normalizeRunRejectionEvent (js_get v ''event'')
        (createFallbackRunRejectionEvent c s a m reason (normalizePolicyOriginDetails (js_get v ''policy'')))\<rparr>"
    using assms unfolding read_rejection_def Let_def by (auto split: option.splits if_splits)
  have "event_ok (createFallbackRunRejectionEvent c s a m reason (normalizePolicyOriginDetails (js_get v ''policy'')))"
    using f by (auto simp: event_ok_def createFallbackRunRejectionEvent_def dest: read_nonempty_Some normalize_origin_ok)
  from normalize_event_ok [OF this, of "js_get v ''event''"] f show ?thesis
    unfolding r record_ok_def
    by (auto simp: createFallbackRunRejectionEvent_def dest: read_nonempty_Some normalize_origin_ok)
qed

lemma read_rejections_ok: "\<forall>r \<in> set (readConcurrencyRejections ls). record_ok r"
  by (induction ls rule: readConcurrencyRejections.induct) (auto dest: read_rejection_ok split: option.splits)

lemma take_last_all: "length xs \<le> n \<Longrightarrow> take_last n xs = xs"
  by (simp add: take_last_def)

lemma prune_rows:
  "readConcurrencyRejections (sv_log (pruneConcurrencyRejectionsLocked sv)) =
     take_last (sv_retention sv) (readConcurrencyRejections (sv_log sv))"
proof (cases "length (readConcurrencyRejections (sv_log sv)) \<le> sv_retention sv")
  case False
  let ?t = "take_last (sv_retention sv) (readConcurrencyRejections (sv_log sv))"
  have "\<forall>r \<in> set ?t. record_ok r" using read_rejections_ok subsetD [OF set_take_last] by metis
  from read_rejections_written [OF this] False show ?thesis
    by (simp add: pruneConcurrencyRejectionsLocked_def Let_def)
qed (simp add: pruneConcurrencyRejectionsLocked_def Let_def take_last_all)

section \<open>Properties\<close>

definition rejection_args_ok :: "string \<Rightarrow> string \<Rightarrow> int \<Rightarrow> int \<Rightarrow> policy_origin option \<Rightarrow> bool" where
  "rejection_args_ok uuid createdAt activeRuns maxConcurrentRuns policy \<longleftrightarrow>
     uuid \<noteq> [] \<and> createdAt \<noteq> [] \<and> 0 \<le> activeRuns \<and> 0 < maxConcurrentRuns \<and> (case policy of None \<Rightarrow> True | Some p \<Rightarrow> origin_ok p)"

lemma new_rejection_ok:
  assumes "rejection_args_ok u c a m p" "s \<noteq> []"
  shows "record_ok (new_rejection u c s a m r p)"
  using assms
  by (cases p) (auto simp: record_ok_def event_ok_def new_rejection_def rejection_args_ok_def Let_def)

text \<open>
  A rejection that is recorded is there: after \<open>recordConcurrencyRejection\<close> succeeds, the rows that can be
  read from the log are the last ones, as many as the retention limit keeps, of the rows before with the new
  one at the end; none of the rows kept is changed by the rewriting of the file, whatever malformed lines
  the log had.
\<close>

theorem rejection_recorded:
  assumes "recordConcurrencyRejection u c s a m reason policy sv = (sv', Inr r)"
    and "rejection_args_ok u c a m policy"
  shows "readConcurrencyRejections (sv_log sv') =
    take_last (sv_retention sv) (readConcurrencyRejections (sv_log sv) @ [r])"
proof -
  have s: "s \<noteq> []" and r: "r = new_rejection u c s a m reason policy"
    and sv': "sv_log sv' = sv_log (pruneConcurrencyRejectionsLocked (sv\<lparr>sv_log := sv_log sv @ [Json (rejection_json r)]\<rparr>))"
    using assms(1)
    by (auto simp: recordConcurrencyRejection_def assertValidSessionId_def syncRejectionStoreFromDiskLocked_def Let_def
        split: if_splits)
  have "read_rejection (rejection_json r) = Some r"
    unfolding r by (rule record_roundtrip [OF new_rejection_ok [OF assms(2) s]])
  then show ?thesis by (simp add: sv' prune_rows read_rejections_append)
qed

definition demo_rejection :: "rejection_service \<times> rejection_record result" where
  "demo_rejection = recordConcurrencyRejection ''u1'' ''t1'' ''s1'' 2 2 None None
     (new_rejection_service None \<lparr>sv_log := [NotJson, Json (JObj [])]\<rparr>)"

lemma demo_rejection_result:
  "\<exists>sv'. demo_rejection = (sv', Inr (new_rejection ''u1'' ''t1'' ''s1'' 2 2 None None))"
  by (simp add: demo_rejection_def recordConcurrencyRejection_def assertValidSessionId_def is_digit_def Let_def)

theorem rejection_recorded_witness:
  "\<exists>sv'. demo_rejection = (sv', Inr (new_rejection ''u1'' ''t1'' ''s1'' 2 2 None None)) \<and>
     readConcurrencyRejections (sv_log sv') = [new_rejection ''u1'' ''t1'' ''s1'' 2 2 None None]"
proof -
  obtain sv' where r: "demo_rejection = (sv', Inr (new_rejection ''u1'' ''t1'' ''s1'' 2 2 None None))"
    using demo_rejection_result by auto
  have "rejection_args_ok ''u1'' ''t1'' 2 2 None" by (simp add: rejection_args_ok_def)
  from rejection_recorded [OF r [unfolded demo_rejection_def] this]
  have "readConcurrencyRejections (sv_log sv') = [new_rejection ''u1'' ''t1'' ''s1'' 2 2 None None]"
    by (simp add: new_rejection_service_def clampLimit_def take_last_def Let_def read_rejection_def read_nonempty_def)
  with r show ?thesis by blast
qed

text \<open>
  Listing is complete and bounded: following the cursors of \<open>listConcurrencyRejections\<close> from the first page
  returns, in order and each once, exactly the rows of the log (the last ones that the store keeps) that match
  the query, whatever limit the query asks for; and every page has at most \<open>maxLimit\<close> rows.
\<close>

theorem rejections_pages_complete:
  assumes "codec b64 unb64" "1 \<le> rs_maxLimit (sv_store sv)"
    and "length (readConcurrencyRejections (sv_log sv)) < fuel"
  shows "all_pages fuel (\<lambda>c. snd (listConcurrencyRejections b64 unb64 dateParse sv (q\<lparr>rq_cursor := c\<rparr>))) None =
      filter (matchesQuery dateParse q) (take_last (rs_maxRecords (sv_store sv)) (readConcurrencyRejections (sv_log sv))) \<and>
    length (fst (snd (listConcurrencyRejections b64 unb64 dateParse sv q))) \<le> rs_maxLimit (sv_store sv)"
proof -
  let ?n = "nat (clampLimit (case rq_limit q of None \<Rightarrow> of_nat (rs_defaultLimit (sv_store sv)) | Some l \<Rightarrow> l) 1
    (int (rs_maxLimit (sv_store sv))))"
  let ?rows = "filter (matchesQuery dateParse q)
    (take_last (rs_maxRecords (sv_store sv)) (readConcurrencyRejections (sv_log sv)))"
  have n: "0 < ?n" "?n \<le> rs_maxLimit (sv_store sv)" using assms(2) clampLimit_bounds by (auto simp: clampLimit_def)
  have m: "matchesQuery dateParse (q\<lparr>rq_cursor := c\<rparr>) = matchesQuery dateParse q" for c
    by (intro ext) (simp add: matchesQuery_def cong: if_cong option.case_cong)
  have l: "snd (listConcurrencyRejections b64 unb64 dateParse sv (q\<lparr>rq_cursor := c\<rparr>)) = page_of b64 unb64 ?rows ?n c" for c
    by (simp add: listConcurrencyRejections_def syncRejectionStoreFromDiskLocked_def rejections_replace_def
        rejections_list_def Let_def m cong: option.case_cong)
  have "length ?rows < fuel"
    by (rule le_less_trans [OF _ assms(3)], rule order_trans [OF length_filter_le]) simp
  then have "all_pages fuel (page_of b64 unb64 ?rows ?n) None = ?rows"
    by (rule all_pages_complete [OF assms(1) n(1)])
  moreover have "length (fst (page_of b64 unb64 ?rows ?n (rq_cursor q))) \<le> rs_maxLimit (sv_store sv)"
    by (rule order_trans [OF page_bounds n(2)])
  moreover have "snd (listConcurrencyRejections b64 unb64 dateParse sv q) = page_of b64 unb64 ?rows ?n (rq_cursor q)"
    using l [of "rq_cursor q"] by simp
  ultimately show ?thesis unfolding l by (simp only: simp_thms)
qed

definition demo_query :: rejection_query where
  "demo_query = \<lparr>rq_sessionId = ''s1'', rq_createdAfter = [], rq_createdBefore = [], rq_limit = Some 0, rq_cursor = None\<rparr>"

definition demo_log :: rejection_service where
  "demo_log = (new_rejection_service None)\<lparr>sv_log := map (\<lambda>r. Json (rejection_json r))
     [new_rejection ''u1'' ''t1'' ''s1'' 2 2 None None, new_rejection ''u2'' ''t2'' ''s2'' 2 2 None None,
      new_rejection ''u3'' ''t3'' ''s1'' 2 2 None None]\<rparr>"

lemma demo_log_rows:
  "readConcurrencyRejections (sv_log demo_log) =
     [new_rejection ''u1'' ''t1'' ''s1'' 2 2 None None, new_rejection ''u2'' ''t2'' ''s2'' 2 2 None None,
      new_rejection ''u3'' ''t3'' ''s1'' 2 2 None None]"
proof -
  have "record_ok (new_rejection (u # us) (c # cs) (s # ss) 2 2 None None)" for u us c cs s ss
    by (rule new_rejection_ok) (simp_all add: rejection_args_ok_def)
  then show ?thesis
    using read_rejections_written [of "[new_rejection ''u1'' ''t1'' ''s1'' 2 2 None None,
      new_rejection ''u2'' ''t2'' ''s2'' 2 2 None None, new_rejection ''u3'' ''t3'' ''s1'' 2 2 None None]"]
    by (simp add: demo_log_def)
qed

theorem rejections_pages_complete_witness:
  "all_pages 4 (\<lambda>c. snd (listConcurrencyRejections (\<lambda>s. s) (\<lambda>s. s) demo_date demo_log (demo_query\<lparr>rq_cursor := c\<rparr>))) None =
     [new_rejection ''u1'' ''t1'' ''s1'' 2 2 None None, new_rejection ''u3'' ''t3'' ''s1'' 2 2 None None]"
proof -
  have st: "rs_maxLimit (sv_store demo_log) = 500" "rs_maxRecords (sv_store demo_log) = 500"
    by (simp_all add: demo_log_def new_rejection_service_def new_rejection_store_def clampLimit_def Let_def)
  then have "1 \<le> rs_maxLimit (sv_store demo_log)" "length (readConcurrencyRejections (sv_log demo_log)) < 4"
    by (simp_all add: demo_log_rows)
  from rejections_pages_complete [OF codec_id this, of demo_date demo_query]
  show ?thesis
    by (simp add: demo_log_rows st take_last_def matchesQuery_def demo_query_def new_rejection_def Let_def)
qed

end
