(* ===== verification/ConcurrencyLimit.thy ===== *)
theory ConcurrencyLimit
  imports LeaseLock RejectionLog
begin

text \<open>
  The limit on concurrent runs: \<open>PolicyConcurrencyLeaseManager\<close> of \<open>control-plane/services/policy.ts\<close>, which
  reserves one of \<open>maxConcurrentRuns\<close> slots by taking its distributed lock, and the part of
  \<open>PolicyAwareExecutionBackend\<close> that turns a failed reservation into a recorded rejection. The manager is a
  client of the interface \<open>lease_lock\<close>: its lemmas are proved once from the laws of the locks.

  The clock is read by each attempt: \<open>clock i\<close> and \<open>toks i\<close> are the time and the token of the attempt on slot
  \<open>i\<close>.
\<close>

section \<open>Definitions\<close>

definition POLICY_CONCURRENCY_LOCK_LEASE_MS :: int where
  "POLICY_CONCURRENCY_LOCK_LEASE_MS = 10 * 60 * 1000"

definition slotLockName :: "nat \<Rightarrow> string" where
  "slotLockName slot = ''policy.concurrency.slot.'' @ nat_str (slot + 1)"

text \<open>
  A thrown value with the two marks that \<open>markLockAcquisitionFailure\<close> writes on the error object.
\<close>

record thrown =
  th_error :: error
  th_lockAcquisitionFailure :: bool
  th_observedActiveRuns :: "nat option"

definition unmarked :: "error \<Rightarrow> thrown" where
  "unmarked e = \<lparr>th_error = e, th_lockAcquisitionFailure = False, th_observedActiveRuns = None\<rparr>"

definition markLockAcquisitionFailure :: "error \<Rightarrow> nat \<Rightarrow> thrown" where
  "markLockAcquisitionFailure e denied =
     \<lparr>th_error = e, th_lockAcquisitionFailure = True, th_observedActiveRuns = Some denied\<rparr>"

record reservation =
  rv_activeRuns :: nat
  rv_lease :: release_request

definition slot_request :: "string \<Rightarrow> nat \<Rightarrow> acquire_request" where
  "slot_request owner slot = \<lparr>aq_lockName = slotLockName slot, aq_ownerId = owner,
     aq_leaseMs = Fin (of_int POLICY_CONCURRENCY_LOCK_LEASE_MS)\<rparr>"

definition limit_message :: "nat \<Rightarrow> int \<Rightarrow> string" where
  "limit_message denied maxConcurrentRuns =
     ''policy.maxConcurrentRuns exceeded: '' @ nat_str denied @ '' active run(s) >= configured limit '' @
     nat_str (nat maxConcurrentRuns) @ ''.''"

definition limit_error :: "nat \<Rightarrow> int \<Rightarrow> error" where
  "limit_error denied maxConcurrentRuns =
     AthenaError POLICY_CONCURRENCY_LIMIT_EXCEEDED (limit_message denied maxConcurrentRuns) False"

fun reserve_slots :: "('s \<Rightarrow> time \<Rightarrow> string \<Rightarrow> acquire_request \<Rightarrow> ('s \<times> acquire_result) result) \<Rightarrow>
    string \<Rightarrow> (nat \<Rightarrow> time) \<Rightarrow> (nat \<Rightarrow> string) \<Rightarrow> int \<Rightarrow> nat list \<Rightarrow> nat \<Rightarrow> 's \<Rightarrow> 's \<times> (thrown + reservation)" where
  "reserve_slots acq owner clock toks mx [] denied s = (s, Inl (unmarked (limit_error denied mx)))"
| "reserve_slots acq owner clock toks mx (slot # slots) denied s =
     (case acq s (clock slot) (toks slot) (slot_request owner slot) of
        Inl e \<Rightarrow> (s, Inl (markLockAcquisitionFailure e denied))
      | Inr (s', Acquired g) \<Rightarrow>
          (s', Inr \<lparr>rv_activeRuns = denied,
             rv_lease = \<lparr>rl_lockName = slotLockName slot, rl_ownerId = owner, rl_token = gr_token g\<rparr>\<rparr>)
      | Inr (s', NotAcquired) \<Rightarrow> reserve_slots acq owner clock toks mx slots (denied + 1) s')"

definition reserve :: "('s \<Rightarrow> time \<Rightarrow> string \<Rightarrow> acquire_request \<Rightarrow> ('s \<times> acquire_result) result) \<Rightarrow>
    string \<Rightarrow> (nat \<Rightarrow> time) \<Rightarrow> (nat \<Rightarrow> string) \<Rightarrow> string \<Rightarrow> int \<Rightarrow> 's \<Rightarrow> 's \<times> (thrown + reservation)" where
  "reserve acq owner clock toks sessionId maxConcurrentRuns s =
     (case assertValidSessionId sessionId of
        Inl e \<Rightarrow> (s, Inl (unmarked e))
      | Inr _ \<Rightarrow> reserve_slots acq owner clock toks maxConcurrentRuns [0..<nat maxConcurrentRuns] 0 s)"

text \<open>What is recorded of a failed reservation.\<close>

definition resolveRejectionReason :: "thrown \<Rightarrow> rejection_reason option" where
  "resolveRejectionReason t =
     (case th_error t of
        AthenaError POLICY_CONCURRENCY_LIMIT_EXCEEDED _ _ \<Rightarrow> Some MaxConcurrentRunsExceeded
      | _ \<Rightarrow> if th_lockAcquisitionFailure t then Some LockAcquisitionFailed else None)"

text \<open>The search of \<open>/policy\.maxConcurrentRuns exceeded: (\d+) active run\(s\)/\<close>.\<close>

definition match_active_runs :: "string \<Rightarrow> string option" where
  "match_active_runs s =
     (let p = ''policy.maxConcurrentRuns exceeded: '';
          ds = takeWhile is_digit (drop (length p) s) in
      if starts_with p s \<and> ds \<noteq> [] \<and> starts_with '' active run(s)'' (dropWhile is_digit (drop (length p) s))
      then Some ds else None)"

fun search_active_runs :: "string \<Rightarrow> string option" where
  "search_active_runs [] = None"
| "search_active_runs (c # cs) =
     (case match_active_runs (c # cs) of Some ds \<Rightarrow> Some ds | None \<Rightarrow> search_active_runs cs)"

definition extractActiveRunsFromError :: "string \<Rightarrow> int option" where
  "extractActiveRunsFromError message =
     (case search_active_runs message of
        None \<Rightarrow> None
      | Some ds \<Rightarrow> (case parse_int ds of None \<Rightarrow> None | Some n \<Rightarrow> if n < 0 then None else Some n))"

definition resolveActiveRunsForRejection :: "thrown \<Rightarrow> rejection_reason \<Rightarrow> int \<Rightarrow> int" where
  "resolveActiveRunsForRejection t reason maxConcurrentRuns =
     (case (reason, th_error t) of
        (MaxConcurrentRunsExceeded, AthenaError _ message _) \<Rightarrow>
          (case extractActiveRunsFromError message of Some n \<Rightarrow> n | None \<Rightarrow> maxConcurrentRuns)
      | _ \<Rightarrow> (case th_observedActiveRuns t of Some n \<Rightarrow> int n | None \<Rightarrow> 0))"

section \<open>The client of a lock provider\<close>

lemma slot_request_valid [simp]:
  "valid_lease (aq_leaseMs (slot_request owner slot))"
  "aq_lockName (slot_request owner slot) = slotLockName slot"
  "aq_ownerId (slot_request owner slot) = owner"
  "lease_ms (aq_leaseMs (slot_request owner slot)) = POLICY_CONCURRENCY_LOCK_LEASE_MS"
  by (simp_all add: slot_request_def POLICY_CONCURRENCY_LOCK_LEASE_MS_def)

context lease_lock begin

text \<open>The reservation takes the first slot of the list that is free when it is tried.\<close>

lemma reserve_slots_first_free:
  assumes "inv s" "sorted slots" "mono clock" "slots = before @ slot # after"
    and "\<forall>i \<in> set before. holder s (clock i) (slotLockName i) \<noteq> None"
    and "holder s (clock slot) (slotLockName slot) = None"
  shows "\<exists>s'. inv s' \<and> reserve_slots try_acquire owner clock toks mx slots denied s =
      (s', Inr \<lparr>rv_activeRuns = denied + length before,
         rv_lease = \<lparr>rl_lockName = slotLockName slot, rl_ownerId = owner, rl_token = toks slot\<rparr>\<rparr>) \<and>
      (\<forall>t. clock slot \<le> t \<longrightarrow> t < clock slot + POLICY_CONCURRENCY_LOCK_LEASE_MS \<longrightarrow>
         (\<exists>e. holder s' t (slotLockName slot) = Some (ident owner (toks slot), e)))"
  using assms
proof (induction before arbitrary: s slots denied)
  case Nil
  let ?q = "slot_request owner slot"
  obtain s' e where s': "clock slot + lease_ms (aq_leaseMs ?q) \<le> e" "inv s'"
      "try_acquire s (clock slot) (toks slot) ?q = Inr (s', Acquired \<lparr>gr_lockName = aq_lockName ?q,
          gr_ownerId = aq_ownerId ?q, gr_token = toks slot, gr_acquiredAt = clock slot,
          gr_expiresAt = clock slot + lease_ms (aq_leaseMs ?q)\<rparr>)"
      "\<forall>t l. clock slot \<le> t \<longrightarrow> holder s' t l =
          (if l = aq_lockName ?q then lasts (Some (ident (aq_ownerId ?q) (toks slot), e)) t else holder s t l)"
    using free [of s ?q "clock slot" "toks slot"] Nil.prems by auto
  then show ?case using Nil.prems(4) by (intro exI [of _ s']) (auto simp: lasts_def)
next
  case (Cons i before)
  let ?q = "slot_request owner i"
  have after: "\<forall>j \<in> set (before @ slot # after). clock i \<le> clock j"
    using Cons.prems(2-4) by (auto simp: mono_def)
  obtain s' where s': "try_acquire s (clock i) (toks i) ?q = Inr (s', NotAcquired)" "inv s'"
      "\<forall>t l. clock i \<le> t \<longrightarrow> holder s' t l = holder s t l"
    using held [of s ?q "clock i" "toks i"] Cons.prems(1,5) by auto
  have "\<forall>j \<in> set before. holder s' (clock j) (slotLockName j) \<noteq> None"
    "holder s' (clock slot) (slotLockName slot) = None"
    using s'(3) after Cons.prems(5,6) by auto
  then show ?case
    using Cons.IH [OF s'(2) _ Cons.prems(3) refl, of "denied + 1"] Cons.prems(2,4) s'(1) by simp
qed

lemma reserve_slots_all_held:
  assumes "inv s" "sorted slots" "mono clock" "\<forall>i \<in> set slots. holder s (clock i) (slotLockName i) \<noteq> None"
  shows "\<exists>s'. inv s' \<and> reserve_slots try_acquire owner clock toks mx slots denied s =
      (s', Inl (unmarked (limit_error (denied + length slots) mx)))"
  using assms
proof (induction slots arbitrary: s denied)
  case (Cons i slots)
  let ?q = "slot_request owner i"
  obtain s' where s': "try_acquire s (clock i) (toks i) ?q = Inr (s', NotAcquired)" "inv s'"
      "\<forall>t l. clock i \<le> t \<longrightarrow> holder s' t l = holder s t l"
    using held [of s ?q "clock i" "toks i"] Cons.prems(1,4) by auto
  have "\<forall>j \<in> set slots. holder s' (clock j) (slotLockName j) \<noteq> None"
    using s'(3) Cons.prems(2-4) by (auto simp: mono_def)
  then show ?case using Cons.IH [OF s'(2) _ Cons.prems(3), of "denied + 1"] Cons.prems(2) s'(1) by simp
qed auto

text \<open>A reservation that is released, or refused, leaves the locks as they were.\<close>

lemma reserve_slots_leaves:
  assumes "inv s" "\<forall>i \<in> set slots. clock i \<le> now"
    and "reserve_slots try_acquire owner clock toks mx slots denied s = (s', res)" "now \<le> t"
  shows "inv s' \<and> (case res of Inl _ \<Rightarrow> holder s' t l = holder s t l
    | Inr rv \<Rightarrow> holder (release s' now (rv_lease rv)) t l \<in> {None, holder s t l})"
  using assms
proof (induction slots arbitrary: s denied)
  case (Cons i slots)
  show ?case
  proof (cases "try_acquire s (clock i) (toks i) (slot_request owner i)")
    case (Inr p)
    obtain s1 a where p: "try_acquire s (clock i) (toks i) (slot_request owner i) = Inr (s1, a)" using Inr by (cases p) auto
    show ?thesis using Cons.prems(1) p
    proof (cases rule: acquire_cases)
      case denied
      have "holder s1 t l = holder s t l" using denied(4) Cons.prems(2,4) by auto
      then show ?thesis
        using Cons.IH [OF denied(3), of "denied + 1"] Cons.prems(2-4) p denied(1) by (auto split: sum.splits)
    next
      case (granted e)
      let ?r = "\<lparr>rl_lockName = slotLockName i, rl_ownerId = owner, rl_token = toks i\<rparr>"
      have res: "s' = s1" "res = Inr \<lparr>rv_activeRuns = denied, rv_lease = ?r\<rparr>"
        using Cons.prems(3) p granted(5) by auto
      have h: "holder s1 t l = (if l = slotLockName i then lasts (Some (ident owner (toks i), e)) t else holder s t l)"
        using granted(6) [of t l] Cons.prems(2,4) by auto
      show ?thesis
        using released [OF granted(2) Cons.prems(4), of ?r l] granted(2) h
        by (auto simp: res lasts_def split: if_splits)
    qed
  qed (use Cons.prems in auto)
qed auto

lemma reserve_leaves:
  assumes "inv s" "\<forall>i < nat mx. clock i \<le> now"
    and "reserve try_acquire owner clock toks sessionId mx s = (s', res)" "now \<le> t"
  shows "case res of Inl _ \<Rightarrow> holder s' t l = holder s t l
    | Inr rv \<Rightarrow> holder (release s' now (rv_lease rv)) t l \<in> {None, holder s t l}"
  using assms reserve_slots_leaves [of s "[0..<nat mx]" clock now owner toks mx 0 s' res t l]
  by (auto simp: reserve_def split: sum.splits)

text \<open>A client never holds more than one unexpired lease of a lock, hence at most one per name.\<close>

lemma live_leases_bounded:
  assumes "inv s" "sorted (map op_time ops)" "finite names"
  shows "card {i. i < length ops \<and> (\<exists>g. run_locks try_acquire release s ops ! i = Some g \<and>
      gr_lockName g \<in> names \<and> gr_acquiredAt g \<le> T \<and> T < gr_expiresAt g \<and>
      (\<forall>k. i < k \<longrightarrow> k < length ops \<longrightarrow> \<not> frees ident g (ops ! k)))} \<le> card names" (is "card ?L \<le> _")
proof -
  let ?g = "\<lambda>i. the (run_locks try_acquire release s ops ! i)"
  have "i = j" if "i \<in> ?L" "j \<in> ?L" "gr_lockName (?g i) = gr_lockName (?g j)" for i j
  proof (rule ccontr)
    have no: "\<not> a < b" if ab: "a \<in> ?L" "b \<in> ?L" "gr_lockName (?g a) = gr_lockName (?g b)" for a b
    proof
      assume "a < b"
      from ab obtain g g' where g: "b < length ops" "run_locks try_acquire release s ops ! a = Some g"
        "run_locks try_acquire release s ops ! b = Some g'" "gr_lockName g = gr_lockName g'"
        "gr_acquiredAt g' < gr_expiresAt g" "\<forall>k. a < k \<longrightarrow> k < length ops \<longrightarrow> \<not> frees ident g (ops ! k)"
        by auto
      from exclusive [OF assms(1,2) \<open>a < b\<close> g(1-5)] g(1,6) show False by auto
    qed
    assume "i \<noteq> j"
    then show False using no [OF that] no [OF that(2,1) that(3) [symmetric]] by simp
  qed
  then have inj: "inj_on (\<lambda>i. gr_lockName (?g i)) ?L" by (intro inj_onI) blast
  have "(\<lambda>i. gr_lockName (?g i)) ` ?L \<subseteq> names" by auto
  then show ?thesis using card_inj_on_le [OF inj _ assms(3)] by blast
qed

end

section \<open>Properties\<close>

text \<open>
  A reservation takes the first free slot: on the file locks, with a clock that does not run backwards over
  the attempts, the slot reserved is the first whose lock is free when it is tried, \<open>activeRuns\<close> counts the
  slots before it, and the lease is the lock's, held for ten minutes unless it is released. When every slot is
  held the run is refused with \<open>POLICY_CONCURRENCY_LIMIT_EXCEEDED\<close>, the count of the slots and the limit.
\<close>

theorem reserve_first_free_slot:
  assumes "file_inv isoStr dateParse self w" "mono clock" "assertValidSessionId sessionId = Inr ()"
  shows "case find (\<lambda>i. file_holder dateParse w (clock i) (slotLockName i) = None) [0..<nat mx] of
      None \<Rightarrow> snd (reserve (file_tryAcquire isoStr dateParse self) owner clock toks sessionId mx w) =
        Inl (unmarked (limit_error (nat mx) mx))
    | Some k \<Rightarrow> \<exists>w'. reserve (file_tryAcquire isoStr dateParse self) owner clock toks sessionId mx w =
        (w', Inr \<lparr>rv_activeRuns = k, rv_lease = \<lparr>rl_lockName = slotLockName k, rl_ownerId = owner, rl_token = toks k\<rparr>\<rparr>) \<and>
        (\<forall>t. t \<in> {clock k ..< clock k + POLICY_CONCURRENCY_LOCK_LEASE_MS} \<longrightarrow>
           (\<exists>e. file_holder dateParse w' t (slotLockName k) = Some ((owner, toks k), e)))"
proof (cases "find (\<lambda>i. file_holder dateParse w (clock i) (slotLockName i) = None) [0..<nat mx]")
  case None
  then have "\<forall>i \<in> set [0..<nat mx]. file_holder dateParse w (clock i) (slotLockName i) \<noteq> None"
    by (simp add: find_eq_None)
  from filelock.reserve_slots_all_held [OF assms(1) _ assms(2) this, of owner toks mx 0]
  show ?thesis using None assms(3) by (auto simp: reserve_def)
next
  case (Some k)
  then have k: "k < nat mx" "file_holder dateParse w (clock k) (slotLockName k) = None"
    "\<forall>i \<in> set [0..<k]. file_holder dateParse w (clock i) (slotLockName i) \<noteq> None"
    by (auto simp: find_Some_iff)
  have "[0..<nat mx] = [0..<k] @ k # [Suc k..<nat mx]"
    using k(1) upt_add_eq_append [of 0 k "nat mx - k"] by (simp add: upt_conv_Cons)
  from filelock.reserve_slots_first_free [OF assms(1) sorted_upt assms(2) this k(3,2), of owner toks mx 0]
  show ?thesis using Some assms(3) by (auto simp: reserve_def)
qed

definition demo_slots :: file_world where
  "demo_slots = \<lparr>fw_files = [slotLockName 0 \<mapsto> Json (lock_json \<lparr>fr_schemaVersion = Fin 1,
     fr_lockName = slotLockName 0, fr_ownerId = ''c'', fr_token = ''t0'', fr_pid = Fin 7,
     fr_acquiredAt = demo_iso 0, fr_expiresAt = demo_iso 900\<rparr>)], fw_alive = {7}\<rparr>"

lemma nat_str_inject: "nat_str m = nat_str n \<longleftrightarrow> m = n"
  using nat_str_digits by metis

lemma slotLockName_inject [simp]: "slotLockName i = slotLockName j \<longleftrightarrow> i = j"
  by (simp add: slotLockName_def nat_str_inject)

theorem reserve_first_free_slot_witness:
  "\<exists>w'. reserve (file_tryAcquire demo_iso demo_date 7) ''o'' (\<lambda>i. 5 + int i) (\<lambda>i. ''t'') ''s1'' 2 demo_slots =
     (w', Inr \<lparr>rv_activeRuns = 1, rv_lease = \<lparr>rl_lockName = slotLockName 1, rl_ownerId = ''o'', rl_token = ''t''\<rparr>\<rparr>)"
proof -
  have "file_inv demo_iso demo_date 7 demo_slots" by (simp add: file_inv_def demo_slots_def demo_iso_inverse)
  moreover have "mono (\<lambda>i. 5 + int i)" by (simp add: mono_def)
  moreover have "assertValidSessionId ''s1'' = Inr ()" by (simp add: assertValidSessionId_def is_digit_def)
  ultimately have p: "case find (\<lambda>i. file_holder demo_date demo_slots (5 + int i) (slotLockName i) = None) [0..<nat 2] of
      None \<Rightarrow> snd (reserve (file_tryAcquire demo_iso demo_date 7) ''o'' (\<lambda>i. 5 + int i) (\<lambda>i. ''t'') ''s1'' 2 demo_slots) =
        Inl (unmarked (limit_error (nat 2) 2))
    | Some k \<Rightarrow> \<exists>w'. reserve (file_tryAcquire demo_iso demo_date 7) ''o'' (\<lambda>i. 5 + int i) (\<lambda>i. ''t'') ''s1'' 2 demo_slots =
        (w', Inr \<lparr>rv_activeRuns = k, rv_lease = \<lparr>rl_lockName = slotLockName k, rl_ownerId = ''o'', rl_token = ''t''\<rparr>\<rparr>) \<and>
        (\<forall>t. t \<in> {5 + int k ..< 5 + int k + POLICY_CONCURRENCY_LOCK_LEASE_MS} \<longrightarrow>
           (\<exists>e. file_holder demo_date w' t (slotLockName k) = Some ((''o'', ''t''), e)))"
    by (rule reserve_first_free_slot)
  have "find (\<lambda>i. file_holder demo_date demo_slots (5 + int i) (slotLockName i) = None) [0..<nat 2] = Some 1"
    by (simp add: upt_rec file_holder_def readLock_def demo_slots_def file_shouldReclaim_def demo_iso_inverse)
  with p show ?thesis by auto
qed


definition demo_slot_ops :: "lock_op list" where
  "demo_slot_ops = [Acquire 0 ''t1'' (slot_request ''a'' 0), Acquire 1 ''t2'' (slot_request ''b'' 0),
     Acquire 2 ''t3'' (slot_request ''b'' 1), Acquire 3 ''t4'' (slot_request ''c'' 0), Acquire 4 ''t5'' (slot_request ''c'' 1)]"


text \<open>
  The count survives the message: of the refusal that a full reservation throws, the reason and the number of
  active runs that are recorded, which the code reads back out of the text of the error, are the reason and
  the number it was thrown with; of a lock that failed, the number of slots found held before.
\<close>

theorem rejection_count_roundtrip:
  "resolveRejectionReason (unmarked (limit_error denied mx)) = Some MaxConcurrentRunsExceeded \<and>
   resolveActiveRunsForRejection (unmarked (limit_error denied mx)) MaxConcurrentRunsExceeded mx = int denied \<and>
   resolveActiveRunsForRejection (markLockAcquisitionFailure e denied) LockAcquisitionFailed mx = int denied"
proof -
  obtain c cs where n: "nat_str denied = c # cs" "\<forall>d \<in> set (c # cs). is_digit d"
    using nat_str_digits [of denied] by (cases "nat_str denied") auto
  have t: "takeWhile is_digit (nat_str denied @ CHR '' '' # r) = nat_str denied"
    "dropWhile is_digit (nat_str denied @ CHR '' '' # r) = CHR '' '' # r" for r
    using n by (simp_all add: takeWhile_append2 dropWhile_append2 is_digit_def)
  have "match_active_runs (limit_message denied mx) = Some (nat_str denied)"
    using t n(1) by (simp add: match_active_runs_def limit_message_def starts_with_def Let_def)
  then have "search_active_runs (limit_message denied mx) = Some (nat_str denied)"
    by (simp add: limit_message_def)
  then have "extractActiveRunsFromError (limit_message denied mx) = Some (int denied)"
    by (simp add: extractActiveRunsFromError_def parse_int_nat_str)
  then show ?thesis
    by (simp add: resolveRejectionReason_def resolveActiveRunsForRejection_def unmarked_def limit_error_def
        markLockAcquisitionFailure_def)
qed

text \<open>
  The limit does not hold among runs: a lease is never renewed, so a run that lasts ten minutes loses its slot
  while it runs, and with a limit of one a second run starts beside it.
\<close>

theorem concurrency_limit_lapses:
  "\<exists>s1 s2 r1 r2.
     reserve memory_tryAcquire ''a'' (\<lambda>_. 0) (\<lambda>_. ''t1'') ''run-a'' 1 Map.empty = (s1, Inr r1) \<and>
     reserve memory_tryAcquire ''b'' (\<lambda>_. POLICY_CONCURRENCY_LOCK_LEASE_MS) (\<lambda>_. ''t2'') ''run-b'' 1 s1 = (s2, Inr r2) \<and>
     rv_activeRuns r2 = 0 \<and> rl_lockName (rv_lease r1) = rl_lockName (rv_lease r2)"
  by (simp add: reserve_def assertValidSessionId_def is_digit_def memory_tryAcquire_def memory_shouldReclaim_def
      upt_rec Let_def)

end
