(* ===== verification/SandboxRun.thy ===== *)
theory SandboxRun
  imports Effects SandboxConfig EgressPolicy PolicyDocument ConcurrencyLimit
begin

text \<open>
  Running a request under the policy: \<open>PolicyAwareExecutionBackend\<close> of \<open>control-plane/services/policy.ts\<close>. It
  reserves a slot, checks the egress policy, claims a sandbox, waits for it, runs the request, and finally
  terminates and cleans the sandbox and releases the slot; or it falls back to a direct run, or refuses.

  The execution backend, the sandbox backend and the policy service are behind interfaces: what each call
  returns is a field of \<open>run_env\<close>. Every call is entered in the trace of the run, in the order in which the
  code makes them. An event is emitted best-effort (what \<open>emit\<close> throws is swallowed), so its outcome is not
  part of the model. The request is passed on unread except for its session id and metadata.
\<close>

section \<open>Data\<close>

record run_request =
  rr_sessionId :: string
  rr_metadata :: metadata

datatype abort_signal = CallerSignal | MergedSignal

record run_options =
  ro_signal :: "abort_signal option"
  ro_onAttachEvidence :: bool
  ro_timeoutMs :: "int option"

datatype terminate_reason = TrCancelled | TrTimeout | TrFailed | TrCleanup

fun terminate_str :: "terminate_reason \<Rightarrow> string" where
  "terminate_str TrCancelled = ''cancelled''"
| "terminate_str TrTimeout = ''timeout''"
| "terminate_str TrFailed = ''failed''"
| "terminate_str TrCleanup = ''cleanup''"

datatype sandbox_phase = PhClaiming | PhClaimed | PhReady | PhReadyTimeout | PhFallback | PhRequiredUnavailable
  | PhTerminating | PhCleaned | PhCleanupFailed

record lifecycle_event =
  le_runId :: string
  le_sessionId :: string
  le_phase :: sandbox_phase
  le_isolationProfile :: isolation_profile
  le_startMode :: start_mode
  le_runtimeClassName :: "string option"
  le_templateRef :: "string option"
  le_warmPoolRef :: "string option"
  le_sandboxId :: "string option"
  le_claimName :: "string option"
  le_namespace :: "string option"
  le_latencyMsStartup :: "int option"
  le_latencyMsClaimToReady :: "int option"
  le_reason :: "string option"

record egress_event =
  ee_runId :: string
  ee_sessionId :: string
  ee_decision :: string
  ee_policy :: "egress_rule list"
  ee_declared :: "egress_destination list"
  ee_agentName :: "string option"
  ee_reason :: "string option"
  ee_runtimeClassName :: "string option"
  ee_templateRef :: "string option"
  ee_warmPoolRef :: "string option"

record quota_event =
  qe_sandboxId :: string
  qe_quota :: quota_config
  qe_usage :: resource_usage
  qe_reason :: string
  qe_agentName :: "string option"

record claim_request =
  cr_runId :: string
  cr_sessionId :: string
  cr_templateRef :: string
  cr_warmPoolRef :: "string option"
  cr_runtimeClassName :: "string option"
  cr_workspace :: workspace_config
  cr_egressAllow :: "egress_rule list"
  cr_timeoutMs :: "int option"

record claim_result =
  cl_status :: string
  cl_sandboxId :: "string option"
  cl_claimName :: "string option"
  cl_namespace :: "string option"
  cl_runtimeClassName :: "string option"
  cl_claimedAt :: "string option"
  cl_reason :: "string option"

record ready_result =
  rd_status :: string
  rd_observedAt :: string
  rd_reason :: "string option"

record sandbox_claim =
  sb_sandboxId :: string
  sb_claimName :: "string option"
  sb_namespace :: "string option"

record workload_metadata =
  wl_labels :: "(string \<times> string) list"
  wl_annotations :: "(string \<times> string) list"

datatype effect =
    Lifecycle lifecycle_event
  | EgressDecision egress_event
  | QuotaExceeded quota_event
  | ClaimCall claim_request
  | WaitReadyCall string int
  | BackendRun run_options
  | TerminateCall string terminate_reason
  | CleanupCall string
  | RecordRejection string int int rejection_reason policy_origin
  | RejectionEvent string rejection_record workload_metadata "(string \<times> string) list"

record 'r run_env =
  env_policy :: "policy_document option result"
  env_uuid :: string
  env_available :: "bool result"
  env_claim :: "claim_request \<Rightarrow> claim_result result"
  env_waitReady :: "string \<Rightarrow> int \<Rightarrow> ready_result result"
  env_run :: "run_options \<Rightarrow> 'r result"
  env_usages :: "resource_usage option result list"
  env_terminate :: "terminate_reason \<Rightarrow> unit result"
  env_cleanup :: "unit result"
  env_record :: "string \<Rightarrow> int \<Rightarrow> int \<Rightarrow> rejection_reason \<Rightarrow> policy_origin \<Rightarrow> rejection_record result"
  env_now :: time
  env_dateParse :: "string \<Rightarrow> time option"
  env_urlParse :: "string \<Rightarrow> url option"
  env_owner :: string
  env_clock :: "nat \<Rightarrow> time"
  env_tokens :: "nat \<Rightarrow> string"
  env_releasedAt :: time

text \<open>
  The state of a run: the locks, the trace, and the variables of \<open>runWithSandboxLifecycle\<close> that its handlers
  read.
\<close>

record 's run_state =
  w_locks :: 's
  w_trace :: "effect list"
  w_claim :: "sandbox_claim option"
  w_providerRunAttempted :: bool
  w_claimedAtMs :: "time option"
  w_runtimeClassName :: "string option"
  w_forceFailClosed :: bool

definition call :: "effect \<Rightarrow> ('s run_state, unit) act" where
  "call x = doA (\<lambda>s. s\<lparr>w_trace := w_trace s @ [x]\<rparr>)"

lemma wp_call [wp_simps]: "wp (call x) Q E s = Q () (s\<lparr>w_trace := w_trace s @ [x]\<rparr>)"
  by (simp add: call_def wp_simps)

section \<open>Metadata and events\<close>

definition stringifyError :: "error \<Rightarrow> string" where
  "stringifyError e = (if trim (error_message e) \<noteq> [] then error_message e else ''sandbox route failed'')"

definition resolveDurationMs :: "time option \<Rightarrow> time option \<Rightarrow> int" where
  "resolveDurationMs started ended =
     (case (started, ended) of (Some a, Some b) \<Rightarrow> max 0 (b - a) | _ \<Rightarrow> 0)"

definition resolveAgentName :: "metadata \<Rightarrow> string option" where
  "resolveAgentName m =
     (case truthy (case meta m ''agentName'' of Some v \<Rightarrow> Some v | None \<Rightarrow> meta m ''agent'') of
        None \<Rightarrow> None
      | Some v \<Rightarrow> (let normalized = trim v in if normalized \<noteq> [] then Some normalized else None))"

definition opt_pair :: "string \<Rightarrow> string option \<Rightarrow> (string \<times> string) list" where
  "opt_pair k v = (case truthy v of Some x \<Rightarrow> [(k, x)] | None \<Rightarrow> [])"

definition resolveDirectiveHarnessContext :: "metadata \<Rightarrow> (string \<times> string) list" where
  "resolveDirectiveHarnessContext m =
     opt_pair ''directiveId'' (meta m ''directiveId'') @ opt_pair ''harnessProfileId'' (meta m ''harnessProfileId'') @
     opt_pair ''agentName'' (resolveAgentName m)"

definition first_some :: "string option list \<Rightarrow> string option" where
  "first_some vs = (case filter (\<lambda>v. v \<noteq> None) vs of v # _ \<Rightarrow> v | [] \<Rightarrow> None)"

definition resolvePolicyWorkloadMetadata :: "run_request \<Rightarrow> string \<Rightarrow> workload_metadata" where
  "resolvePolicyWorkloadMetadata request runId =
     (let m = rr_metadata request;
          agentRole = (case first_some [meta m ''agentRole'', meta m ''athena.dev/agent-role'', meta m ''role''] of
            Some r \<Rightarrow> r | None \<Rightarrow> ''unspecified'')
      in \<lparr>wl_labels = [(''athena.dev/agent-role'', agentRole), (''athena.dev/run-id'', runId),
            (''athena.dev/session-id'', rr_sessionId request), (''athena.dev/control-plane'', ''v1'')],
          wl_annotations =
            opt_pair ''athena.dev/policy-profile'' (first_some [meta m ''policyProfile'', meta m ''athena.dev/policy-profile'']) @
            opt_pair ''athena.dev/cleanup-ttl-seconds''
              (first_some [meta m ''cleanupTtlSeconds'', meta m ''athena.dev/cleanup-ttl-seconds''])\<rparr>)"

definition concurrency_origin :: policy_origin where
  "concurrency_origin = \<lparr>po_engine = ''athena'', po_ruleType = ''concurrency'', po_policyName = Some ''policy.maxConcurrentRuns'',
     po_ruleName = None, po_failureAction = Some ''enforce'', po_resourceRef = None, po_message = None\<rparr>"

definition emitConcurrencyRejection :: "'r run_env \<Rightarrow> run_request \<Rightarrow> string \<Rightarrow> int \<Rightarrow> int \<Rightarrow> rejection_reason \<Rightarrow>
    ('s run_state, unit) act" where
  "emitConcurrencyRejection env request runId activeRuns maxConcurrentRuns reason =
     (let workload = resolvePolicyWorkloadMetadata request runId;
          context = resolveDirectiveHarnessContext (rr_metadata request)
      in seqA (call (RecordRejection (rr_sessionId request) activeRuns maxConcurrentRuns reason concurrency_origin))
        (case env_record env (rr_sessionId request) activeRuns maxConcurrentRuns reason concurrency_origin of
           Inl _ \<Rightarrow> okA ()
         | Inr record \<Rightarrow> seqA (call (RejectionEvent ''policy.concurrency.rejected'' record workload context))
             (call (RejectionEvent ''policy.rejected'' record workload context))))"

definition emitSandboxLifecycleEvent :: "lifecycle_event \<Rightarrow> ('s run_state, unit) act" where
  "emitSandboxLifecycleEvent a =
     call (Lifecycle (a\<lparr>le_runtimeClassName := truthy (le_runtimeClassName a), le_templateRef := truthy (le_templateRef a),
       le_warmPoolRef := truthy (le_warmPoolRef a), le_sandboxId := truthy (le_sandboxId a),
       le_claimName := truthy (le_claimName a), le_namespace := truthy (le_namespace a), le_reason := truthy (le_reason a)\<rparr>))"

definition emitSandboxEgressDecisionEvent :: "egress_event \<Rightarrow> ('s run_state, unit) act" where
  "emitSandboxEgressDecisionEvent a =
     call (EgressDecision (a\<lparr>ee_agentName := truthy (ee_agentName a), ee_reason := truthy (ee_reason a),
       ee_runtimeClassName := truthy (ee_runtimeClassName a), ee_templateRef := truthy (ee_templateRef a),
       ee_warmPoolRef := truthy (ee_warmPoolRef a)\<rparr>))"

section \<open>Options and routing\<close>

definition resolveRunOptions :: "policy_document option \<Rightarrow> run_options \<Rightarrow> run_options" where
  "resolveRunOptions policy options =
     options\<lparr>ro_timeoutMs := (case ro_timeoutMs options of
        Some t \<Rightarrow> Some t
      | None \<Rightarrow> (case policy of Some p \<Rightarrow> pd_defaultRunTimeoutMs p | None \<Rightarrow> None))\<rparr>"

record sandbox_routing =
  rt_enabled :: bool
  rt_required :: bool
  rt_available :: bool
  rt_routeThroughSandbox :: bool

definition resolveSandboxRouting :: "athena_config \<Rightarrow> 'r run_env \<Rightarrow> run_request \<Rightarrow> isolation_selection \<Rightarrow>
    ('s run_state, sandbox_routing) act" where
  "resolveSandboxRouting cfg env request isol =
     (let required = (meta (rr_metadata request) ''sandbox'' = Some ''required'' \<or> is_requireSandbox isol);
          enabled = (case cfg_sandbox cfg of Some s \<Rightarrow> sc_enabled s | None \<Rightarrow> False)
      in thenA (if enabled then liftA (env_available env) else okA False) (\<lambda>available.
        okA \<lparr>rt_enabled = enabled, rt_required = required, rt_available = available,
          rt_routeThroughSandbox = (enabled \<and> available)\<rparr>))"

definition lifecycle :: "run_request \<Rightarrow> string \<Rightarrow> isolation_selection \<Rightarrow> string option \<Rightarrow> string option \<Rightarrow>
    sandbox_claim option \<Rightarrow> string option \<Rightarrow> sandbox_phase \<Rightarrow> lifecycle_event" where
  "lifecycle request runId isol runtimeClassName templateRef claim reason phase =
     \<lparr>le_runId = runId, le_sessionId = rr_sessionId request, le_phase = phase, le_isolationProfile = is_profile isol,
      le_startMode = is_startMode isol, le_runtimeClassName = runtimeClassName, le_templateRef = templateRef,
      le_warmPoolRef = meta (rr_metadata request) ''sandboxWarmPoolRef'', le_sandboxId = map_option sb_sandboxId claim,
      le_claimName = Option.bind claim sb_claimName, le_namespace = Option.bind claim sb_namespace,
      le_latencyMsStartup = None, le_latencyMsClaimToReady = None, le_reason = reason\<rparr>"

section \<open>The sandbox\<close>

definition backendRun :: "'r run_env \<Rightarrow> run_options \<Rightarrow> ('s run_state, 'r) act" where
  "backendRun env options = seqA (call (BackendRun options)) (liftA (env_run env options))"

definition directRun :: "'r run_env \<Rightarrow> run_options \<Rightarrow> ('s run_state, 'r) act" where
  "directRun env options = seqA (doA (\<lambda>s. s\<lparr>w_providerRunAttempted := True\<rparr>)) (backendRun env options)"

definition finalizeSandboxLifecycle :: "'r run_env \<Rightarrow> (string option \<Rightarrow> sandbox_phase \<Rightarrow> lifecycle_event) \<Rightarrow> string \<Rightarrow>
    terminate_reason \<Rightarrow> string option \<Rightarrow> ('s run_state, unit) act" where
  "finalizeSandboxLifecycle env event sandboxId reason detail =
     seqA (emitSandboxLifecycleEvent (event (Some (case detail of Some d \<Rightarrow> d | None \<Rightarrow> terminate_str reason)) PhTerminating))
     (seqA (call (TerminateCall sandboxId reason))
     (seqA (catchA (liftA (env_terminate env reason))
        (\<lambda>_. emitSandboxLifecycleEvent (event (Some ''sandbox terminate failed'') PhCleanupFailed)))
     (seqA (call (CleanupCall sandboxId))
     (catchA (seqA (liftA (env_cleanup env)) (emitSandboxLifecycleEvent (event None PhCleaned)))
        (\<lambda>_. emitSandboxLifecycleEvent (event (Some ''sandbox cleanup failed'') PhCleanupFailed))))))"

text \<open>
  The monitor of the quotas: the answers that its polls got while the run went on. The first that is no usage,
  or a violation, is the error of the run, whatever the run itself returns.
\<close>

fun quota_monitor :: "quota_config \<Rightarrow> resource_usage option result list \<Rightarrow> (string \<times> resource_usage option) option" where
  "quota_monitor quota [] = None"
| "quota_monitor quota (Inl e # _) = Some (stringifyError e, None)"
| "quota_monitor quota (Inr None # _) = Some (''Sandbox quota monitor unavailable for configured quotas.'', None)"
| "quota_monitor quota (Inr (Some usage) # polls) =
     (if ru_status usage \<noteq> ''ok'' then
        Some (case truthy (ru_reason usage) of
            Some r \<Rightarrow> ''Sandbox quota monitor unavailable: '' @ r
          | None \<Rightarrow> ''Sandbox quota monitor unavailable for configured quotas.'', None)
      else case resolveQuotaViolation quota usage of
        Some violation \<Rightarrow> Some (violation, Some usage)
      | None \<Rightarrow> quota_monitor quota polls)"

definition runWithSandboxQuotaMonitoring :: "'r run_env \<Rightarrow> run_request \<Rightarrow> run_options \<Rightarrow> string \<Rightarrow> quota_config \<Rightarrow>
    ('s run_state, 'r) act" where
  "runWithSandboxQuotaMonitoring env request runOptions sandboxId quota =
     (let options = runOptions\<lparr>ro_signal := Some MergedSignal\<rparr>
      in seqA (call (BackendRun options))
        (case quota_monitor quota (env_usages env) of
           None \<Rightarrow> liftA (env_run env options)
         | Some (message, usage) \<Rightarrow>
             seqA (case usage of None \<Rightarrow> okA ()
                 | Some u \<Rightarrow> call (QuotaExceeded \<lparr>qe_sandboxId = sandboxId, qe_quota = quota, qe_usage = u,
                     qe_reason = message, qe_agentName = resolveAgentName (rr_metadata request)\<rparr>))
               (throwA (AthenaError RUN_TIMEOUT message False))))"

definition classify_end :: "'r result \<Rightarrow> terminate_reason \<times> string option" where
  "classify_end r = (case r of
     Inr _ \<Rightarrow> (TrCleanup, None)
   | Inl (AthenaError RUN_CANCELLED _ _) \<Rightarrow> (TrCancelled, None)
   | Inl (AthenaError RUN_TIMEOUT message _) \<Rightarrow> (TrTimeout, Some message)
   | Inl _ \<Rightarrow> (TrFailed, None))"

definition claim_request_of :: "athena_config \<Rightarrow> run_request \<Rightarrow> string \<Rightarrow> isolation_selection \<Rightarrow> int \<Rightarrow> claim_request" where
  "claim_request_of cfg request runId isol timeoutMs =
     (let m = rr_metadata request in
      \<lparr>cr_runId = runId, cr_sessionId = rr_sessionId request,
       cr_templateRef = (case meta m ''sandboxTemplateRef'' of Some t \<Rightarrow> t | None \<Rightarrow> ''default''),
       cr_warmPoolRef = truthy (meta m ''sandboxWarmPoolRef''), cr_runtimeClassName = truthy (is_runtimeClassName isol),
       cr_workspace = resolveSandboxWorkspaceConfig cfg m,
       cr_egressAllow = resolveSandboxEgressPolicy (meta m ''sandboxAllowedEgress''),
       cr_timeoutMs = (if timeoutMs > 0 then Some timeoutMs else None)\<rparr>)"

text \<open>
  The body of the \<open>try\<close>, in the order of the code: the egress check, the claim, the wait, the run. The two
  direct runs inside it are returned without \<open>await\<close>; they mark the run as attempted first, so the handler
  would rethrow what they throw.
\<close>

definition checkEgress :: "run_request \<Rightarrow> 'r run_env \<Rightarrow> athena_config \<Rightarrow> string \<Rightarrow> isolation_selection \<Rightarrow>
    ('s run_state, unit) act" where
  "checkEgress request env cfg runId isol =
     (let m = rr_metadata request;
          allow = resolveSandboxEgressPolicy (meta m ''sandboxAllowedEgress'');
          declared = resolveDeclaredSandboxEgressDestinations (env_urlParse env)
            (meta m ''sandboxEgressDestinations'') (ws_syncRepo (resolveSandboxWorkspaceConfig cfg m));
          event = (\<lambda>decision reason. \<lparr>ee_runId = runId, ee_sessionId = rr_sessionId request, ee_decision = decision,
            ee_policy = allow, ee_declared = declared, ee_agentName = resolveAgentName m, ee_reason = reason,
            ee_runtimeClassName = is_runtimeClassName isol,
            ee_templateRef = Some (cr_templateRef (claim_request_of cfg request runId isol 0)),
            ee_warmPoolRef = meta m ''sandboxWarmPoolRef''\<rparr>)
      in (case evaluateSandboxEgressPolicy allow declared of
            (EgressAllowed, _) \<Rightarrow> emitSandboxEgressDecisionEvent (event ''allowed'' None)
          | (decision, reason) \<Rightarrow>
              seqA (doA (\<lambda>s. s\<lparr>w_forceFailClosed := True\<rparr>))
              (seqA (emitSandboxEgressDecisionEvent
                 (event (if decision = EgressBlocked then ''blocked'' else ''error'') (Some reason)))
              (throwA (AthenaError CONFIG_ERROR reason False)))))"

definition egress_failure :: "string \<Rightarrow> bool" where
  "egress_failure claimReason = has_substring ''egress policy'' (to_lower claimReason)"

text \<open>The claim was not granted.\<close>

definition claimRefused :: "run_request \<Rightarrow> 'r run_env \<Rightarrow> athena_config \<Rightarrow> run_options \<Rightarrow> bool \<Rightarrow> string \<Rightarrow>
    isolation_selection \<Rightarrow> claim_request \<Rightarrow> claim_result \<Rightarrow> ('s run_state, 'r) act" where
  "claimRefused request env cfg runOptions required runId isol q claimed =
     (let m = rr_metadata request;
          claimReason = (case cl_reason claimed of Some r \<Rightarrow> r
            | None \<Rightarrow> ''sandbox claim did not return a sandbox identity'')
      in seqA
        (if egress_failure claimReason then
           seqA (doA (\<lambda>s. s\<lparr>w_forceFailClosed := True\<rparr>))
             (emitSandboxEgressDecisionEvent \<lparr>ee_runId = runId, ee_sessionId = rr_sessionId request, ee_decision = ''error'',
               ee_policy = cr_egressAllow q,
               ee_declared = resolveDeclaredSandboxEgressDestinations (env_urlParse env)
                 (meta m ''sandboxEgressDestinations'') (ws_syncRepo (cr_workspace q)),
               ee_agentName = resolveAgentName m, ee_reason = Some claimReason,
               ee_runtimeClassName = is_runtimeClassName isol, ee_templateRef = Some (cr_templateRef q),
               ee_warmPoolRef = cr_warmPoolRef q\<rparr>)
         else okA ())
        (seqA (emitSandboxLifecycleEvent (lifecycle request runId isol (is_runtimeClassName isol) (Some (cr_templateRef q))
           None (Some claimReason)
           (if required \<or> egress_failure claimReason then PhRequiredUnavailable else PhFallback)))
        (if required \<or> egress_failure claimReason then
           throwA (AthenaError CONFIG_ERROR
             (if egress_failure claimReason then ''Sandbox egress policy enforcement failed: '' @ claimReason
              else ''Sandbox execution is required for this run context but sandbox claim was not granted.'') False)
         else directRun env runOptions)))"

text \<open>The sandbox is ready: run in it, then terminate and clean it.\<close>

definition runInSandbox :: "run_request \<Rightarrow> 'r run_env \<Rightarrow> run_options \<Rightarrow> string \<Rightarrow>
    (string option \<Rightarrow> sandbox_phase \<Rightarrow> lifecycle_event) \<Rightarrow> ('s run_state, 'r) act" where
  "runInSandbox request env runOptions sandboxId event =
     (let quota = resolveSandboxQuotaConfig (rr_metadata request) in
      finallyA
        (seqA (doA (\<lambda>s. s\<lparr>w_providerRunAttempted := True\<rparr>))
          (if \<not> qc_enabled quota then backendRun env runOptions
           else runWithSandboxQuotaMonitoring env request runOptions sandboxId quota))
        (\<lambda>r. finalizeSandboxLifecycle env event sandboxId (fst (classify_end r)) (truthy (snd (classify_end r)))))"

text \<open>The sandbox is claimed.\<close>

definition claimGranted :: "run_request \<Rightarrow> 'r run_env \<Rightarrow> run_options \<Rightarrow> bool \<Rightarrow> string \<Rightarrow>
    isolation_selection \<Rightarrow> int \<Rightarrow> string \<Rightarrow> claim_result \<Rightarrow> string \<Rightarrow> ('s run_state, 'r) act" where
  "claimGranted request env runOptions required runId isol timeoutMs templateRef claimed sandboxId =
     (let claim = \<lparr>sb_sandboxId = sandboxId, sb_claimName = truthy (cl_claimName claimed),
            sb_namespace = truthy (cl_namespace claimed)\<rparr>;
          runtimeClassName = (case cl_runtimeClassName claimed of Some r \<Rightarrow> Some r | None \<Rightarrow> is_runtimeClassName isol);
          claimedAtMs = (case truthy (cl_claimedAt claimed) of Some t \<Rightarrow> env_dateParse env t | None \<Rightarrow> Some (env_now env));
          event = lifecycle request runId isol runtimeClassName (Some templateRef) (Some claim)
      in seqA (doA (\<lambda>s. s\<lparr>w_claim := Some claim, w_runtimeClassName := runtimeClassName, w_claimedAtMs := claimedAtMs\<rparr>))
        (seqA (emitSandboxLifecycleEvent (event None PhClaimed))
        (seqA (call (WaitReadyCall sandboxId timeoutMs))
        (thenA (liftA (env_waitReady env sandboxId timeoutMs)) (\<lambda>readiness.
          let latency = Some (resolveDurationMs claimedAtMs (env_dateParse env (rd_observedAt readiness)));
              timed = (\<lambda>e. e\<lparr>le_latencyMsClaimToReady := latency, le_latencyMsStartup := latency\<rparr>)
          in if rd_status readiness \<noteq> ''ready'' then
               seqA (emitSandboxLifecycleEvent (timed (event (Some (case rd_reason readiness of Some r \<Rightarrow> r
                   | None \<Rightarrow> ''sandbox did not report ready'')) PhReadyTimeout)))
               (if required then throwA (AthenaError RUN_TIMEOUT ''Sandbox was not ready before the configured timeout.'' False)
                else seqA (emitSandboxLifecycleEvent (event (Some ''sandbox readiness unavailable for optional context'') PhFallback))
                  (directRun env runOptions))
             else
               seqA (emitSandboxLifecycleEvent (timed (event None PhReady)))
                 (runInSandbox request env runOptions sandboxId event))))))"

definition sandboxTry :: "athena_config \<Rightarrow> 'r run_env \<Rightarrow> run_request \<Rightarrow> run_options \<Rightarrow> bool \<Rightarrow> string \<Rightarrow>
    isolation_selection \<Rightarrow> int \<Rightarrow> claim_request \<Rightarrow> ('s run_state, 'r) act" where
  "sandboxTry cfg env request runOptions required runId isol timeoutMs q =
     seqA (checkEgress request env cfg runId isol)
     (seqA (emitSandboxLifecycleEvent (lifecycle request runId isol (is_runtimeClassName isol) (Some (cr_templateRef q)) None None PhClaiming))
     (seqA (call (ClaimCall q))
     (thenA (liftA (env_claim env q)) (\<lambda>claimed.
       case (if cl_status claimed \<noteq> ''claimed'' then None else truthy (cl_sandboxId claimed)) of
         None \<Rightarrow> claimRefused request env cfg runOptions required runId isol q claimed
       | Some sandboxId \<Rightarrow>
           claimGranted request env runOptions required runId isol timeoutMs (cr_templateRef q) claimed sandboxId))))"

definition sandboxCatch :: "'r run_env \<Rightarrow> run_request \<Rightarrow> run_options \<Rightarrow> bool \<Rightarrow> string \<Rightarrow>
    isolation_selection \<Rightarrow> claim_request \<Rightarrow> error \<Rightarrow> ('s run_state, 'r) act" where
  "sandboxCatch env request runOptions required runId isol q e =
     thenA (getA (\<lambda>s. (required \<or> w_providerRunAttempted s \<or> w_forceFailClosed s, w_runtimeClassName s, w_claim s)))
       (\<lambda>(rethrow, runtimeClassName, claim).
         if rethrow then throwA e
         else seqA (emitSandboxLifecycleEvent (lifecycle request runId isol runtimeClassName (Some (cr_templateRef q)) claim
             (Some (stringifyError e)) PhFallback))
           (directRun env runOptions))"

definition runWithSandboxLifecycle :: "athena_config \<Rightarrow> 'r run_env \<Rightarrow> run_request \<Rightarrow> run_options \<Rightarrow> bool \<Rightarrow> string \<Rightarrow>
    isolation_selection \<Rightarrow> ('s run_state, 'r) act" where
  "runWithSandboxLifecycle cfg env request runOptions required runId isol =
     (let timeoutMs = (case ro_timeoutMs runOptions of Some t \<Rightarrow> t | None \<Rightarrow> cfg_runtimeRunTimeoutMs cfg);
          q = claim_request_of cfg request runId isol timeoutMs
      in seqA (doA (\<lambda>s. s\<lparr>w_claim := None, w_providerRunAttempted := False, w_claimedAtMs := None,
             w_runtimeClassName := is_runtimeClassName isol, w_forceFailClosed := False\<rparr>))
         (catchA (sandboxTry cfg env request runOptions required runId isol timeoutMs q)
            (sandboxCatch env request runOptions required runId isol q)))"

section \<open>The run\<close>

definition reserveSlot :: "('s \<Rightarrow> time \<Rightarrow> string \<Rightarrow> acquire_request \<Rightarrow> ('s \<times> acquire_result) result) \<Rightarrow> 'r run_env \<Rightarrow>
    run_request \<Rightarrow> string \<Rightarrow> int \<Rightarrow> ('s run_state, release_request) act" where
  "reserveSlot acq env request runId mx =
     (\<lambda>s. case reserve acq (env_owner env) (env_clock env) (env_tokens env) (rr_sessionId request) mx (w_locks s) of
        (locks, Inr reservation) \<Rightarrow> okA (rv_lease reservation) (s\<lparr>w_locks := locks\<rparr>)
      | (locks, Inl t) \<Rightarrow>
          seqA (case resolveRejectionReason t of
              None \<Rightarrow> okA ()
            | Some reason \<Rightarrow> emitConcurrencyRejection env request runId (resolveActiveRunsForRejection t reason mx) mx reason)
            (throwA (th_error t)) (s\<lparr>w_locks := locks\<rparr>))"

definition runReserved :: "('s \<Rightarrow> time \<Rightarrow> release_request \<Rightarrow> 's) \<Rightarrow> athena_config \<Rightarrow> 'r run_env \<Rightarrow> run_request \<Rightarrow>
    run_options \<Rightarrow> sandbox_routing \<Rightarrow> string \<Rightarrow> isolation_selection \<Rightarrow> release_request option \<Rightarrow> ('s run_state, 'r) act" where
  "runReserved rel cfg env request runOptions routing runId isol lease =
     finallyA
       (if \<not> rt_routeThroughSandbox routing then backendRun env runOptions
        else runWithSandboxLifecycle cfg env request runOptions (rt_required routing) runId isol)
       (\<lambda>_. case lease of
          None \<Rightarrow> okA ()
        | Some l \<Rightarrow> doA (\<lambda>s. s\<lparr>w_locks := rel (w_locks s) (env_releasedAt env) l\<rparr>))"

definition runAllowed :: "('s \<Rightarrow> time \<Rightarrow> string \<Rightarrow> acquire_request \<Rightarrow> ('s \<times> acquire_result) result) \<Rightarrow>
    ('s \<Rightarrow> time \<Rightarrow> release_request \<Rightarrow> 's) \<Rightarrow> athena_config \<Rightarrow> 'r run_env \<Rightarrow> run_request \<Rightarrow> int option \<Rightarrow> run_options \<Rightarrow>
    sandbox_routing \<Rightarrow> string \<Rightarrow> isolation_selection \<Rightarrow> ('s run_state, 'r) act" where
  "runAllowed acq rel cfg env request maxConcurrentRuns runOptions routing runId isol =
     thenA (case maxConcurrentRuns of
         Some mx \<Rightarrow> if mx \<noteq> 0 then thenA (reserveSlot acq env request runId mx) (\<lambda>l. okA (Some l)) else okA None
       | None \<Rightarrow> okA None)
       (runReserved rel cfg env request runOptions routing runId isol)"

definition policy_run :: "('s \<Rightarrow> time \<Rightarrow> string \<Rightarrow> acquire_request \<Rightarrow> ('s \<times> acquire_result) result) \<Rightarrow>
    ('s \<Rightarrow> time \<Rightarrow> release_request \<Rightarrow> 's) \<Rightarrow> athena_config \<Rightarrow> 'r run_env \<Rightarrow> run_request \<Rightarrow> run_options \<Rightarrow>
    ('s run_state, 'r) act" where
  "policy_run acq rel cfg env request options =
     thenA (liftA (env_policy env)) (\<lambda>policy.
       let runOptions = resolveRunOptions policy options;
           isol = resolveRuntimeIsolationSelection cfg (rr_metadata request)
       in thenA (resolveSandboxRouting cfg env request isol) (\<lambda>routing.
       let runId = (case meta (rr_metadata request) ''runId'' of Some r \<Rightarrow> r | None \<Rightarrow> ''sandbox-'' @ env_uuid env);
           event = (\<lambda>reason. lifecycle request runId isol (is_runtimeClassName isol)
             (meta (rr_metadata request) ''sandboxTemplateRef'') None (Some reason))
       in if rt_required routing \<and> \<not> rt_available routing then
         seqA (emitSandboxLifecycleEvent (event ''sandbox backend unavailable in required context'' PhRequiredUnavailable))
           (throwA (AthenaError CONFIG_ERROR
             ''Sandbox execution is required for this run context but sandbox backend is unavailable.'' False))
       else
         seqA (if rt_enabled routing \<and> \<not> rt_available routing
             then emitSandboxLifecycleEvent (event ''sandbox backend unavailable; using direct execution path'' PhFallback)
             else okA ())
         (runAllowed acq rel cfg env request (Option.bind policy pd_maxConcurrentRuns) runOptions routing runId isol)))"

section \<open>The other operations\<close>

text \<open>
  Those that the execution backend may lack are an \<open>option\<close>. \<open>cancel\<close> is the backend's own.
\<close>

record cancel_result =
  cn_runId :: string
  cn_status :: string
  cn_sessionId :: "string option"

definition cancelByRunId :: "(string \<Rightarrow> string option \<Rightarrow> cancel_result result) option \<Rightarrow> (string \<Rightarrow> string list result) option \<Rightarrow>
    (string \<Rightarrow> string option \<Rightarrow> (string \<times> string) result) \<Rightarrow> string \<Rightarrow> string option \<Rightarrow> cancel_result result" where
  "cancelByRunId backendCancelByRunId backendListActiveRuns backendCancel runId reason =
     (case backendCancelByRunId of
        Some f \<Rightarrow> f runId reason
      | None \<Rightarrow>
          (let notRunning = \<lparr>cn_runId = runId, cn_status = ''not-running'', cn_sessionId = None\<rparr> in
           case backendListActiveRuns of
             None \<Rightarrow> Inr notRunning
           | Some list \<Rightarrow> bindR (list runId) (\<lambda>sessions.
               case sessions of
                 [] \<Rightarrow> Inr notRunning
               | sessionId # _ \<Rightarrow> bindR (backendCancel sessionId (truthy reason)) (\<lambda>(status, sessionId').
                   Inr \<lparr>cn_runId = runId, cn_status = status, cn_sessionId = Some sessionId'\<rparr>))))"

definition backend_list :: "('q \<Rightarrow> 'a list result) option \<Rightarrow> 'q \<Rightarrow> 'a list result" where
  "backend_list list query = (case list of None \<Rightarrow> Inr [] | Some f \<Rightarrow> f query)"

record operations_metrics =
  om_supportsPods :: bool
  om_supportsCpuMemMetrics :: bool
  om_active :: int
  om_cancellationRequested :: int

definition getOperationsMetrics :: "operations_metrics option result option \<Rightarrow> operations_metrics result" where
  "getOperationsMetrics backend =
     (let fallback = \<lparr>om_supportsPods = False, om_supportsCpuMemMetrics = False, om_active = 0, om_cancellationRequested = 0\<rparr> in
      case backend of
        None \<Rightarrow> Inr fallback
      | Some r \<Rightarrow> bindR r (\<lambda>m. Inr (case m of Some x \<Rightarrow> x | None \<Rightarrow> fallback)))"

section \<open>Traces\<close>

definition lc :: "lifecycle_event \<Rightarrow> lifecycle_event" where
  "lc a = a\<lparr>le_runtimeClassName := truthy (le_runtimeClassName a), le_templateRef := truthy (le_templateRef a),
       le_warmPoolRef := truthy (le_warmPoolRef a), le_sandboxId := truthy (le_sandboxId a),
       le_claimName := truthy (le_claimName a), le_namespace := truthy (le_namespace a), le_reason := truthy (le_reason a)\<rparr>"

lemma wp_lifecycle [wp_simps]:
  "wp (emitSandboxLifecycleEvent a) Q E s = Q () (s\<lparr>w_trace := w_trace s @ [Lifecycle (lc a)]\<rparr>)"
  by (simp add: emitSandboxLifecycleEvent_def wp_simps lc_def)

lemma wp_egress_event [wp_simps]:
  "wp (emitSandboxEgressDecisionEvent a) Q E s = Q () (s\<lparr>w_trace := w_trace s @
     [EgressDecision (a\<lparr>ee_agentName := truthy (ee_agentName a), ee_reason := truthy (ee_reason a),
       ee_runtimeClassName := truthy (ee_runtimeClassName a), ee_templateRef := truthy (ee_templateRef a),
       ee_warmPoolRef := truthy (ee_warmPoolRef a)\<rparr>)]\<rparr>)"
  by (simp add: emitSandboxEgressDecisionEvent_def wp_simps)

lemma wp_backendRun [wp_simps]:
  "wp (backendRun env options) Q E s =
     (case env_run env options of Inl e \<Rightarrow> E e (s\<lparr>w_trace := w_trace s @ [BackendRun options]\<rparr>)
      | Inr x \<Rightarrow> Q x (s\<lparr>w_trace := w_trace s @ [BackendRun options]\<rparr>))"
  by (simp add: backendRun_def wp_simps)

lemma wp_directRun [wp_simps]:
  "wp (directRun env options) Q E s =
     (case env_run env options of
        Inl e \<Rightarrow> E e (s\<lparr>w_providerRunAttempted := True, w_trace := w_trace s @ [BackendRun options]\<rparr>)
      | Inr x \<Rightarrow> Q x (s\<lparr>w_providerRunAttempted := True, w_trace := w_trace s @ [BackendRun options]\<rparr>))"
  by (simp add: directRun_def wp_simps split: sum.split)

definition fin_trace :: "'r run_env \<Rightarrow> (string option \<Rightarrow> sandbox_phase \<Rightarrow> lifecycle_event) \<Rightarrow> string \<Rightarrow>
    terminate_reason \<Rightarrow> string option \<Rightarrow> effect list" where
  "fin_trace env event i reason detail =
     [Lifecycle (lc (event (Some (case detail of Some d \<Rightarrow> d | None \<Rightarrow> terminate_str reason)) PhTerminating)),
      TerminateCall i reason] @
     (case env_terminate env reason of Inl _ \<Rightarrow> [Lifecycle (lc (event (Some ''sandbox terminate failed'') PhCleanupFailed))]
      | Inr _ \<Rightarrow> []) @
     [CleanupCall i, case env_cleanup env of Inl _ \<Rightarrow> Lifecycle (lc (event (Some ''sandbox cleanup failed'') PhCleanupFailed))
      | Inr _ \<Rightarrow> Lifecycle (lc (event None PhCleaned))]"

lemma wp_finalize [wp_simps]:
  "wp (finalizeSandboxLifecycle env event i reason detail) Q E s =
     Q () (s\<lparr>w_trace := w_trace s @ fin_trace env event i reason detail\<rparr>)"
  by (simp add: finalizeSandboxLifecycle_def wp_simps fin_trace_def split: sum.split)

text \<open>The calls of the execution backend in a trace, the answers of the sandbox that make it ready.\<close>

fun run_call :: "effect \<Rightarrow> run_options option" where
  "run_call (BackendRun o') = Some o'"
| "run_call _ = None"

abbreviation runs :: "effect list \<Rightarrow> run_options list" where
  "runs t \<equiv> List.map_filter run_call t"

lemma runs_simps [simp]:
  "runs (t @ t') = runs t @ runs t'" "runs [] = []"
  "runs (x # t) = (case run_call x of None \<Rightarrow> runs t | Some o' \<Rightarrow> o' # runs t)"
  by (simp_all add: List.map_filter_def split: option.split)

lemma runs_fin [simp]: "runs (fin_trace env event i reason detail) = []"
  by (simp add: fin_trace_def split: sum.split)

text \<open>The sandbox \<open>i\<close> was claimed and became ready, by the answers of its backend.\<close>

definition sandbox_ready :: "'r run_env \<Rightarrow> string \<Rightarrow> bool" where
  "sandbox_ready env i \<longleftrightarrow> (\<exists>q c t r. env_claim env q = Inr c \<and> cl_status c = ''claimed'' \<and> truthy (cl_sandboxId c) = Some i \<and>
     env_waitReady env i t = Inr r \<and> rd_status r = ''ready'')"

text \<open>
  How a run ends, by what it entered in the trace: without a call of the execution backend; with one direct
  call; or with one call in a ready sandbox, which is then terminated and cleaned.
\<close>

definition refused :: "effect list \<Rightarrow> 'r result \<Rightarrow> bool" where
  "refused u r \<longleftrightarrow> runs u = [] \<and> (case r of Inl _ \<Rightarrow> True | Inr _ \<Rightarrow> False)"

definition direct :: "'r run_env \<Rightarrow> effect list \<Rightarrow> 'r result \<Rightarrow> bool" where
  "direct env u r \<longleftrightarrow> (\<exists>o'. runs u = [o'] \<and> env_run env o' = r)"

definition sandboxed :: "'r run_env \<Rightarrow> effect list \<Rightarrow> 'r result \<Rightarrow> bool" where
  "sandboxed env u r \<longleftrightarrow> (\<exists>i o' pre v event. sandbox_ready env i \<and>
     u = pre @ BackendRun o' # v @ fin_trace env event i (fst (classify_end r)) (truthy (snd (classify_end r))) \<and>
     runs pre = [] \<and> runs v = [] \<and> (case r of Inl _ \<Rightarrow> True | Inr x \<Rightarrow> env_run env o' = Inr x))"

definition outcome :: "'r run_env \<Rightarrow> bool \<Rightarrow> effect list \<Rightarrow> 'r result \<Rightarrow> bool" where
  "outcome env required u r \<longleftrightarrow> refused u r \<or> (\<not> required \<and> direct env u r) \<or> sandboxed env u r"

lemma outcome_prefix:
  assumes "outcome env required u r" "runs pre = []"
  shows "outcome env required (pre @ u) r"
proof -
  have "sandboxed env (pre @ u) r" if "sandboxed env u r"
  proof -
    obtain i o' p v event where "sandbox_ready env i"
      "u = p @ BackendRun o' # v @ fin_trace env event i (fst (classify_end r)) (truthy (snd (classify_end r)))"
      "runs p = []" "runs v = []" "case r of Inl _ \<Rightarrow> True | Inr x \<Rightarrow> env_run env o' = Inr x"
      using \<open>sandboxed env u r\<close> unfolding sandboxed_def by blast
    then show ?thesis using assms(2) unfolding sandboxed_def
      by (intro exI [of _ i] exI [of _ o'] exI [of _ "pre @ p"] exI [of _ v] exI [of _ event]) simp
  qed
  then show ?thesis using assms by (auto simp: outcome_def refused_def direct_def)
qed

lemma wp_runInSandbox:
  "wp (runInSandbox request env runOptions i event)
     (\<lambda>x s'. \<exists>o' u. w_trace s' = w_trace s @ BackendRun o' # u @ fin_trace env event i TrCleanup None \<and> runs u = [] \<and>
        env_run env o' = Inr x)
     (\<lambda>e s'. \<exists>o' u. w_trace s' = w_trace s @ BackendRun o' # u @
          fin_trace env event i (fst (classify_end (Inl e :: 'r result))) (truthy (snd (classify_end (Inl e :: 'r result)))) \<and>
        runs u = [] \<and> w_providerRunAttempted s') (s :: 's run_state)"
  for env :: "'r run_env"
  by (simp add: runInSandbox_def Let_def wp_simps runWithSandboxQuotaMonitoring_def classify_end_def
      split: sum.split option.split prod.split)

text \<open>The post-conditions of the parts: what they appended to the trace is an outcome.\<close>

definition ends :: "'r run_env \<Rightarrow> bool \<Rightarrow> 's run_state \<Rightarrow> 's run_state \<Rightarrow> 'r result \<Rightarrow> bool" where
  "ends env required s s' r \<longleftrightarrow> (\<exists>u. w_trace s' = w_trace s @ u \<and> outcome env required u r \<and>
     (case r of Inl _ \<Rightarrow> w_providerRunAttempted s' \<or> runs u = [] | Inr _ \<Rightarrow> True))"

lemma ends_append:
  assumes "ends env required s2 s' r" "w_trace s2 = w_trace s @ u" "runs u = []"
  shows "ends env required s s' r"
  using assms outcome_prefix [of env required _ r u] unfolding ends_def
  by (auto split: sum.splits)

lemma ends_refused: "w_trace s' = w_trace s @ u \<Longrightarrow> runs u = [] \<Longrightarrow> ends env required s s' (Inl e)"
  by (auto simp: ends_def outcome_def refused_def)

lemma ends_direct:
  "w_trace s' = w_trace s @ u \<Longrightarrow> runs u = [o'] \<Longrightarrow> env_run env o' = r \<Longrightarrow> \<not> required \<Longrightarrow> w_providerRunAttempted s' \<Longrightarrow>
   ends env required s s' r"
  by (auto simp: ends_def outcome_def direct_def split: sum.split)

lemma ends_runInSandbox:
  fixes env :: "'r run_env" and s :: "'s run_state"
  assumes "sandbox_ready env i"
  shows "wp (runInSandbox request env runOptions i event)
    (\<lambda>x s'. ends env required s s' (Inr x)) (\<lambda>e s'. ends env required s s' (Inl e)) s"
proof (rule wp_mono [OF wp_runInSandbox])
  fix x and s' :: "'s run_state" assume "\<exists>o' u. w_trace s' = w_trace s @ BackendRun o' # u @ fin_trace env event i TrCleanup None \<and> runs u = [] \<and>
        env_run env o' = Inr x"
  then obtain o' u where u: "w_trace s' = w_trace s @ BackendRun o' # u @ fin_trace env event i TrCleanup None" "runs u = []"
      "env_run env o' = Inr x" by auto
  then have "sandboxed env (BackendRun o' # u @ fin_trace env event i TrCleanup None) (Inr x)"
    using assms unfolding sandboxed_def
    by (intro exI [of _ i] exI [of _ o'] exI [of _ "[]"] exI [of _ u] exI [of _ event]) (simp add: classify_end_def)
  then show "ends env required s s' (Inr x)" using u(1) by (auto simp: ends_def outcome_def)
next
  fix e and s' :: "'s run_state" assume "\<exists>o' u. w_trace s' = w_trace s @ BackendRun o' # u @
          fin_trace env event i (fst (classify_end (Inl e :: 'r result))) (truthy (snd (classify_end (Inl e :: 'r result)))) \<and>
        runs u = [] \<and> w_providerRunAttempted s'"
  then obtain o' u where u: "w_trace s' = w_trace s @ BackendRun o' # u @
      fin_trace env event i (fst (classify_end (Inl e :: 'r result))) (truthy (snd (classify_end (Inl e :: 'r result))))"
      "runs u = []" "w_providerRunAttempted s'" by auto
  then have "sandboxed env (BackendRun o' # u @
      fin_trace env event i (fst (classify_end (Inl e :: 'r result))) (truthy (snd (classify_end (Inl e :: 'r result)))))
      (Inl e :: 'r result)"
    using assms unfolding sandboxed_def
    by (intro exI [of _ i] exI [of _ o'] exI [of _ "[]"] exI [of _ u] exI [of _ event]) simp
  then show "ends env required s s' (Inl e)" using u(1,3) by (auto simp: ends_def outcome_def)
qed

lemma ends_claimGranted:
  assumes "env_claim env q = Inr claimed" "cl_status claimed = ''claimed''" "truthy (cl_sandboxId claimed) = Some i"
  shows "wp (claimGranted request env runOptions required runId isol timeoutMs templateRef claimed i)
    (\<lambda>x s'. ends env required s s' (Inr x)) (\<lambda>e s'. ends env required s s' (Inl e)) s"
proof (cases "env_waitReady env i timeoutMs")
  case (Inl e)
  then show ?thesis
    by (simp add: claimGranted_def Let_def wp_simps) (rule ends_refused, simp, simp)
next
  case (Inr rd)
  show ?thesis
  proof (cases "rd_status rd = ''ready''")
    case True
    have "sandbox_ready env i" using assms Inr True unfolding sandbox_ready_def by blast
    note r = ends_runInSandbox [OF this, of request runOptions _ required]
    show ?thesis using Inr True
      by (simp add: claimGranted_def Let_def wp_simps)
        (rule wp_mono, rule r, (erule ends_append, simp, simp)+)
  next
    case False
    show ?thesis
      using Inr False
      by (simp add: claimGranted_def Let_def wp_simps split: sum.split)
        (auto intro: ends_refused ends_direct)
  qed
qed

lemma ends_claimRefused:
  "wp (claimRefused request env cfg runOptions required runId isol q claimed)
    (\<lambda>x s'. ends env required s s' (Inr x)) (\<lambda>e s'. ends env required s s' (Inl e)) s"
  by (simp add: claimRefused_def Let_def wp_simps split: sum.split)
    (auto intro: ends_refused ends_direct)

lemma ends_checkEgress:
  "wp (checkEgress request env cfg runId isol)
    (\<lambda>_ s'. \<exists>u. w_trace s' = w_trace s @ u \<and> runs u = [])
    (\<lambda>e s'. ends env required s s' (Inl e)) s"
  by (simp add: checkEgress_def Let_def wp_simps split: prod.split egress_decision.split)
    (auto intro: ends_refused)

lemma ends_try:
  "wp (sandboxTry cfg env request runOptions required runId isol timeoutMs q)
    (\<lambda>x s'. ends env required s s' (Inr x)) (\<lambda>e s'. ends env required s s' (Inl e)) s"
  unfolding sandboxTry_def
proof (simp only: wp_simps, rule wp_mono, rule ends_checkEgress, elim exE conjE, goal_cases)
  case (1 x s' u)
  let ?s = "s'\<lparr>w_trace := w_trace s' @ [Lifecycle (lc (lifecycle request runId isol (is_runtimeClassName isol)
      (Some (cr_templateRef q)) None None PhClaiming)), ClaimCall q]\<rparr>"
  have t: "w_trace ?s = w_trace s @ (u @ [Lifecycle (lc (lifecycle request runId isol (is_runtimeClassName isol)
      (Some (cr_templateRef q)) None None PhClaiming)), ClaimCall q])" using 1(1) by simp
  show ?case
  proof (cases "env_claim env q")
    case (Inl e)
    have "ends env required s ?s (Inl e)" by (rule ends_refused [OF t]) (simp add: 1(2))
    then show ?thesis using Inl by (simp add: wp_simps)
  next
    case (Inr claimed)
    show ?thesis
    proof (cases "if cl_status claimed \<noteq> ''claimed'' then None else truthy (cl_sandboxId claimed)")
      case None
      have "wp (claimRefused request env cfg runOptions required runId isol q claimed)
          (\<lambda>x s'. ends env required s s' (Inr x)) (\<lambda>e s'. ends env required s s' (Inl e)) ?s"
        by (rule wp_mono, rule ends_claimRefused; erule ends_append, rule t, simp add: 1(2))
      then show ?thesis using Inr None by (simp add: wp_simps)
    next
      case (Some i)
      have "wp (claimGranted request env runOptions required runId isol timeoutMs (cr_templateRef q) claimed i)
          (\<lambda>x s'. ends env required s s' (Inr x)) (\<lambda>e s'. ends env required s s' (Inl e)) ?s"
        by (rule wp_mono, rule ends_claimGranted [OF Inr]) (use Some in \<open>auto split: if_splits intro: ends_append [OF _ t] simp: 1(2)\<close>)
      then show ?thesis using Inr Some by (simp add: wp_simps)
    qed
  qed
qed

lemma ends_catch:
  assumes "ends env required s s' (Inl e)"
  shows "wp (sandboxCatch env request runOptions required runId isol q e)
    (\<lambda>x s''. ends env required s s'' (Inr x)) (\<lambda>e s''. ends env required s s'' (Inl e)) s'"
proof (cases "required \<or> w_providerRunAttempted s' \<or> w_forceFailClosed s'")
  case True
  then show ?thesis using assms by (simp add: sandboxCatch_def wp_simps)
next
  case False
  obtain u where "w_trace s' = w_trace s @ u" "runs u = []" using assms False by (auto simp: ends_def)
  then show ?thesis using False
    by (simp add: sandboxCatch_def wp_simps split: sum.split) (auto intro: ends_direct)
qed

lemma ends_lifecycle:
  "wp (runWithSandboxLifecycle cfg env request runOptions required runId isol)
    (\<lambda>x s'. ends env required s s' (Inr x)) (\<lambda>e s'. ends env required s s' (Inl e)) s"
  unfolding runWithSandboxLifecycle_def Let_def
  by (simp only: wp_simps, rule wp_mono, rule ends_try)
    (erule ends_append [where u = "[]"], simp, simp, rule ends_catch, erule ends_append [where u = "[]"], simp, simp)

section \<open>The run as a whole\<close>

definition reject_trace :: "'r run_env \<Rightarrow> run_request \<Rightarrow> string \<Rightarrow> int \<Rightarrow> thrown \<Rightarrow> effect list" where
  "reject_trace env request runId mx t =
     (case resolveRejectionReason t of
        None \<Rightarrow> []
      | Some reason \<Rightarrow>
          (let n = resolveActiveRunsForRejection t reason mx;
               workload = resolvePolicyWorkloadMetadata request runId;
               context = resolveDirectiveHarnessContext (rr_metadata request)
           in RecordRejection (rr_sessionId request) n mx reason concurrency_origin #
             (case env_record env (rr_sessionId request) n mx reason concurrency_origin of
                Inl _ \<Rightarrow> []
              | Inr r \<Rightarrow> [RejectionEvent ''policy.concurrency.rejected'' r workload context,
                  RejectionEvent ''policy.rejected'' r workload context])))"

lemma wp_unfold: "(case m s of (s', r) \<Rightarrow> (case r of Inl e \<Rightarrow> E e s' | Inr x \<Rightarrow> Q x s')) = wp m Q E s"
  by (simp add: wp_run)

lemma wp_reserveSlot [wp_simps]:
  "wp (reserveSlot acq env request runId mx) Q E s =
     (case reserve acq (env_owner env) (env_clock env) (env_tokens env) (rr_sessionId request) mx (w_locks s) of
        (l, Inr rv) \<Rightarrow> Q (rv_lease rv) (s\<lparr>w_locks := l\<rparr>)
      | (l, Inl t) \<Rightarrow> E (th_error t) (s\<lparr>w_locks := l, w_trace := w_trace s @ reject_trace env request runId mx t\<rparr>))"
proof -
  obtain l x where r: "reserve acq (env_owner env) (env_clock env) (env_tokens env) (rr_sessionId request) mx (w_locks s) = (l, x)"
    by fastforce
  show ?thesis
  proof (cases x)
    case (Inl t)
    have "wp (reserveSlot acq env request runId mx) Q E s = wp (seqA (case resolveRejectionReason t of
              None \<Rightarrow> okA ()
            | Some reason \<Rightarrow> emitConcurrencyRejection env request runId (resolveActiveRunsForRejection t reason mx) mx reason)
            (throwA (th_error t))) Q E (s\<lparr>w_locks := l\<rparr>)"
      by (simp add: wp_def reserveSlot_def r Inl)
    then show ?thesis
      by (simp add: r Inl wp_simps emitConcurrencyRejection_def reject_trace_def Let_def split: option.split sum.split)
  qed (simp add: wp_def reserveSlot_def r okA_def)
qed

lemma runs_reject [simp]: "runs (reject_trace env request runId mx t) = []"
  by (simp add: reject_trace_def Let_def split: option.split sum.split)

definition sandbox_required :: "athena_config \<Rightarrow> run_request \<Rightarrow> bool" where
  "sandbox_required cfg request \<longleftrightarrow> meta (rr_metadata request) ''sandbox'' = Some ''required'' \<or>
     is_requireSandbox (resolveRuntimeIsolationSelection cfg (rr_metadata request))"

definition finishes :: "athena_config \<Rightarrow> 'r run_env \<Rightarrow> run_request \<Rightarrow> 's run_state \<Rightarrow> 's run_state \<Rightarrow> 'r result \<Rightarrow> bool" where
  "finishes cfg env request s s' r \<longleftrightarrow>
     (\<exists>u. w_trace s' = w_trace s @ u \<and> outcome env (sandbox_required cfg request) u r)"

lemma finishes_refused: "w_trace s' = w_trace s @ u \<Longrightarrow> runs u = [] \<Longrightarrow> finishes cfg env request s s' (Inl e)"
  by (auto simp: finishes_def outcome_def refused_def)

lemma finishes_direct:
  "w_trace s' = w_trace s @ u \<Longrightarrow> runs u = [o'] \<Longrightarrow> env_run env o' = r \<Longrightarrow> \<not> sandbox_required cfg request \<Longrightarrow>
   finishes cfg env request s s' r"
  by (auto simp: finishes_def outcome_def direct_def)

lemma finishes_lifecycle:
  assumes "ends env (sandbox_required cfg request) s2 s3 r" "w_trace s2 = w_trace s @ u" "runs u = []" "w_trace s' = w_trace s3"
  shows "finishes cfg env request s s' r"
  using assms outcome_prefix [OF _ assms(3)] by (auto simp: ends_def finishes_def)

lemma wp_routing [wp_simps]:
  "wp (resolveSandboxRouting cfg env request isol) Q E s =
     (let required = (meta (rr_metadata request) ''sandbox'' = Some ''required'' \<or> is_requireSandbox isol);
          enabled = (case cfg_sandbox cfg of Some c \<Rightarrow> sc_enabled c | None \<Rightarrow> False)
      in if enabled then (case env_available env of
            Inl e \<Rightarrow> E e s
          | Inr available \<Rightarrow> Q \<lparr>rt_enabled = True, rt_required = required, rt_available = available,
              rt_routeThroughSandbox = available\<rparr> s)
        else Q \<lparr>rt_enabled = False, rt_required = required, rt_available = False, rt_routeThroughSandbox = False\<rparr> s)"
  by (simp add: resolveSandboxRouting_def Let_def wp_simps split: sum.split)

lemma finishes_runReserved:
  fixes s s2 :: "'s run_state"
  assumes "rt_required routing = sandbox_required cfg request"
    and "rt_routeThroughSandbox routing \<or> \<not> sandbox_required cfg request"
    and "w_trace s2 = w_trace s @ u" "runs u = []"
  shows "wp (runReserved rel cfg env request runOptions routing runId isol lease)
    (\<lambda>x s'. finishes cfg env request s s' (Inr x)) (\<lambda>e s'. finishes cfg env request s s' (Inl e)) s2"
proof (cases "rt_routeThroughSandbox routing")
  case True
  have f: "finishes cfg env request s s' r \<Longrightarrow> finishes cfg env request s (s'\<lparr>w_locks := x\<rparr>) r" for s' x r
    by (simp add: finishes_def)
  have "wp (runWithSandboxLifecycle cfg env request runOptions (sandbox_required cfg request) runId isol)
      (\<lambda>x s'. finishes cfg env request s s' (Inr x)) (\<lambda>e s'. finishes cfg env request s s' (Inl e)) s2"
    by (rule wp_mono, rule ends_lifecycle; erule finishes_lifecycle, rule assms(3), rule assms(4), rule refl)
  then show ?thesis
  proof (cases lease)
    case (Some l)
    show ?thesis
      by (simp add: runReserved_def wp_simps True assms(1) Some) (rule wp_mono, rule \<open>wp _ _ _ _\<close>, simp_all add: wp_simps f)
  next
    case None
    show ?thesis
      by (simp add: runReserved_def wp_simps True assms(1) None) (rule wp_mono, rule \<open>wp _ _ _ _\<close>, simp_all add: wp_simps)
  qed
next
  case False
  then show ?thesis
    using assms(2-4)
    by (simp add: runReserved_def wp_simps split: sum.split option.split)
      (auto intro: finishes_direct)
qed

lemma policy_run_finishes:
  fixes s :: "'s run_state"
  shows "wp (policy_run acq rel cfg env request options)
    (\<lambda>x s'. finishes cfg env request s s' (Inr x)) (\<lambda>e s'. finishes cfg env request s s' (Inl e)) s"
proof -
  have no: "finishes cfg env request s s (Inl e)" for e by (rule finishes_refused [of _ _ "[]"]) simp_all
  let ?isol = "resolveRuntimeIsolationSelection cfg (rr_metadata request)"
  define enabled where "enabled = (case cfg_sandbox cfg of Some c \<Rightarrow> sc_enabled c | None \<Rightarrow> False)"
  have routed: "wp (runAllowed acq rel cfg env request mc runOptions routing runId ?isol)
      (\<lambda>x s'. finishes cfg env request s s' (Inr x)) (\<lambda>e s'. finishes cfg env request s s' (Inl e)) s2"
    if r: "rt_required routing = sandbox_required cfg request" "rt_routeThroughSandbox routing \<or> \<not> sandbox_required cfg request"
      "w_trace s2 = w_trace s @ u" "runs u = []" for routing mc runOptions runId u and s2 :: "'s run_state"
  proof -
    have ok: "wp (runReserved rel cfg env request runOptions routing runId ?isol lease)
        (\<lambda>x s'. finishes cfg env request s s' (Inr x)) (\<lambda>e s'. finishes cfg env request s s' (Inl e)) (s2\<lparr>w_locks := l\<rparr>)" for lease l
      by (rule finishes_runReserved [OF r(1,2)]) (use r(3,4) in simp_all)
    have ok': "wp (runReserved rel cfg env request runOptions routing runId ?isol lease)
        (\<lambda>x s'. finishes cfg env request s s' (Inr x)) (\<lambda>e s'. finishes cfg env request s s' (Inl e)) s2" for lease
      by (rule finishes_runReserved [OF r])
    show ?thesis
      using ok ok' r(3,4)
      by (simp add: runAllowed_def wp_simps split: option.split prod.split sum.split) (auto intro: finishes_refused)
  qed
  show ?thesis
  proof (cases "env_policy env")
    case (Inl e)
    then show ?thesis by (simp add: policy_run_def wp_simps no)
  next
    case (Inr policy)
    have r: "sandbox_required cfg request = (meta (rr_metadata request) ''sandbox'' = Some ''required'' \<or> is_requireSandbox ?isol)"
      by (simp add: sandbox_required_def)
    show ?thesis
    proof (cases enabled)
      case False
      then show ?thesis
        by (simp add: policy_run_def wp_simps Inr Let_def enabled_def [symmetric] r [symmetric])
          (auto intro: finishes_refused routed [where u = "[]"])
    next
      case True
      then show ?thesis
        by (simp add: policy_run_def wp_simps Inr Let_def enabled_def [symmetric] r [symmetric] no split: sum.split)
          (auto intro: finishes_refused routed [where u = "[]"] routed)
    qed
  qed
qed

section \<open>The locks\<close>

text \<open>The sandbox does not touch the locks.\<close>

named_theorems keeps_intros \<open>actions that keep the locks\<close>

definition keeps :: "('s run_state, 'a) act \<Rightarrow> bool" where
  "keeps m \<longleftrightarrow> (\<forall>s. w_locks (fst (m s)) = w_locks s)"

lemma keeps_basic [keeps_intros]:
  "keeps (okA x)" "keeps (throwA e)" "keeps (liftA r)" "keeps (getA f)" "keeps (call ef)"
  by (simp_all add: keeps_def okA_def throwA_def liftA_def getA_def call_def doA_def)

lemma keeps_doA [keeps_intros]: "(\<And>s. w_locks (f s) = w_locks s) \<Longrightarrow> keeps (doA f)"
  by (simp add: keeps_def doA_def)

lemma keeps_thenA [keeps_intros]:
  assumes "keeps m" "\<And>x. keeps (f x)"
  shows "keeps (thenA m f)"
  unfolding keeps_def
proof
  fix s
  show "w_locks (fst (thenA m f s)) = w_locks s"
    using assms by (cases "m s") (simp add: keeps_def thenA_def split: sum.split, metis fst_conv)
qed

lemma keeps_catchA [keeps_intros]:
  assumes "keeps m" "\<And>e. keeps (h e)"
  shows "keeps (catchA m h)"
  unfolding keeps_def
proof
  fix s
  show "w_locks (fst (catchA m h s)) = w_locks s"
    using assms by (cases "m s") (simp add: keeps_def catchA_def split: sum.split, metis fst_conv)
qed

lemma keeps_finallyA [keeps_intros]:
  assumes "keeps m" "\<And>r. keeps (c r)"
  shows "keeps (finallyA m c)"
  unfolding keeps_def
proof
  fix s
  obtain s1 r where m: "m s = (s1, r)" by (cases "m s")
  obtain s2 q where c: "c r s1 = (s2, q)" by (cases "c r s1")
  have "w_locks s1 = w_locks s" "w_locks s2 = w_locks s1"
    using assms m c unfolding keeps_def by (metis fst_conv)+
  then show "w_locks (fst (finallyA m c s)) = w_locks s"
    by (simp add: finallyA_def m c split: sum.split)
qed

lemma keeps_case [keeps_intros]:
  "(\<And>e. keeps (f e)) \<Longrightarrow> (\<And>x. keeps (g x)) \<Longrightarrow> keeps (case r of Inl e \<Rightarrow> f e | Inr x \<Rightarrow> g x)"
  "keeps m \<Longrightarrow> (\<And>x. keeps (h x)) \<Longrightarrow> keeps (case v of None \<Rightarrow> m | Some x \<Rightarrow> h x)"
  "keeps m \<Longrightarrow> keeps m' \<Longrightarrow> keeps (if b then m else m')"
  "(\<And>x y. keeps (k x y)) \<Longrightarrow> keeps (case p of (x, y) \<Rightarrow> k x y)"
  by (simp_all split: sum.split option.split prod.split)

lemma keeps_events [keeps_intros]:
  "keeps (emitSandboxLifecycleEvent a)" "keeps (emitSandboxEgressDecisionEvent b)"
  "keeps (emitConcurrencyRejection env request runId n mx reason)"
  by (auto simp: emitSandboxLifecycleEvent_def emitSandboxEgressDecisionEvent_def emitConcurrencyRejection_def Let_def
      intro!: keeps_intros)

lemma keeps_runs [keeps_intros]: "keeps (backendRun env options)" "keeps (directRun env options)"
  by (auto simp: backendRun_def directRun_def intro!: keeps_intros)

lemma keeps_finalize [keeps_intros]: "keeps (finalizeSandboxLifecycle env event i reason detail)"
  unfolding finalizeSandboxLifecycle_def by (intro keeps_intros)

lemma keeps_quota [keeps_intros]: "keeps (runWithSandboxQuotaMonitoring env request runOptions i quota)"
  unfolding runWithSandboxQuotaMonitoring_def Let_def by (intro keeps_intros)

lemma keeps_runInSandbox [keeps_intros]: "keeps (runInSandbox request env runOptions i event)"
  unfolding runInSandbox_def Let_def by (intro keeps_intros) simp

lemma keeps_granted [keeps_intros]:
  "keeps (claimGranted request env runOptions required runId isol timeoutMs templateRef claimed i)"
  unfolding claimGranted_def Let_def by (intro keeps_intros) simp

lemma keeps_refused [keeps_intros]: "keeps (claimRefused request env cfg runOptions required runId isol q claimed)"
  unfolding claimRefused_def Let_def by (intro keeps_intros) simp

lemma keeps_checkEgress [keeps_intros]: "keeps (checkEgress request env cfg runId isol)"
  unfolding checkEgress_def Let_def
  by (auto split: prod.split egress_decision.split intro!: keeps_intros)

lemma keeps_lifecycle [keeps_intros]: "keeps (runWithSandboxLifecycle cfg env request runOptions required runId isol)"
  unfolding runWithSandboxLifecycle_def sandboxTry_def sandboxCatch_def Let_def by (intro keeps_intros) simp_all

lemma wp_keeps:
  assumes "keeps m" "\<And>x s'. w_locks s' = w_locks s \<Longrightarrow> Q x s'" "\<And>e s'. w_locks s' = w_locks s \<Longrightarrow> E e s'"
  shows "wp m Q E s"
proof (cases "m s")
  case (Pair s' r)
  then have "w_locks s' = w_locks s" using assms(1) unfolding keeps_def by (metis fst_conv)
  then show ?thesis using assms(2,3) Pair by (simp add: wp_def split: sum.split)
qed

context lease_lock begin

lemma policy_run_leaves:
  assumes "inv (w_locks s)" "\<forall>i. env_clock env i \<le> env_releasedAt env" "env_releasedAt env \<le> t"
  shows "wp (policy_run try_acquire release cfg env request options)
    (\<lambda>_ s'. holder (w_locks s') t l = None \<or> holder (w_locks s') t l = holder (w_locks s) t l)
    (\<lambda>_ s'. holder (w_locks s') t l = None \<or> holder (w_locks s') t l = holder (w_locks s) t l) s"
proof -
  let ?Q = "\<lambda>_ s'. holder (w_locks s') t l = None \<or> holder (w_locks s') t l = holder (w_locks s) t l"
  have reserved: "wp (runReserved release cfg env request runOptions routing runId isol lease) ?Q ?Q s2"
    if "case lease of None \<Rightarrow> w_locks s2 = w_locks s
      | Some rl \<Rightarrow> holder (release (w_locks s2) (env_releasedAt env) rl) t l \<in> {None, holder (w_locks s) t l}"
    for runOptions routing runId isol lease s2
    unfolding runReserved_def wp_finallyA
    by (rule wp_keeps) (use that in \<open>auto simp: wp_simps intro!: keeps_intros split: option.splits\<close>)
  have allowed: "wp (runAllowed try_acquire release cfg env request mc runOptions routing runId isol) ?Q ?Q s2"
    if "w_locks s2 = w_locks s" for mc runOptions routing runId isol s2
  proof -
    have slot: "wp (reserveSlot try_acquire env request runId mx)
        (\<lambda>rl. wp (runReserved release cfg env request runOptions routing runId isol (Some rl)) ?Q ?Q) ?Q s2" for mx
    proof -
      obtain ls res where r: "reserve try_acquire (env_owner env) (env_clock env) (env_tokens env) (rr_sessionId request) mx
          (w_locks s) = (ls, res)" by fastforce
      have lv: "case res of Inl _ \<Rightarrow> holder ls t l = holder (w_locks s) t l
          | Inr rv \<Rightarrow> holder (release ls (env_releasedAt env) (rv_lease rv)) t l \<in> {None, holder (w_locks s) t l}"
        by (rule reserve_leaves [OF assms(1) _ r assms(3)]) (use assms(2) in simp)
      show ?thesis
      proof (cases res)
        case (Inl th)
        then show ?thesis using lv by (simp add: wp_reserveSlot that r)
      next
        case (Inr rv)
        have "wp (runReserved release cfg env request runOptions routing runId isol (Some (rv_lease rv))) ?Q ?Q (s2\<lparr>w_locks := ls\<rparr>)"
          by (rule reserved) (use lv Inr in simp)
        then show ?thesis by (simp only: wp_reserveSlot that r Inr prod.case sum.case)
      qed
    qed
    have none: "wp (runReserved release cfg env request runOptions routing runId isol None) ?Q ?Q s2"
      by (rule reserved) (simp add: that)
    show ?thesis
    proof (cases mc)
      case (Some mx)
      show ?thesis using slot [of mx] none
        by (simp add: runAllowed_def wp_simps Some cong: prod.case_cong sum.case_cong)
    qed (use none in \<open>simp add: runAllowed_def wp_simps\<close>)
  qed
  show ?thesis
    by (simp add: policy_run_def wp_simps Let_def split: sum.split) (auto intro!: allowed)
qed

end

section \<open>Properties\<close>

text \<open>
  C5 How a run ends. Whatever the policy, the request, the locks and the answers of the backends, every run ends
  in one of three ways, which its trace shows: it is refused, with an error and without a call of the execution
  backend; or the request was run once directly, its result is that run's, and this is never so when a sandbox is
  required; or it was run once in a sandbox that had been claimed and reported ready, and after that call the
  sandbox was terminated, with the reason that fits the result, and cleaned up. The backend is never called twice.
\<close>

theorem policy_run_outcome:
  "case policy_run acq rel cfg env request options s of (s', r) \<Rightarrow>
     (\<exists>u. w_trace s' = w_trace s @ u \<and> length (runs u) \<le> 1 \<and>
        (refused u r \<or> (\<not> sandbox_required cfg request \<and> direct env u r) \<or> sandboxed env u r))"
proof -
  obtain s' r where p: "policy_run acq rel cfg env request options s = (s', r)" by fastforce
  have "finishes cfg env request s s' r"
    by (rule wpI [where P = "\<lambda>s' r. finishes cfg env request s s' r", OF policy_run_finishes p])
  then obtain u where u: "w_trace s' = w_trace s @ u" "outcome env (sandbox_required cfg request) u r"
    by (auto simp: finishes_def)
  have "length (runs u) \<le> 1"
    using u(2) by (auto simp: outcome_def refused_def direct_def sandboxed_def)
  with u p show ?thesis by (auto simp: outcome_def)
qed



text \<open>
  C31 Egress fails closed: when a declared destination is not allowed, or cannot be checked, nothing is claimed
  and nothing is run; the run ends with a configuration error that carries the reason, and all it did was to
  report the decision, whether the sandbox is required or not.
\<close>

theorem egress_denied_fails_closed:
  assumes "evaluateSandboxEgressPolicy (resolveSandboxEgressPolicy (meta (rr_metadata request) ''sandboxAllowedEgress''))
      (resolveDeclaredSandboxEgressDestinations (env_urlParse env) (meta (rr_metadata request) ''sandboxEgressDestinations'')
        (ws_syncRepo (resolveSandboxWorkspaceConfig cfg (rr_metadata request)))) = (decision, reason)"
    and "decision \<noteq> EgressAllowed"
    and "runWithSandboxLifecycle cfg env request runOptions required runId isol s = (s', r)"
  shows "r = Inl (AthenaError CONFIG_ERROR reason False) \<and>
    (\<exists>e. w_trace s' = w_trace s @ [EgressDecision e] \<and>
       ee_decision e = (if decision = EgressBlocked then ''blocked'' else ''error''))"
proof -
  have "wp (runWithSandboxLifecycle cfg env request runOptions required runId isol)
      (\<lambda>_ _. False)
      (\<lambda>x s'. x = AthenaError CONFIG_ERROR reason False \<and> (\<exists>e. w_trace s' = w_trace s @ [EgressDecision e] \<and>
         ee_decision e = (if decision = EgressBlocked then ''blocked'' else ''error''))) s"
    using assms(1,2)
    by (cases decision)
      (simp_all add: runWithSandboxLifecycle_def sandboxTry_def sandboxCatch_def checkEgress_def Let_def wp_simps)
  with assms(3) show ?thesis by (auto simp: wp_def split: sum.splits)
qed

section \<open>Concrete runs\<close>

definition demo_cfg :: athena_config where
  "demo_cfg = \<lparr>cfg_runtimeIsolation = None,
     cfg_sandbox = Some \<lparr>sc_enabled = True, sc_requireForHighSecurity = True, sc_workspaceHostPath = None\<rparr>,
     cfg_workspaceRoot = ''/w'', cfg_runtimeRunTimeoutMs = 30000\<rparr>"

definition demo_run_env :: "string \<Rightarrow> nat run_env" where
  "demo_run_env ready = \<lparr>env_policy = Inr None, env_uuid = ''u'', env_available = Inr True,
     env_claim = (\<lambda>_. Inr \<lparr>cl_status = ''claimed'', cl_sandboxId = Some ''sb'', cl_claimName = None, cl_namespace = None,
       cl_runtimeClassName = None, cl_claimedAt = None, cl_reason = None\<rparr>),
     env_waitReady = (\<lambda>_ _. Inr \<lparr>rd_status = ready, rd_observedAt = demo_iso 5, rd_reason = None\<rparr>),
     env_run = (\<lambda>_. Inr 7), env_usages = [], env_terminate = (\<lambda>_. Inr ()), env_cleanup = Inr (),
     env_record = (\<lambda>_ _ _ _ _. Inl (JsError ''down'')), env_now = 3, env_dateParse = demo_date, env_urlParse = (\<lambda>_. None),
     env_owner = ''o'', env_clock = (\<lambda>i. 5), env_tokens = (\<lambda>i. ''t''), env_releasedAt = 50\<rparr>"

definition demo_request :: "(string \<times> string) list \<Rightarrow> run_request" where
  "demo_request m = \<lparr>rr_sessionId = ''s1'', rr_metadata = m\<rparr>"

definition demo_options :: run_options where
  "demo_options = \<lparr>ro_signal = None, ro_onAttachEvidence = False, ro_timeoutMs = None\<rparr>"

definition demo_start :: "file_world run_state" where
  "demo_start = \<lparr>w_locks = demo_slots, w_trace = [], w_claim = None, w_providerRunAttempted = False, w_claimedAtMs = None,
     w_runtimeClassName = None, w_forceFailClosed = False\<rparr>"

abbreviation demo_policy_run :: "string \<Rightarrow> (string \<times> string) list \<Rightarrow> file_world run_state \<times> nat result" where
  "demo_policy_run ready m \<equiv> policy_run (file_tryAcquire demo_iso demo_date 7) file_release demo_cfg (demo_run_env ready)
     (demo_request m) demo_options demo_start"

lemma truthy_Cons: "truthy (Some (c # cs)) = Some (c # cs)"
  by (simp add: truthy_def)

lemmas demo_run_simps = truthy_Cons policy_run_def runAllowed_def runReserved_def runWithSandboxLifecycle_def sandboxTry_def
  sandboxCatch_def checkEgress_def claimGranted_def runInSandbox_def demo_cfg_def demo_run_env_def demo_request_def
  demo_options_def demo_start_def resolveRuntimeIsolationSelection_def normalizeRuntimeIsolationProfile_def
  resolveSandboxEgressPolicy_def resolveDeclaredSandboxEgressDestinations_def parseSandboxEgressAllowList_def
  parseSandboxEgressDestinations_def parseWorkspaceRepoDestination_def dedupeEgressDestinations_def
  resolveSandboxWorkspaceConfig_def normalizeSandboxWorkspaceRepo_def resolveSandboxQuotaConfig_def
  normalizeSandboxQuotaFloat_def normalizeSandboxQuotaInt_def Let_def wp_simps

lemma demo_required_runs:
  "wp (policy_run (file_tryAcquire demo_iso demo_date 7) file_release demo_cfg (demo_run_env ''ready'')
     (demo_request [(''securityLevel'', ''high'')]) demo_options)
     (\<lambda>x s'. x = 7 \<and> (\<exists>o'. BackendRun o' \<in> set (w_trace s'))) (\<lambda>_ _. False) demo_start"
  by (simp add: demo_run_simps) blast



definition demo_denied :: "(string \<times> string) list" where
  "demo_denied = [(''sandboxEgressDestinations'', ''a'')]"

theorem egress_denied_fails_closed_witness:
  "\<exists>s'. runWithSandboxLifecycle demo_cfg (demo_run_env ''ready'') (demo_request demo_denied) demo_options False ''r''
      \<lparr>is_profile = Standard, is_startMode = Cold, is_runtimeClassName = None, is_requireSandbox = False\<rparr> demo_start =
      (s', Inl (AthenaError CONFIG_ERROR (snd (evaluateSandboxEgressPolicy []
         [\<lparr>ed_host = ''a'', ed_port = None, ed_source = FromMetadata\<rparr>])) False)) \<and> length (w_trace s') = 1"
proof -
  let ?d = "[\<lparr>ed_host = ''a'', ed_port = None, ed_source = FromMetadata\<rparr>]"
  have "parseEgressToken ''a'' = Some \<lparr>er_host = ''a'', er_port = None\<rparr>" by code_simp
  then have d: "resolveDeclaredSandboxEgressDestinations (env_urlParse (demo_run_env ''ready'')) (Some ''a'') v = ?d" for v
    by (simp add: resolveDeclaredSandboxEgressDestinations_def parseSandboxEgressDestinations_def demo_run_env_def
        parseWorkspaceRepoDestination_def dedupeEgressDestinations_def List.map_filter_def split: option.split)
  have e: "fst (evaluateSandboxEgressPolicy [] ?d) = EgressBlocked" by code_simp
  obtain s' r where p: "runWithSandboxLifecycle demo_cfg (demo_run_env ''ready'') (demo_request demo_denied) demo_options False ''r''
      \<lparr>is_profile = Standard, is_startMode = Cold, is_runtimeClassName = None, is_requireSandbox = False\<rparr> demo_start = (s', r)"
    by fastforce
  have "evaluateSandboxEgressPolicy (resolveSandboxEgressPolicy (meta (rr_metadata (demo_request demo_denied)) ''sandboxAllowedEgress''))
      (resolveDeclaredSandboxEgressDestinations (env_urlParse (demo_run_env ''ready''))
        (meta (rr_metadata (demo_request demo_denied)) ''sandboxEgressDestinations'')
        (ws_syncRepo (resolveSandboxWorkspaceConfig demo_cfg (rr_metadata (demo_request demo_denied))))) =
      (EgressBlocked, snd (evaluateSandboxEgressPolicy [] ?d))"
    using e by (simp add: demo_request_def demo_denied_def d resolveSandboxEgressPolicy_def parseSandboxEgressAllowList_def
        prod_eq_iff)
  from egress_denied_fails_closed [OF this _ p] p show ?thesis by (auto simp: demo_start_def)
qed


end
