(* ===== verification/WorkQueue.thy ===== *)
theory WorkQueue
  imports Effects RejectionLog
begin

text \<open>
  The work queues of sessions, \<open>WorkManager\<close> of \<open>work/index.ts\<close>: \<open>enqueue\<close> with its deduplication and
  \<open>drain\<close>, which hands the stored items to a handler, batch by batch, while it holds the session's lock.

  The world holds the queue file of every session and the set of the sessions this process drains. What the
  code only calls acts on the rest of the world, \<open>'w\<close>: the clock, \<open>randomUUID\<close>, the lock file (its protocol is
  theory SessionLock) and the write of a file, which may throw and then leaves the old file because it is
  renamed into place. The lock keeps other writers of a session's file away while an operation runs.
\<close>

section \<open>State\<close>

datatype work_mode = Followup | Collect
datatype dedupe_mode = DedupeKey | DedupePayload | DedupeNone
datatype drop_policy = KeepOld | KeepNew

record work_item =
  wi_id :: string
  wi_session :: string
  wi_payload :: string
  wi_mode :: work_mode
  wi_key :: "string option"
  wi_created :: time

record work_queue =
  wq_version :: nat
  wq_session :: string
  wq_items :: "work_item list"
  wq_draining :: bool
  wq_updated :: time

record enqueue_request =
  er_session :: string
  er_payload :: string
  er_mode :: work_mode
  er_key :: "string option"
  er_dedupe :: "dedupe_mode option"
  er_drop :: "drop_policy option"

record drain_batch =
  db_session :: string
  db_mode :: work_mode
  db_payload :: string
  db_items :: "work_item list"

datatype drain_status = DrainOk | AlreadyDraining

record drain_result =
  dr_drained :: nat
  dr_status :: drain_status
  dr_before :: nat
  dr_after :: nat

text \<open>
  A queue file as \<open>JSON.parse\<close> reads it (\<open>items\<close> may be missing), or a file that cannot be read or parsed.
\<close>

datatype queue_file = QueueFile "work_item list option" bool time | BadQueueFile error

record 'w work_world =
  ww_files :: "string \<Rightarrow> queue_file option"
  ww_draining :: "string list"
  ww_outer :: 'w

record 'w work_env =
  we_now :: "'w \<Rightarrow> time"
  we_uuid :: "'w \<Rightarrow> 'w \<times> string"
  we_acquire :: "string \<Rightarrow> ('w, unit) act"
  we_release :: "string \<Rightarrow> ('w, unit) act"
  we_write :: "string \<Rightarrow> ('w, unit) act"

definition outerA :: "('w, 'a) act \<Rightarrow> ('w work_world, 'a) act" where
  "outerA m = (\<lambda>s. case m (ww_outer s) of (w, r) \<Rightarrow> (s\<lparr>ww_outer := w\<rparr>, r))"

section \<open>Loading and saving\<close>

definition WORK_QUEUE_SCHEMA_VERSION :: nat where
  "WORK_QUEUE_SCHEMA_VERSION = 1"

definition createEmptyQueue :: "string \<Rightarrow> time \<Rightarrow> work_queue" where
  "createEmptyQueue sid t = \<lparr>wq_version = WORK_QUEUE_SCHEMA_VERSION, wq_session = sid, wq_items = [],
     wq_draining = False, wq_updated = t\<rparr>"

definition migrateQueue :: "work_queue \<Rightarrow> work_queue" where
  "migrateQueue q = q\<lparr>wq_version := WORK_QUEUE_SCHEMA_VERSION\<rparr>"

definition loadQueueUnlocked :: "'w work_env \<Rightarrow> string \<Rightarrow> ('w work_world, work_queue) act" where
  "loadQueueUnlocked env sid = thenA (getA (\<lambda>s. (ww_files s sid, we_now env (ww_outer s)))) (\<lambda>(f, t).
     case f of
       None \<Rightarrow> okA (createEmptyQueue sid t)
     | Some (BadQueueFile e) \<Rightarrow> throwA e
     | Some (QueueFile items draining updated) \<Rightarrow>
         okA (migrateQueue \<lparr>wq_version = 0, wq_session = sid, wq_items = (case items of None \<Rightarrow> [] | Some xs \<Rightarrow> xs),
           wq_draining = draining, wq_updated = updated\<rparr>))"

definition saveQueue :: "'w work_env \<Rightarrow> work_queue \<Rightarrow> ('w work_world, unit) act" where
  "saveQueue env q = seqA (outerA (we_write env (wq_session q)))
     (doA (\<lambda>s. s\<lparr>ww_files := (ww_files s)(wq_session q \<mapsto> QueueFile (Some (wq_items q)) (wq_draining q) (wq_updated q))\<rparr>))"

definition touch :: "'w work_env \<Rightarrow> work_queue \<Rightarrow> ('w work_world, work_queue) act" where
  "touch env q = getA (\<lambda>s. q\<lparr>wq_updated := we_now env (ww_outer s)\<rparr>)"

definition withSessionLock :: "'w work_env \<Rightarrow> string \<Rightarrow> ('w work_world, 'a) act \<Rightarrow> ('w work_world, 'a) act" where
  "withSessionLock env sid m = seqA (outerA (we_acquire env sid)) (finallyA m (\<lambda>_. outerA (we_release env sid)))"

definition loadQueue :: "'w work_env \<Rightarrow> string \<Rightarrow> ('w work_world, work_queue) act" where
  "loadQueue env sid = seqA (liftA (assertValidSessionId sid)) (loadQueueUnlocked env sid)"

section \<open>Enqueue\<close>

definition new_item :: "enqueue_request \<Rightarrow> string \<Rightarrow> time \<Rightarrow> work_item" where
  "new_item r uid t = \<lparr>wi_id = uid, wi_session = er_session r, wi_payload = er_payload r, wi_mode = er_mode r,
     wi_key = (if er_key r = Some [] then None else er_key r), wi_created = t\<rparr>"

definition duplicates :: "dedupe_mode \<Rightarrow> work_item \<Rightarrow> work_item \<Rightarrow> bool" where
  "duplicates m i x = (case m of
      DedupeNone \<Rightarrow> False
    | DedupeKey \<Rightarrow> wi_key i \<noteq> None \<and> wi_key x = wi_key i
    | DedupePayload \<Rightarrow> wi_payload x = wi_payload i \<and> wi_mode x = wi_mode i)"

definition place_item :: "dedupe_mode \<Rightarrow> drop_policy \<Rightarrow> work_item \<Rightarrow> work_item list \<Rightarrow> work_item list option" where
  "place_item m d i items = (case find_index (duplicates m i) items of
      Some k \<Rightarrow> if d = KeepOld then None else Some (items[k := i])
    | None \<Rightarrow> Some (items @ [i]))"

definition enqueue :: "'w work_env \<Rightarrow> enqueue_request \<Rightarrow> ('w work_world, work_queue) act" where
  "enqueue env r = seqA (liftA (assertValidSessionId (er_session r)))
     (withSessionLock env (er_session r)
       (thenA (loadQueueUnlocked env (er_session r)) (\<lambda>q.
        thenA (outerA (\<lambda>w. case we_uuid env w of (w', u) \<Rightarrow> (w', Inr (new_item r u (we_now env w'))))) (\<lambda>i.
        case place_item (case er_dedupe r of None \<Rightarrow> DedupePayload | Some m \<Rightarrow> m)
               (case er_drop r of None \<Rightarrow> KeepOld | Some d \<Rightarrow> d) i (wq_items q) of
          None \<Rightarrow> okA q
        | Some items \<Rightarrow> thenA (touch env (q\<lparr>wq_items := items\<rparr>)) (\<lambda>q'. seqA (saveQueue env q') (okA q'))))))"

section \<open>Drain\<close>

definition buildNextBatch :: "work_queue \<Rightarrow> drain_batch result" where
  "buildNextBatch q = (case wq_items q of
      [] \<Rightarrow> Inl (JsError ''Cannot build drain batch for empty queue'')
    | first # _ \<Rightarrow>
        if wi_mode first = Followup
        then Inr \<lparr>db_session = wq_session q, db_mode = Followup, db_payload = wi_payload first, db_items = [first]\<rparr>
        else (let items = takeWhile (\<lambda>i. wi_mode i = Collect) (wq_items q) in
          Inr \<lparr>db_session = wq_session q, db_mode = Collect, db_payload = join [CHR 0x0A, CHR 0x0A] (map wi_payload items),
            db_items = items\<rparr>))"

definition remove_items :: "work_item list \<Rightarrow> work_item list \<Rightarrow> work_item list" where
  "remove_items gone items = filter (\<lambda>i. wi_id i \<notin> wi_id ` set gone) items"

text \<open>One round of the loop: a batch is handed over, removed and the queue is saved.\<close>

definition drain_round :: "'w work_env \<Rightarrow> (drain_batch \<Rightarrow> ('w, unit) act) \<Rightarrow> work_queue \<Rightarrow> ('w work_world, work_queue \<times> nat) act" where
  "drain_round env handler q = thenA (liftA (buildNextBatch q)) (\<lambda>b.
     seqA (outerA (handler b))
     (thenA (touch env (q\<lparr>wq_items := remove_items (db_items b) (wq_items q)\<rparr>)) (\<lambda>q'.
      seqA (saveQueue env q') (okA (q', length (db_items b))))))"

partial_function (option) drain_loop :: "'w work_env \<Rightarrow> (drain_batch \<Rightarrow> ('w, unit) act) \<Rightarrow> work_queue \<Rightarrow> nat \<Rightarrow> 'w work_world \<Rightarrow>
    ('w work_world \<times> (work_queue \<times> nat) result) option" where
  "drain_loop env handler q n s = (if wq_items q = [] then Some (s, Inr (q, n))
     else (case drain_round env handler q s of
        (s', Inl e) \<Rightarrow> Some (s', Inl e)
      | (s', Inr (q', k)) \<Rightarrow> drain_loop env handler q' (n + k) s'))"

definition drain_start :: "'w work_env \<Rightarrow> string \<Rightarrow> ('w work_world, work_queue) act" where
  "drain_start env sid = thenA (loadQueueUnlocked env sid) (\<lambda>q.
     thenA (touch env (q\<lparr>wq_draining := True\<rparr>)) (\<lambda>q'. seqA (saveQueue env q') (okA q')))"

text \<open>The finally clause; an error of its own is thrown only if the body did not throw.\<close>

definition clear_draining :: "'w work_env \<Rightarrow> string \<Rightarrow> ('w work_world, unit) act" where
  "clear_draining env sid = thenA (loadQueueUnlocked env sid) (\<lambda>q.
     if wq_draining q then thenA (touch env (q\<lparr>wq_draining := False\<rparr>)) (saveQueue env) else okA ())"

definition drain_cleanup :: "'w work_env \<Rightarrow> string \<Rightarrow> 'w work_world \<times> drain_result result \<Rightarrow> 'w work_world \<times> drain_result result" where
  "drain_cleanup env sid = (\<lambda>(s, r). case clear_draining env sid s of
      (s', Inl e) \<Rightarrow> (s', case r of Inl d \<Rightarrow> Inl d | Inr _ \<Rightarrow> Inl e)
    | (s', Inr _) \<Rightarrow> (s', r))"

definition drain_locked :: "'w work_env \<Rightarrow> string \<Rightarrow> (drain_batch \<Rightarrow> ('w, unit) act) \<Rightarrow> 'w work_world \<Rightarrow>
    ('w work_world \<times> drain_result result) option" where
  "drain_locked env sid handler s = map_option (drain_cleanup env sid)
     (case drain_start env sid s of
        (s', Inl e) \<Rightarrow> Some (s', Inl e)
      | (s', Inr q) \<Rightarrow> map_option (\<lambda>(s'', r). (s'', bindR r (\<lambda>(q', n).
            Inr \<lparr>dr_drained = n, dr_status = DrainOk, dr_before = length (wq_items q), dr_after = length (wq_items q')\<rparr>)))
          (drain_loop env handler q 0 s'))"

definition already_draining :: "'w work_env \<Rightarrow> string \<Rightarrow> ('w work_world, drain_result) act" where
  "already_draining env sid = thenA (loadQueue env sid) (\<lambda>q. okA \<lparr>dr_drained = 0, dr_status = AlreadyDraining,
     dr_before = length (wq_items q), dr_after = length (wq_items q)\<rparr>)"

definition unmark_draining :: "string \<Rightarrow> 'w work_world \<Rightarrow> 'w work_world" where
  "unmark_draining sid s = s\<lparr>ww_draining := remove1 sid (ww_draining s)\<rparr>"

text \<open>\<open>None\<close> is a drain that never returns.\<close>

definition drain :: "'w work_env \<Rightarrow> string \<Rightarrow> (drain_batch \<Rightarrow> ('w, unit) act) \<Rightarrow> 'w work_world \<Rightarrow>
    ('w work_world \<times> drain_result result) option" where
  "drain env sid handler s = (case assertValidSessionId sid of
      Inl e \<Rightarrow> Some (s, Inl e)
    | Inr _ \<Rightarrow>
        if sid \<in> set (ww_draining s) then Some (already_draining env sid s)
        else (case outerA (we_acquire env sid) (s\<lparr>ww_draining := js_add (ww_draining s) sid\<rparr>) of
            (s1, Inl e) \<Rightarrow> Some (unmark_draining sid s1, Inl e)
          | (s1, Inr _) \<Rightarrow> map_option (\<lambda>(s2, r). case outerA (we_release env sid) s2 of
                (s3, Inl e) \<Rightarrow> (unmark_draining sid s3, Inl e)
              | (s3, Inr _) \<Rightarrow> (unmark_draining sid s3, r)) (drain_locked env sid handler s1)))"

section \<open>A drain always returns\<close>

lemma remove_items_prefix:
  "distinct (map wi_id (xs @ ys)) \<Longrightarrow> remove_items xs (xs @ ys) = ys"
  by (auto simp: remove_items_def filter_empty_conv intro!: filter_True)

lemma remove_items_first: "x \<in> set gone \<Longrightarrow> x \<in> set items \<Longrightarrow> length (remove_items gone items) < length items"
  unfolding remove_items_def by (rule length_filter_less) auto

lemma batch_first:
  "buildNextBatch q = Inr b \<Longrightarrow> \<exists>x \<in> set (db_items b). x \<in> set (wq_items q)"
  by (auto simp: buildNextBatch_def Let_def split: list.splits if_splits) (use work_mode.exhaust in auto)

lemma drain_round_shrinks:
  "drain_round env h q s = (s', Inr (q', k)) \<Longrightarrow> length (wq_items q') < length (wq_items q)"
proof -
  have "wp (drain_round env h q) (\<lambda>(q', k) _. length (wq_items q') < length (wq_items q)) (\<lambda>_ _. True) s"
  proof (cases "buildNextBatch q")
    case (Inr b)
    then obtain x where "x \<in> set (db_items b)" "x \<in> set (wq_items q)" using batch_first by blast
    then have l: "length (remove_items (db_items b) (wq_items q)) < length (wq_items q)" by (rule remove_items_first)
    show ?thesis
      by (simp add: drain_round_def wp_simps Inr touch_def saveQueue_def wp_def [of "outerA m" for m] l split: prod.split sum.split)
  qed (simp add: drain_round_def wp_simps)
  then show "drain_round env h q s = (s', Inr (q', k)) \<Longrightarrow> length (wq_items q') < length (wq_items q)"
    by (simp add: wp_def)
qed

lemma drain_loop_returns: "drain_loop env h q n s \<noteq> None"
proof (induction "length (wq_items q)" arbitrary: q n s rule: less_induct)
  case less
  show ?case
    by (subst drain_loop.simps) (auto split: prod.split sum.split simp del: not_None_eq dest: less [OF drain_round_shrinks])
qed


section \<open>What a drain hands over\<close>

text \<open>The reference: the items cut into single follow-ups and maximal groups of collected items.\<close>

function batches :: "string \<Rightarrow> work_item list \<Rightarrow> drain_batch list" where
  "batches sid [] = []"
| "batches sid (i # xs) = (if wi_mode i = Followup
     then \<lparr>db_session = sid, db_mode = Followup, db_payload = wi_payload i, db_items = [i]\<rparr> # batches sid xs
     else (let g = i # takeWhile (\<lambda>i. wi_mode i = Collect) xs in
       \<lparr>db_session = sid, db_mode = Collect, db_payload = join [CHR 0x0A, CHR 0x0A] (map wi_payload g), db_items = g\<rparr>
         # batches sid (dropWhile (\<lambda>i. wi_mode i = Collect) xs)))"
  by pat_completeness auto
termination
  by (relation "measure (length \<circ> snd)") (auto simp: less_Suc_eq_le length_dropWhile_le)

fun hand_over :: "(drain_batch \<Rightarrow> ('w, unit) act) \<Rightarrow> drain_batch list \<Rightarrow> 'w \<Rightarrow> 'w \<times> unit result \<times> drain_batch list" where
  "hand_over h [] w = (w, Inr (), [])"
| "hand_over h (b # bs) w = (case h b w of (w', Inl e) \<Rightarrow> (w', Inl e, b # bs) | (w', Inr _) \<Rightarrow> hand_over h bs w')"

definition items_of :: "drain_batch list \<Rightarrow> work_item list" where
  "items_of bs = concat (map db_items bs)"

lemma items_of_batches: "items_of (batches sid items) = items"
  by (induction sid items rule: batches.induct) (simp_all add: items_of_def Let_def)

text \<open>No error of the file system or of the lock file.\<close>

definition quiet :: "'w work_env \<Rightarrow> bool" where
  "quiet env \<longleftrightarrow> (\<forall>sid w. we_write env sid w = (w, Inr ()) \<and> we_acquire env sid w = (w, Inr ()) \<and> we_release env sid w = (w, Inr ()))"

lemma batches_step:
  assumes "items \<noteq> []" "distinct (map wi_id items)" "wq_items q = items" "wq_session q = sid"
  obtains b bs where "batches sid items = b # bs" "buildNextBatch q = Inr b"
    "bs = batches sid (remove_items (db_items b) items)" "db_items b @ remove_items (db_items b) items = items"
proof (cases items)
  case (Cons i xs)
  let ?c = "\<lambda>i. wi_mode i = Collect"
  show ?thesis
  proof (cases "wi_mode i = Followup")
    case True
    have "remove_items [i] ([i] @ xs) = xs" by (rule remove_items_prefix) (use assms(2) Cons in simp)
    then show ?thesis using True assms Cons that by (simp add: buildNextBatch_def)
  next
    case False
    then have c: "?c i" using work_mode.exhaust by blast
    let ?g = "takeWhile ?c items" and ?r = "dropWhile ?c items"
    have "remove_items ?g (?g @ ?r) = ?r"
      by (rule remove_items_prefix) (use assms(2) in simp)
    then have r: "remove_items ?g items = ?r" by simp
    let ?b = "\<lparr>db_session = sid, db_mode = Collect, db_payload = join [CHR 0x0A, CHR 0x0A] (map wi_payload ?g), db_items = ?g\<rparr>"
    have "batches sid items = ?b # batches sid ?r" "buildNextBatch q = Inr ?b"
      using c assms Cons by (simp_all add: buildNextBatch_def Let_def)
    then show ?thesis by (rule that) (simp_all add: r)
  qed
qed (use assms in simp)

lemma outer_quiet [simp]:
  assumes "quiet env"
  shows "outerA (we_write env sid) s = (s, Inr ())" "outerA (we_acquire env sid) s = (s, Inr ())"
    "outerA (we_release env sid) s = (s, Inr ())"
  using assms by (simp_all add: outerA_def quiet_def)

lemma saveQueue_quiet:
  "quiet env \<Longrightarrow> saveQueue env q s =
     (s\<lparr>ww_files := (ww_files s)(wq_session q \<mapsto> QueueFile (Some (wq_items q)) (wq_draining q) (wq_updated q))\<rparr>, Inr ())"
  by (simp add: saveQueue_def thenA_def doA_def)

lemma drain_round_quiet:
  assumes "quiet env" "buildNextBatch q = Inr b"
  shows "drain_round env h q s = (case h b (ww_outer s) of
      (w, Inl e) \<Rightarrow> (s\<lparr>ww_outer := w\<rparr>, Inl e)
    | (w, Inr _) \<Rightarrow> (s\<lparr>ww_files := (ww_files s)(wq_session q \<mapsto>
           QueueFile (Some (remove_items (db_items b) (wq_items q))) (wq_draining q) (we_now env w)), ww_outer := w\<rparr>,
         Inr (q\<lparr>wq_items := remove_items (db_items b) (wq_items q), wq_updated := we_now env w\<rparr>, length (db_items b))))"
  using assms
  by (simp add: drain_round_def thenA_def liftA_def okA_def getA_def touch_def saveQueue_quiet outerA_def split: prod.split sum.split)

lemma drain_loop_quiet:
  assumes "quiet env" "distinct (map wi_id (wq_items q))" "wq_draining q"
    "ww_files s (wq_session q) = Some (QueueFile (Some (wq_items q)) True t)"
    "hand_over h (batches (wq_session q) (wq_items q)) (ww_outer s) = (w', r, left)"
  shows "\<exists>t' q'. drain_loop env h q n s =
      Some (s\<lparr>ww_files := (ww_files s)(wq_session q \<mapsto> QueueFile (Some (items_of left)) True t'), ww_outer := w'\<rparr>,
        bindR r (\<lambda>_. Inr (q', n + length (wq_items q)))) \<and> (r = Inr () \<longrightarrow> left = [] \<and> wq_items q' = [])"
  using assms(2-)
proof (induction "length (wq_items q)" arbitrary: q n s t rule: less_induct)
  case less
  show ?case
  proof (cases "wq_items q = []")
    case True
    then have "w' = ww_outer s" "r = Inr ()" "left = []" using less.prems by auto
    moreover have "(ww_files s)(wq_session q \<mapsto> QueueFile (Some []) True t) = ww_files s"
      using less.prems(3) True by auto
    ultimately show ?thesis
      using True by (intro exI [of _ t] exI [of _ q]) (simp add: drain_loop.simps items_of_def)
  next
    case False
    let ?sid = "wq_session q"
    obtain b bs where b: "batches ?sid (wq_items q) = b # bs" "buildNextBatch q = Inr b"
      "bs = batches ?sid (remove_items (db_items b) (wq_items q))"
      "db_items b @ remove_items (db_items b) (wq_items q) = wq_items q"
      using batches_step [OF False less.prems(1) refl refl] by metis
    obtain w1 r1 where h: "h b (ww_outer s) = (w1, r1)" by fastforce
    show ?thesis
    proof (cases r1)
      case (Inl e)
      then have "w' = w1" "r = Inl e" "left = b # bs" using less.prems(4) b(1) h by auto
      moreover have "items_of (b # bs) = wq_items q"
        using items_of_batches [of ?sid "wq_items q"] b(1) by simp
      moreover have "(ww_files s)(?sid \<mapsto> QueueFile (Some (wq_items q)) True t) = ww_files s"
        using less.prems(3) by auto
      ultimately show ?thesis
        using False Inl h by (intro exI [of _ t]) (simp add: drain_loop.simps drain_round_quiet [OF assms(1) b(2)])
    next
      case (Inr u)
      let ?rest = "remove_items (db_items b) (wq_items q)"
      let ?q = "q\<lparr>wq_items := ?rest, wq_updated := we_now env w1\<rparr>"
      let ?s = "s\<lparr>ww_files := (ww_files s)(?sid \<mapsto> QueueFile (Some ?rest) True (we_now env w1)), ww_outer := w1\<rparr>"
      have loop: "drain_loop env h q n s = drain_loop env h ?q (n + length (db_items b)) ?s"
        using False Inr h less.prems(2)
        by (subst drain_loop.simps) (simp add: drain_round_quiet [OF assms(1) b(2)])
      have l: "length (db_items b) + length ?rest = length (wq_items q)"
        by (simp add: b(4) flip: length_append)
      have "length ?rest < length (wq_items q)"
        using batch_first [OF b(2)] remove_items_first by blast
      moreover have "distinct (map wi_id ?rest)"
        using less.prems(1) by (simp add: remove_items_def distinct_map_filter)
      moreover have "hand_over h bs w1 = (w', r, left)" using less.prems(4) b(1) h Inr by simp
      ultimately obtain t' q' where
        "drain_loop env h ?q (n + length (db_items b)) ?s =
           Some (?s\<lparr>ww_files := (ww_files ?s)(?sid \<mapsto> QueueFile (Some (items_of left)) True t'), ww_outer := w'\<rparr>,
             bindR r (\<lambda>_. Inr (q', n + length (db_items b) + length ?rest)))"
        "r = Inr () \<longrightarrow> left = [] \<and> wq_items q' = []"
        using less.hyps [of ?q ?s "we_now env w1" "n + length (db_items b)"] less.prems(2) b(3) by auto
      then show ?thesis using l loop by (intro exI [of _ t'] exI [of _ q']) (simp add: add.assoc)
    qed
  qed
qed

text \<open>What a session's file holds; \<open>None\<close> if it cannot be read.\<close>

definition stored_items :: "'w work_world \<Rightarrow> string \<Rightarrow> work_item list option" where
  "stored_items s sid = (case ww_files s sid of None \<Rightarrow> Some [] | Some (BadQueueFile _) \<Rightarrow> None
     | Some (QueueFile items _ _) \<Rightarrow> Some (case items of None \<Rightarrow> [] | Some xs \<Rightarrow> xs))"

lemma load_stored:
  assumes "stored_items s sid = Some items"
  obtains q where "loadQueueUnlocked env sid s = (s, Inr q)" "wq_items q = items" "wq_session q = sid"
  using assms that
  by (auto simp: stored_items_def loadQueueUnlocked_def thenA_def getA_def okA_def createEmptyQueue_def migrateQueue_def
      split: option.splits queue_file.splits)

lemma drain_start_quiet:
  assumes "quiet env" "stored_items s sid = Some items"
  shows "\<exists>q t. drain_start env sid s = (s\<lparr>ww_files := (ww_files s)(sid \<mapsto> QueueFile (Some items) True t)\<rparr>, Inr q) \<and>
    wq_items q = items \<and> wq_session q = sid \<and> wq_draining q"
proof -
  obtain q where "loadQueueUnlocked env sid s = (s, Inr q)" "wq_items q = items" "wq_session q = sid"
    using load_stored [OF assms(2)] .
  then show ?thesis
    by (auto simp: drain_start_def thenA_def touch_def getA_def okA_def saveQueue_quiet [OF assms(1)])
qed

lemma clear_draining_quiet:
  assumes "quiet env" "ww_files s sid = Some (QueueFile (Some items) True t)"
  shows "\<exists>t'. clear_draining env sid s = (s\<lparr>ww_files := (ww_files s)(sid \<mapsto> QueueFile (Some items) False t')\<rparr>, Inr ())"
  using assms
  by (auto simp: clear_draining_def loadQueueUnlocked_def thenA_def touch_def getA_def okA_def migrateQueue_def saveQueue_quiet)

text \<open>
  C14 A drain hands the stored items to the handler as the reference cuts them into batches, in order
  and each item once. If every batch is handled the file is left empty and the result counts the items; if the
  handler throws, the error is passed on and the file keeps exactly the items of the batches from that one on. The
  file's draining flag is cleared, the session is no longer marked and no other file is touched in either case.
\<close>

theorem drain_hands_over:
  assumes "quiet env" "assertValidSessionId sid = Inr ()" "sid \<notin> set (ww_draining s)"
    "stored_items s sid = Some items" "distinct (map wi_id items)"
    "hand_over h (batches sid items) (ww_outer s) = (w', r, left)"
  shows "\<exists>t. drain env sid h s =
    Some (s\<lparr>ww_outer := w', ww_files := (ww_files s)(sid \<mapsto> QueueFile (Some (items_of left)) False t)\<rparr>,
      bindR r (\<lambda>_. Inr \<lparr>dr_drained = length items, dr_status = DrainOk, dr_before = length items, dr_after = 0\<rparr>))"
proof -
  let ?s = "s\<lparr>ww_draining := js_add (ww_draining s) sid\<rparr>"
  obtain q t where q: "drain_start env sid ?s = (?s\<lparr>ww_files := (ww_files s)(sid \<mapsto> QueueFile (Some items) True t)\<rparr>, Inr q)"
    "wq_items q = items" "wq_session q = sid" "wq_draining q"
    using drain_start_quiet [OF assms(1), of ?s sid items] assms(4) by (auto simp: stored_items_def)
  let ?s1 = "?s\<lparr>ww_files := (ww_files s)(sid \<mapsto> QueueFile (Some items) True t)\<rparr>"
  obtain t' q' where l: "drain_loop env h q 0 ?s1 =
      Some (?s1\<lparr>ww_files := (ww_files ?s1)(sid \<mapsto> QueueFile (Some (items_of left)) True t'), ww_outer := w'\<rparr>,
        bindR r (\<lambda>_. Inr (q', length items)))" "r = Inr () \<longrightarrow> wq_items q' = []"
    using drain_loop_quiet [OF assms(1), of q ?s1 t h w' r left 0] q assms(5,6) by auto
  let ?s2 = "?s1\<lparr>ww_files := (ww_files ?s1)(sid \<mapsto> QueueFile (Some (items_of left)) True t'), ww_outer := w'\<rparr>"
  obtain t'' where c: "clear_draining env sid ?s2 =
      (?s2\<lparr>ww_files := (ww_files ?s2)(sid \<mapsto> QueueFile (Some (items_of left)) False t'')\<rparr>, Inr ())"
    using clear_draining_quiet [OF assms(1), of ?s2 sid "items_of left" t'] by auto
  have "drain_locked env sid h ?s = Some (?s2\<lparr>ww_files := (ww_files ?s2)(sid \<mapsto> QueueFile (Some (items_of left)) False t'')\<rparr>,
      bindR r (\<lambda>_. Inr \<lparr>dr_drained = length items, dr_status = DrainOk, dr_before = length items, dr_after = 0\<rparr>))"
    using q l c by (cases r) (simp_all add: drain_locked_def drain_cleanup_def)
  then show ?thesis
    using assms(1-3) by (auto simp: drain_def unmark_draining_def js_add_def remove1_append)
qed

definition quiet_env :: "time work_env" where
  "quiet_env = \<lparr>we_now = (\<lambda>w. w), we_uuid = (\<lambda>w. (w + 1, ''u'')), we_acquire = (\<lambda>_ w. (w, Inr ())), we_release = (\<lambda>_ w. (w, Inr ())),
     we_write = (\<lambda>_ w. (w, Inr ()))\<rparr>"

definition demo_work :: "string \<Rightarrow> work_mode \<Rightarrow> work_item" where
  "demo_work u m = \<lparr>wi_id = u, wi_session = ''s'', wi_payload = u, wi_mode = m, wi_key = None, wi_created = 0\<rparr>"

definition demo_works :: "work_item list" where
  "demo_works = [demo_work ''a'' Collect, demo_work ''b'' Collect, demo_work ''c'' Followup, demo_work ''d'' Collect]"

definition demo_drain :: "time work_world" where
  "demo_drain = \<lparr>ww_files = (\<lambda>_. Some (QueueFile (Some demo_works) False 0)), ww_draining = [], ww_outer = 5\<rparr>"

definition demo_handler :: "drain_batch \<Rightarrow> (time, unit) act" where
  "demo_handler b = (\<lambda>w. (w + 1, if db_payload b = ''d'' then Inl (JsError ''no'') else Inr ()))"

theorem drain_hands_over_witness:
  "\<exists>t. drain quiet_env ''s'' demo_handler demo_drain =
    Some (demo_drain\<lparr>ww_outer := 8, ww_files := (ww_files demo_drain)(''s'' \<mapsto> QueueFile (Some [demo_work ''d'' Collect]) False t)\<rparr>,
      Inl (JsError ''no''))"
proof -
  have "hand_over demo_handler (batches ''s'' demo_works) 5 = (8, Inl (JsError ''no''),
      [\<lparr>db_session = ''s'', db_mode = Collect, db_payload = ''d'', db_items = [demo_work ''d'' Collect]\<rparr>])"
    by (simp add: demo_works_def demo_work_def demo_handler_def)
  moreover have "quiet quiet_env" by (simp add: quiet_def quiet_env_def)
  ultimately show ?thesis
    using drain_hands_over [of quiet_env "''s''" demo_drain demo_works demo_handler 8 "Inl (JsError ''no'')"]
    by (simp add: demo_drain_def stored_items_def assertValidSessionId_def demo_works_def demo_work_def items_of_def)
qed

section \<open>Deduplication\<close>

definition item_key :: "work_item \<Rightarrow> string \<times> work_mode" where
  "item_key i = (wi_payload i, wi_mode i)"

lemma place_item_payload:
  "map item_key (case place_item DedupePayload d i items of None \<Rightarrow> items | Some xs \<Rightarrow> xs) = js_add (map item_key items) (item_key i)"
proof (cases "find_index (duplicates DedupePayload i) items")
  case None
  then have "item_key i \<notin> item_key ` set items"
    by (auto simp: find_index_None duplicates_def item_key_def)
  then show ?thesis using None by (simp add: place_item_def js_add_def)
next
  case (Some k)
  then have k: "k < length items" "item_key (items ! k) = item_key i"
    using find_index_Some [OF Some] by (auto simp: duplicates_def item_key_def)
  then have "item_key i \<in> item_key ` set items" by (metis image_eqI nth_mem)
  moreover have "map item_key (items[k := i]) = map item_key items"
    using k by (simp add: map_update list_update_same_conv)
  ultimately show ?thesis using Some by (simp add: place_item_def js_add_def)
qed

lemma enqueue_stored:
  assumes "quiet env" "assertValidSessionId (er_session r) = Inr ()" "stored_items s (er_session r) = Some items"
  obtains s' q i where "enqueue env r s = (s', Inr q)" "stored_items s' (er_session r) = Some (wq_items q)"
    "wq_items q = (case place_item (case er_dedupe r of None \<Rightarrow> DedupePayload | Some m \<Rightarrow> m)
               (case er_drop r of None \<Rightarrow> KeepOld | Some d \<Rightarrow> d) i items of None \<Rightarrow> items | Some xs \<Rightarrow> xs)"
    "item_key i = (er_payload r, er_mode r)" "\<And>sid. sid \<noteq> er_session r \<Longrightarrow> ww_files s' sid = ww_files s sid"
proof -
  let ?m = "case er_dedupe r of None \<Rightarrow> DedupePayload | Some m \<Rightarrow> m"
  let ?d = "case er_drop r of None \<Rightarrow> KeepOld | Some d \<Rightarrow> d"
  obtain q where q: "loadQueueUnlocked env (er_session r) s = (s, Inr q)" "wq_items q = items" "wq_session q = er_session r"
    using load_stored [OF assms(3)] .
  obtain w u where u: "we_uuid env (ww_outer s) = (w, u)" by fastforce
  let ?i = "new_item r u (we_now env w)"
  have i: "item_key ?i = (er_payload r, er_mode r)" by (simp add: item_key_def new_item_def)
  note run = enqueue_def withSessionLock_def thenA_def liftA_def okA_def getA_def finallyA_def touch_def assms(1,2) q u
    saveQueue_quiet [OF assms(1)]
  have o: "outerA (\<lambda>w. case we_uuid env w of (w', u) \<Rightarrow> (w', Inr (new_item r u (we_now env w')))) s = (s\<lparr>ww_outer := w\<rparr>, Inr ?i)"
    by (simp add: outerA_def u)
  show ?thesis
  proof (cases "place_item ?m ?d ?i items")
    case None
    have "enqueue env r s = (s\<lparr>ww_outer := w\<rparr>, Inr q)"
      using None by (simp add: run o)
    then show ?thesis by (rule that [where i = ?i]) (use None i q assms(3) in \<open>auto simp: stored_items_def\<close>)
  next
    case (Some xs)
    have "enqueue env r s = (s\<lparr>ww_outer := w, ww_files := (ww_files s)(er_session r \<mapsto> QueueFile (Some xs) (wq_draining q) (we_now env w))\<rparr>,
        Inr (q\<lparr>wq_items := xs, wq_updated := we_now env w\<rparr>))"
      using Some by (simp add: run o)
    then show ?thesis by (rule that [where i = ?i]) (use Some i in \<open>auto simp: stored_items_def\<close>)
  qed
qed

text \<open>
  With the default deduplication a session's queue, read as a list of payloads with their modes,
  grows like a \<open>Set\<close>: a request whose payload and mode are pending changes nothing there (whichever of the two
  items is kept), any other one is appended, and no other session's file changes. So payloads without repetition
  stay without repetition.
\<close>

theorem enqueue_payload_once:
  assumes "quiet env" "assertValidSessionId (er_session r) = Inr ()" "stored_items s (er_session r) = Some items"
    "er_dedupe r = None \<or> er_dedupe r = Some DedupePayload"
  shows "\<exists>s' q. enqueue env r s = (s', Inr q) \<and> stored_items s' (er_session r) = Some (wq_items q) \<and>
    map item_key (wq_items q) = js_add (map item_key items) (er_payload r, er_mode r) \<and>
    (distinct (map item_key items) \<longrightarrow> distinct (map item_key (wq_items q))) \<and>
    (\<forall>sid. sid \<noteq> er_session r \<longrightarrow> ww_files s' sid = ww_files s sid)"
proof -
  obtain s' q i where e: "enqueue env r s = (s', Inr q)" "stored_items s' (er_session r) = Some (wq_items q)"
    "wq_items q = (case place_item (case er_dedupe r of None \<Rightarrow> DedupePayload | Some m \<Rightarrow> m)
               (case er_drop r of None \<Rightarrow> KeepOld | Some d \<Rightarrow> d) i items of None \<Rightarrow> items | Some xs \<Rightarrow> xs)"
    "item_key i = (er_payload r, er_mode r)" "\<And>sid. sid \<noteq> er_session r \<Longrightarrow> ww_files s' sid = ww_files s sid"
    using enqueue_stored [OF assms(1-3)] by metis
  have m: "(case er_dedupe r of None \<Rightarrow> DedupePayload | Some m \<Rightarrow> m) = DedupePayload" using assms(4) by auto
  have "map item_key (wq_items q) = js_add (map item_key items) (er_payload r, er_mode r)"
    unfolding e(3) m place_item_payload e(4) ..
  then show ?thesis using e by auto
qed

definition demo_request :: enqueue_request where
  "demo_request = \<lparr>er_session = ''s'', er_payload = ''b'', er_mode = Collect, er_key = None, er_dedupe = None, er_drop = Some KeepNew\<rparr>"

theorem enqueue_payload_once_witness:
  "\<exists>s' q. enqueue quiet_env demo_request demo_drain = (s', Inr q) \<and> stored_items s' ''s'' = Some (wq_items q) \<and>
    map item_key (wq_items q) = [(''a'', Collect), (''b'', Collect), (''c'', Followup), (''d'', Collect)]"
proof -
  have "stored_items demo_drain ''s'' = Some demo_works" "quiet quiet_env"
    by (simp_all add: stored_items_def demo_drain_def quiet_def quiet_env_def)
  then show ?thesis
    using enqueue_payload_once [of quiet_env demo_request demo_drain demo_works]
    by (auto simp: demo_request_def assertValidSessionId_def demo_works_def demo_work_def item_key_def js_add_def)
qed

end
