(* ===== verification/WorkflowTasks.thy ===== *)
theory WorkflowTasks
  imports Effects RetryPolicy WorkflowState
begin

text \<open>
  The task and run tables (\<open>app-state/domain-repositories/tasks.ts\<close>, \<open>runs.ts\<close>) and what \<open>runTask\<close> of
  \<open>services/task-workbench.ts\<close> does to them and to the workflow step its task is linked to.

  A row holds what its JSON columns parse to; a member that is not there is \<open>None\<close> or \<open>JUndefined\<close>. What
  \<open>runTask\<close> only calls is an argument (\<open>exec_env\<close>) that acts on the rest of the world: the readiness check, the
  resolution of agent, manifest and provider, and the process or HTTP request itself with its outcome. Log events
  of task runs are not modelled.
\<close>

section \<open>The task table\<close>

datatype task_status = TaskDraft | TaskProposed | TaskReady | TaskRunning | TaskBlocked | TaskCompleted | TaskFailed
  | TaskCancelled | TaskArchived

record task_record =
  tk_id :: string
  tk_title :: string
  tk_description :: string
  tk_status :: task_status
  tk_capabilityRequirements :: "string list"
  tk_assignedAgentId :: "string option"
  tk_assignedAgentVersion :: "string option"
  tk_inputs :: js
  tk_dependsOn :: "string list"
  tk_missionId :: "string option"
  tk_sourceRunId :: "string option"
  tk_provenance :: js
  tk_createdBy :: "string option"
  tk_workspaceId :: string
  tk_createdAt :: time
  tk_updatedAt :: time
  tk_archivedAt :: "time option"

record task_input =
  ti_title :: "string option"
  ti_description :: "string option"
  ti_status :: "task_status option"
  ti_capabilityRequirements :: "string list option"
  ti_assignedAgentId :: "string option"
  ti_assignedAgentVersion :: "string option"
  ti_inputs :: js
  ti_dependsOn :: "string list option"
  ti_missionId :: "string option"
  ti_sourceRunId :: "string option"
  ti_provenance :: js
  ti_createdBy :: "string option"
  ti_workspaceId :: "string option"

definition no_task_input :: task_input where
  "no_task_input = \<lparr>ti_title = None, ti_description = None, ti_status = None, ti_capabilityRequirements = None,
     ti_assignedAgentId = None, ti_assignedAgentVersion = None, ti_inputs = JUndefined, ti_dependsOn = None,
     ti_missionId = None, ti_sourceRunId = None, ti_provenance = JUndefined, ti_createdBy = None, ti_workspaceId = None\<rparr>"

text \<open>\<open>a ?? b\<close> of two members that may be missing, and of values.\<close>

definition or_opt :: "'a option \<Rightarrow> 'a option \<Rightarrow> 'a option" where
  "or_opt a b = (case a of None \<Rightarrow> b | Some _ \<Rightarrow> a)"

definition or_js :: "js \<Rightarrow> js \<Rightarrow> js" where
  "or_js a b = (if absent a then b else a)"

text \<open>A JSON column that is written and read back; undefined is a null column.\<close>

definition stored_js :: "js \<Rightarrow> js" where
  "stored_js v = (if v = JUndefined then JUndefined else json_value v)"

definition mapTaskRow :: "task_record \<Rightarrow> task_record" where
  "mapTaskRow t = t\<lparr>tk_assignedAgentId := text_col (tk_assignedAgentId t),
     tk_assignedAgentVersion := text_col (tk_assignedAgentVersion t), tk_missionId := text_col (tk_missionId t),
     tk_sourceRunId := text_col (tk_sourceRunId t), tk_createdBy := text_col (tk_createdBy t)\<rparr>"

definition assertTaskReadyAssignment :: "task_status \<Rightarrow> string option \<Rightarrow> unit result" where
  "assertTaskReadyAssignment status assigned =
     (if status = TaskReady \<and> (assigned = None \<or> assigned = Some [])
      then Inl (JsError ''ready tasks require assignedAgentId'') else Inr ())"

definition getTask :: "task_record list \<Rightarrow> string \<Rightarrow> task_record option" where
  "getTask rows i = map_option mapTaskRow (find (\<lambda>t. tk_id t = i) rows)"

definition requireTaskRow :: "task_record list \<Rightarrow> string \<Rightarrow> task_record result" where
  "requireTaskRow rows i = (case getTask rows i of None \<Rightarrow> Inl (JsError (''Task not found: '' @ i)) | Some t \<Rightarrow> Inr t)"

definition createTask :: "task_record list \<Rightarrow> string \<Rightarrow> task_input \<Rightarrow> time \<Rightarrow> (task_record list \<times> task_record) result" where
  "createTask rows i input now =
     (let status = or_else (ti_status input) TaskDraft in
      bindR (assertTaskReadyAssignment status (ti_assignedAgentId input)) (\<lambda>_.
      if i \<in> tk_id ` set rows then Inl (JsError ''UNIQUE constraint failed: tasks.id'')
      else (let rows' = rows @ [\<lparr>tk_id = i, tk_title = or_else (ti_title input) [],
              tk_description = or_else (ti_description input) [], tk_status = status,
              tk_capabilityRequirements = or_else (ti_capabilityRequirements input) [],
              tk_assignedAgentId = ti_assignedAgentId input, tk_assignedAgentVersion = ti_assignedAgentVersion input,
              tk_inputs = json_value (or_js (ti_inputs input) (JObj [])), tk_dependsOn = or_else (ti_dependsOn input) [],
              tk_missionId = ti_missionId input, tk_sourceRunId = ti_sourceRunId input,
              tk_provenance = stored_js (ti_provenance input), tk_createdBy = ti_createdBy input,
              tk_workspaceId = or_else (ti_workspaceId input) ''default'', tk_createdAt = now, tk_updatedAt = now,
              tk_archivedAt = (if status = TaskArchived then Some now else None)\<rparr>]
        in bindR (requireTaskRow rows' i) (\<lambda>t. Inr (rows', t)))))"

text \<open>The row that \<open>update\<close> writes.\<close>

definition updated_task :: "task_record \<Rightarrow> task_input \<Rightarrow> time \<Rightarrow> task_record" where
  "updated_task existing input now =
     (let status = or_else (ti_status input) (tk_status existing) in existing\<lparr>
        tk_title := or_else (ti_title input) (tk_title existing),
        tk_description := or_else (ti_description input) (tk_description existing),
        tk_status := status,
        tk_capabilityRequirements := or_else (ti_capabilityRequirements input) (tk_capabilityRequirements existing),
        tk_assignedAgentId := or_opt (ti_assignedAgentId input) (tk_assignedAgentId existing),
        tk_assignedAgentVersion := or_opt (ti_assignedAgentVersion input) (tk_assignedAgentVersion existing),
        tk_inputs := json_value (or_js (ti_inputs input) (tk_inputs existing)),
        tk_dependsOn := or_else (ti_dependsOn input) (tk_dependsOn existing),
        tk_missionId := or_opt (ti_missionId input) (tk_missionId existing),
        tk_sourceRunId := or_opt (ti_sourceRunId input) (tk_sourceRunId existing),
        tk_provenance := stored_js (if ti_provenance input = JUndefined then tk_provenance existing else ti_provenance input),
        tk_createdBy := or_opt (ti_createdBy input) (tk_createdBy existing),
        tk_workspaceId := or_else (ti_workspaceId input) (tk_workspaceId existing),
        tk_updatedAt := now,
        tk_archivedAt := (if status = TaskArchived then Some (or_else (tk_archivedAt existing) now) else tk_archivedAt existing)\<rparr>)"

definition updateTask :: "task_record list \<Rightarrow> string \<Rightarrow> task_input \<Rightarrow> time \<Rightarrow> (task_record list \<times> task_record) result" where
  "updateTask rows i input now =
     bindR (requireTaskRow rows i) (\<lambda>existing.
     bindR (assertTaskReadyAssignment (or_else (ti_status input) (tk_status existing))
         (or_opt (ti_assignedAgentId input) (tk_assignedAgentId existing))) (\<lambda>_.
     let rows' = map (\<lambda>t. if tk_id t = i then updated_task existing input now else t) rows in
     bindR (requireTaskRow rows' i) (\<lambda>t. Inr (rows', t))))"

definition archiveTask :: "task_record list \<Rightarrow> string \<Rightarrow> time \<Rightarrow> (task_record list \<times> task_record) result" where
  "archiveTask rows i now = updateTask rows i (no_task_input\<lparr>ti_status := Some TaskArchived\<rparr>) now"

text \<open>\<open>order by updated_at desc, created_at desc\<close>.\<close>

definition newest_tasks :: "task_record list \<Rightarrow> task_record list" where
  "newest_tasks = sort_key (\<lambda>t. (- tk_updatedAt t, - tk_createdAt t))"

definition linked_to :: "string \<Rightarrow> string \<Rightarrow> task_record \<Rightarrow> bool" where
  "linked_to i sid t \<longleftrightarrow> tk_archivedAt t = None \<and> js_get (tk_provenance t) ''source'' = JStr ''workflow-template'' \<and>
     js_get (tk_provenance t) ''workflowDagRunId'' = JStr i \<and> js_get (tk_provenance t) ''workflowDagStepId'' = JStr sid"

definition findByWorkflowDagStep :: "task_record list \<Rightarrow> string \<Rightarrow> string \<Rightarrow> task_record option" where
  "findByWorkflowDagStep rows i sid = (case newest_tasks (filter (linked_to i sid) rows) of
     [] \<Rightarrow> None | t # _ \<Rightarrow> Some (mapTaskRow t))"

record list_tasks_options =
  lt_includeArchived :: bool
  lt_status :: "task_status option"
  lt_missionId :: "string option"
  lt_workspaceId :: "string option"
  lt_limit :: "jsnum option"

definition clampAppStateListLimit :: "jsnum option \<Rightarrow> int" where
  "clampAppStateListLimit limit = (case limit of
     Some (Fin r) \<Rightarrow> max 1 (min (trunc_rat r) 1000)
   | _ \<Rightarrow> 500)"

definition listTasks :: "task_record list \<Rightarrow> list_tasks_options \<Rightarrow> task_record list" where
  "listTasks rows opts = map mapTaskRow (take (nat (clampAppStateListLimit (lt_limit opts))) (newest_tasks (filter (\<lambda>t.
     (lt_includeArchived opts \<or> tk_status t \<noteq> TaskArchived) \<and>
     (lt_status opts = None \<or> lt_status opts = Some (tk_status t)) \<and>
     (text_col (lt_missionId opts) = None \<or> text_col (lt_missionId opts) = tk_missionId t) \<and>
     (text_col (lt_workspaceId opts) = None \<or> text_col (lt_workspaceId opts) = Some (tk_workspaceId t))) rows)))"

section \<open>The run table\<close>

datatype run_target = TargetTask | TargetMission

datatype run_state = RunQueued | RunValidating | RunActive | RunWaiting | RunDone | RunBroken | RunStopped | RunLimited

text \<open>The texts of \<open>RunStatus\<close>.\<close>

fun run_state_text :: "run_state \<Rightarrow> string" where
  "run_state_text RunQueued = ''queued''"
| "run_state_text RunValidating = ''validating''"
| "run_state_text RunActive = ''running''"
| "run_state_text RunWaiting = ''waiting-for-approval''"
| "run_state_text RunDone = ''completed''"
| "run_state_text RunBroken = ''failed''"
| "run_state_text RunStopped = ''cancelled''"
| "run_state_text RunLimited = ''stopped-by-limit''"

record task_run_record =
  rn_id :: string
  rn_targetType :: run_target
  rn_targetId :: string
  rn_status :: run_state
  rn_backend :: "string option"
  rn_agentId :: "string option"
  rn_agentVersion :: "string option"
  rn_startedAt :: "time option"
  rn_endedAt :: "time option"
  rn_output :: js
  rn_failure :: js
  rn_safetyStop :: js
  rn_verificationStatus :: "string option"
  rn_verificationFailures :: js
  rn_workspaceId :: string
  rn_createdAt :: time
  rn_updatedAt :: time

record task_run_input =
  ri_status :: "run_state option"
  ri_backend :: "string option"
  ri_agentId :: "string option"
  ri_agentVersion :: "string option"
  ri_startedAt :: "time option"
  ri_endedAt :: "time option"
  ri_output :: js
  ri_failure :: js
  ri_safetyStop :: js
  ri_verificationStatus :: "string option"
  ri_verificationFailures :: js
  ri_workspaceId :: "string option"

definition no_run_input :: task_run_input where
  "no_run_input = \<lparr>ri_status = None, ri_backend = None, ri_agentId = None, ri_agentVersion = None, ri_startedAt = None,
     ri_endedAt = None, ri_output = JUndefined, ri_failure = JUndefined, ri_safetyStop = JUndefined,
     ri_verificationStatus = None, ri_verificationFailures = JUndefined, ri_workspaceId = None\<rparr>"

definition mapRunRow :: "task_run_record \<Rightarrow> task_run_record" where
  "mapRunRow r = r\<lparr>rn_backend := text_col (rn_backend r), rn_agentId := text_col (rn_agentId r),
     rn_agentVersion := text_col (rn_agentVersion r)\<rparr>"

definition requireTaskRun :: "task_run_record list \<Rightarrow> string \<Rightarrow> task_run_record result" where
  "requireTaskRun rows i = (case find (\<lambda>r. rn_id r = i) rows of
     None \<Rightarrow> Inl (JsError (''Run not found: '' @ i)) | Some r \<Rightarrow> Inr (mapRunRow r))"

definition createTaskRun :: "task_run_record list \<Rightarrow> string \<Rightarrow> run_target \<Rightarrow> string \<Rightarrow> task_run_input \<Rightarrow> time \<Rightarrow>
    (task_run_record list \<times> task_run_record) result" where
  "createTaskRun rows i target targetId input now =
     (if i \<in> rn_id ` set rows then Inl (JsError ''UNIQUE constraint failed: runs.id'')
      else (let rows' = rows @ [\<lparr>rn_id = i, rn_targetType = target, rn_targetId = targetId,
          rn_status = or_else (ri_status input) RunQueued, rn_backend = ri_backend input, rn_agentId = ri_agentId input,
          rn_agentVersion = ri_agentVersion input, rn_startedAt = ri_startedAt input, rn_endedAt = ri_endedAt input,
          rn_output = stored_js (ri_output input), rn_failure = stored_js (ri_failure input),
          rn_safetyStop = stored_js (ri_safetyStop input), rn_verificationStatus = ri_verificationStatus input,
          rn_verificationFailures = stored_js (ri_verificationFailures input),
          rn_workspaceId = or_else (ri_workspaceId input) ''default'', rn_createdAt = now, rn_updatedAt = now\<rparr>]
        in bindR (requireTaskRun rows' i) (\<lambda>r. Inr (rows', r))))"

definition updated_run :: "task_run_record \<Rightarrow> task_run_input \<Rightarrow> time \<Rightarrow> task_run_record" where
  "updated_run existing input now = existing\<lparr>
     rn_status := or_else (ri_status input) (rn_status existing),
     rn_backend := or_opt (ri_backend input) (rn_backend existing),
     rn_agentId := or_opt (ri_agentId input) (rn_agentId existing),
     rn_agentVersion := or_opt (ri_agentVersion input) (rn_agentVersion existing),
     rn_startedAt := or_opt (ri_startedAt input) (rn_startedAt existing),
     rn_endedAt := or_opt (ri_endedAt input) (rn_endedAt existing),
     rn_output := stored_js (if ri_output input = JUndefined then rn_output existing else ri_output input),
     rn_failure := stored_js (if ri_failure input = JUndefined then rn_failure existing else ri_failure input),
     rn_safetyStop := stored_js (if ri_safetyStop input = JUndefined then rn_safetyStop existing else ri_safetyStop input),
     rn_verificationStatus := or_opt (ri_verificationStatus input) (rn_verificationStatus existing),
     rn_verificationFailures := stored_js (if ri_verificationFailures input = JUndefined
       then rn_verificationFailures existing else ri_verificationFailures input),
     rn_workspaceId := or_else (ri_workspaceId input) (rn_workspaceId existing),
     rn_updatedAt := now\<rparr>"

definition updateTaskRun :: "task_run_record list \<Rightarrow> string \<Rightarrow> task_run_input \<Rightarrow> time \<Rightarrow>
    (task_run_record list \<times> task_run_record) result" where
  "updateTaskRun rows i input now =
     bindR (requireTaskRun rows i) (\<lambda>existing.
     let rows' = map (\<lambda>r. if rn_id r = i then updated_run existing input now else r) rows in
     bindR (requireTaskRun rows' i) (\<lambda>r. Inr (rows', r)))"

text \<open>What the executor sees of a run.\<close>

definition mapRunRecord :: "task_run_record \<Rightarrow> task_run" where
  "mapRunRecord r = \<lparr>tr_status = run_state_text (rn_status r), tr_failure = rn_failure r,
     tr_verificationStatus = rn_verificationStatus r\<rparr>"

section \<open>The world of a task run\<close>

record 'w app_world =
  aw_dag :: dag_db
  aw_tasks :: "task_record list"
  aw_runs :: "task_run_record list"
  aw_outer :: 'w

record prepared_run =
  pr_runId :: string
  pr_backend :: string
  pr_agentId :: string
  pr_agentVersion :: string

text \<open>
  How a started process or request ends: with a result envelope that is within its limits and whose artifacts are
  stored, by a failure of any phase, stopped by a limit, or cancelled with a signal.
\<close>

datatype run_outcome =
    RanOk js "string option" js nat
  | RanFailed js
  | RanOverLimit js
  | RanCancelled js

record 'w exec_env =
  ee_now :: "'w \<Rightarrow> time"
  ee_iso :: "time \<Rightarrow> string"
  ee_readiness :: "task_record \<Rightarrow> ('w, unit) act"
  ee_prepare :: "task_record \<Rightarrow> ('w, prepared_run) act"
  ee_execute :: "task_record \<Rightarrow> task_run_record \<Rightarrow> 'w \<Rightarrow> 'w \<times> run_outcome"
  ee_sleep :: "int \<Rightarrow> 'w \<Rightarrow> 'w"

definition worldA :: "('w, 'a) act \<Rightarrow> ('w app_world, 'a) act" where
  "worldA m = (\<lambda>s. case m (aw_outer s) of (w, r) \<Rightarrow> (s\<lparr>aw_outer := w\<rparr>, r))"

text \<open>Calls of the repositories: an error leaves the tables as they were (the step operations are transactions).\<close>

definition dagA :: "'w exec_env \<Rightarrow> (dag_db \<Rightarrow> time \<Rightarrow> (dag_db \<times> 'a) result) \<Rightarrow> ('w app_world, 'a) act" where
  "dagA env f = (\<lambda>s. case f (aw_dag s) (ee_now env (aw_outer s)) of
     Inl e \<Rightarrow> (s, Inl e) | Inr (db, x) \<Rightarrow> (s\<lparr>aw_dag := db\<rparr>, Inr x))"

definition tasksA :: "'w exec_env \<Rightarrow> (task_record list \<Rightarrow> time \<Rightarrow> (task_record list \<times> 'a) result) \<Rightarrow> ('w app_world, 'a) act" where
  "tasksA env f = (\<lambda>s. case f (aw_tasks s) (ee_now env (aw_outer s)) of
     Inl e \<Rightarrow> (s, Inl e) | Inr (rows, x) \<Rightarrow> (s\<lparr>aw_tasks := rows\<rparr>, Inr x))"

definition runsA :: "'w exec_env \<Rightarrow> (task_run_record list \<Rightarrow> time \<Rightarrow> (task_run_record list \<times> 'a) result) \<Rightarrow> ('w app_world, 'a) act" where
  "runsA env f = (\<lambda>s. case f (aw_runs s) (ee_now env (aw_outer s)) of
     Inl e \<Rightarrow> (s, Inl e) | Inr (rows, x) \<Rightarrow> (s\<lparr>aw_runs := rows\<rparr>, Inr x))"

lemma repository_acts_code [code]:
  "worldA m s = (case m (aw_outer s) of (w, r) \<Rightarrow> (s\<lparr>aw_outer := w\<rparr>, r))"
  "dagA env f s = (case f (aw_dag s) (ee_now env (aw_outer s)) of
     Inl e \<Rightarrow> (s, Inl e) | Inr y \<Rightarrow> (s\<lparr>aw_dag := fst y\<rparr>, Inr (snd y)))"
  "tasksA env g s = (case g (aw_tasks s) (ee_now env (aw_outer s)) of
     Inl e \<Rightarrow> (s, Inl e) | Inr y \<Rightarrow> (s\<lparr>aw_tasks := fst y\<rparr>, Inr (snd y)))"
  "runsA env h s = (case h (aw_runs s) (ee_now env (aw_outer s)) of
     Inl e \<Rightarrow> (s, Inl e) | Inr y \<Rightarrow> (s\<lparr>aw_runs := fst y\<rparr>, Inr (snd y)))"
  by (simp_all add: worldA_def dagA_def tasksA_def runsA_def split: prod.split sum.split)

section \<open>Running a task\<close>

definition setTaskStatus :: "'w exec_env \<Rightarrow> string \<Rightarrow> task_status \<Rightarrow> ('w app_world, task_record) act" where
  "setTaskStatus env i status = tasksA env (\<lambda>rows. updateTask rows i (no_task_input\<lparr>ti_status := Some status\<rparr>))"

definition requireTask :: "task_record list \<Rightarrow> string \<Rightarrow> task_record result" where
  "requireTask rows i = (case getTask rows i of
     None \<Rightarrow> Inl (AthenaError PROVIDER_NOT_FOUND (''Task not found: '' @ i) False) | Some t \<Rightarrow> Inr t)"

definition resolveWorkflowDagStepLink :: "task_record \<Rightarrow> (string \<times> string) option" where
  "resolveWorkflowDagStepLink t =
     (if \<not> is_record (tk_provenance t) \<or> js_get (tk_provenance t) ''source'' \<noteq> JStr ''workflow-template'' then None
      else case (js_get (tk_provenance t) ''workflowDagRunId'', js_get (tk_provenance t) ''workflowDagStepId'') of
        (JStr i, JStr sid) \<Rightarrow> if trim i = [] \<or> trim sid = [] then None else Some (i, sid)
      | _ \<Rightarrow> None)"

definition text_field :: "string \<Rightarrow> string option \<Rightarrow> (string \<times> js) list" where
  "text_field k v = opt_field k (map_option JStr (text_col v))"

definition taskRunExecutionDetail :: "(time \<Rightarrow> string) \<Rightarrow> task_run_record \<Rightarrow> js" where
  "taskRunExecutionDetail isoStr r = JObj (text_field ''backend'' (rn_backend r) @ text_field ''agentId'' (rn_agentId r) @
     text_field ''agentVersion'' (rn_agentVersion r) @ text_field ''startedAt'' (map_option isoStr (rn_startedAt r)) @
     text_field ''endedAt'' (map_option isoStr (rn_endedAt r)))"

text \<open>What a linked step is told of the run of its task.\<close>

definition step_report :: "(time \<Rightarrow> string) \<Rightarrow> task_record \<Rightarrow> task_run_record \<Rightarrow> string \<Rightarrow> js \<Rightarrow> (string \<times> js) list \<Rightarrow> js" where
  "step_report isoStr t r key value detail = JObj ([(''taskRunId'', JStr (rn_id r)), (''taskId'', JStr (tk_id t)),
     (''status'', JStr (run_state_text (rn_status r))), (key, value), (''execution'', taskRunExecutionDetail isoStr r)] @ detail)"

definition linkedA :: "'w exec_env \<Rightarrow> task_record \<Rightarrow> (string \<Rightarrow> dag_op) \<Rightarrow> ('w app_world, unit) act" where
  "linkedA env t f = (case resolveWorkflowDagStepLink t of
      None \<Rightarrow> okA ()
    | Some (i, sid) \<Rightarrow> thenA (dagA env (\<lambda>db. run_op (f sid) db i)) (\<lambda>_. okA ()))"

definition startLinkedWorkflowDagStep :: "'w exec_env \<Rightarrow> task_record \<Rightarrow> ('w app_world, unit) act" where
  "startLinkedWorkflowDagStep env t = linkedA env t OpStart"

definition completeLinkedWorkflowDagStep :: "'w exec_env \<Rightarrow> task_record \<Rightarrow> task_run_record \<Rightarrow> js \<Rightarrow> nat \<Rightarrow> ('w app_world, unit) act" where
  "completeLinkedWorkflowDagStep env t r result artifacts = linkedA env t (\<lambda>sid. OpComplete sid
     (step_report (ee_iso env) t r ''output'' result [(''artifactCount'', JInt (int artifacts))]))"

definition failLinkedWorkflowDagStep :: "'w exec_env \<Rightarrow> task_record \<Rightarrow> task_run_record \<Rightarrow> js \<Rightarrow> ('w app_world, unit) act" where
  "failLinkedWorkflowDagStep env t r failure =
     linkedA env t (\<lambda>sid. OpFail sid (step_report (ee_iso env) t r ''failure'' failure []))"

definition cancelLinkedWorkflowDagStep :: "'w exec_env \<Rightarrow> task_record \<Rightarrow> task_run_record \<Rightarrow> js \<Rightarrow> ('w app_world, unit) act" where
  "cancelLinkedWorkflowDagStep env t r cancellation =
     linkedA env t (\<lambda>sid. OpCancel sid (step_report (ee_iso env) t r ''cancellation'' cancellation []))"

definition endRun :: "'w exec_env \<Rightarrow> string \<Rightarrow> task_run_input \<Rightarrow> ('w app_world, task_run_record) act" where
  "endRun env i input = thenA (getA (\<lambda>s. ee_now env (aw_outer s))) (\<lambda>t.
     runsA env (\<lambda>rows. updateTaskRun rows i (input\<lparr>ri_endedAt := Some t\<rparr>)))"

definition failTaskRun :: "'w exec_env \<Rightarrow> task_record \<Rightarrow> task_run_record \<Rightarrow> js \<Rightarrow> ('w app_world, task_run) act" where
  "failTaskRun env t r failure =
     thenA (setTaskStatus env (tk_id t) TaskFailed) (\<lambda>_.
     thenA (endRun env (rn_id r) (no_run_input\<lparr>ri_status := Some RunBroken, ri_failure := failure\<rparr>)) (\<lambda>r'.
     seqA (failLinkedWorkflowDagStep env t r' failure) (okA (mapRunRecord r'))))"

definition stopTaskRunByLimit :: "'w exec_env \<Rightarrow> task_record \<Rightarrow> task_run_record \<Rightarrow> js \<Rightarrow> ('w app_world, task_run) act" where
  "stopTaskRunByLimit env t r stop =
     thenA (setTaskStatus env (tk_id t) TaskFailed) (\<lambda>_.
     thenA (endRun env (rn_id r) (no_run_input\<lparr>ri_status := Some RunLimited, ri_failure := stop, ri_safetyStop := stop\<rparr>)) (\<lambda>r'.
     seqA (failLinkedWorkflowDagStep env t r' stop) (okA (mapRunRecord r'))))"

definition cancelTaskRun :: "'w exec_env \<Rightarrow> task_record \<Rightarrow> task_run_record \<Rightarrow> js \<Rightarrow> ('w app_world, task_run) act" where
  "cancelTaskRun env t r signal = (let cancelled = JObj [(''reason'', JStr ''cancelled''), (''signal'', signal)] in
     thenA (setTaskStatus env (tk_id t) TaskCancelled) (\<lambda>_.
     thenA (endRun env (rn_id r) (no_run_input\<lparr>ri_status := Some RunStopped, ri_failure := cancelled\<rparr>)) (\<lambda>r'.
     seqA (cancelLinkedWorkflowDagStep env t r' cancelled) (okA (mapRunRecord r')))))"

definition completeTaskRun :: "'w exec_env \<Rightarrow> task_record \<Rightarrow> task_run_record \<Rightarrow> js \<Rightarrow> string option \<Rightarrow> js \<Rightarrow> nat \<Rightarrow>
    ('w app_world, task_run) act" where
  "completeTaskRun env t r result verification failures artifacts =
     thenA (setTaskStatus env (tk_id t) TaskCompleted) (\<lambda>_.
     thenA (endRun env (rn_id r) (no_run_input\<lparr>ri_status := Some RunDone, ri_output := result,
         ri_verificationStatus := verification, ri_verificationFailures := failures\<rparr>)) (\<lambda>r'.
     seqA (completeLinkedWorkflowDagStep env t r' result artifacts) (okA (mapRunRecord r'))))"

definition finishTaskRun :: "'w exec_env \<Rightarrow> task_record \<Rightarrow> task_run_record \<Rightarrow> run_outcome \<Rightarrow> ('w app_world, task_run) act" where
  "finishTaskRun env t r outcome = (case outcome of
      RanOk result verification failures artifacts \<Rightarrow> completeTaskRun env t r result verification failures artifacts
    | RanFailed failure \<Rightarrow> failTaskRun env t r failure
    | RanOverLimit stop \<Rightarrow> stopTaskRunByLimit env t r stop
    | RanCancelled signal \<Rightarrow> cancelTaskRun env t r signal)"

text \<open>Up to the start of the process: the checks, the run record, the task and its step.\<close>

definition checkTaskRun :: "'w exec_env \<Rightarrow> task_record \<Rightarrow> ('w app_world, unit) act" where
  "checkTaskRun env t =
     seqA (worldA (ee_readiness env t))
     (seqA (if tk_status t \<noteq> TaskReady
            then throwA (config_error (''Task '' @ tk_id t @ '' must be ready before it can run.'')) else okA ())
     (if tk_assignedAgentId t = None then throwA (config_error ''ready tasks require assignedAgentId'') else okA ()))"

definition openTaskRun :: "'w exec_env \<Rightarrow> task_record \<Rightarrow> ('w app_world, task_run_record) act" where
  "openTaskRun env t =
     thenA (worldA (ee_prepare env t)) (\<lambda>p.
     thenA (getA (\<lambda>s. ee_now env (aw_outer s))) (\<lambda>startedAt.
     runsA env (\<lambda>rows. createTaskRun rows (pr_runId p) TargetTask (tk_id t) (no_run_input\<lparr>ri_status := Some RunActive,
       ri_backend := Some (pr_backend p), ri_agentId := Some (pr_agentId p), ri_agentVersion := Some (pr_agentVersion p),
       ri_startedAt := Some startedAt, ri_workspaceId := Some (tk_workspaceId t)\<rparr>))))"

definition beginTaskRun :: "'w exec_env \<Rightarrow> string \<Rightarrow> ('w app_world, task_record \<times> task_run_record) act" where
  "beginTaskRun env i =
     thenA (getA aw_tasks) (\<lambda>rows.
     thenA (liftA (requireTask rows i)) (\<lambda>t.
     seqA (checkTaskRun env t)
     (thenA (openTaskRun env t) (\<lambda>r.
      thenA (setTaskStatus env (tk_id t) TaskRunning) (\<lambda>_.
      seqA (startLinkedWorkflowDagStep env t) (okA (t, r)))))))"

definition executeTask :: "'w exec_env \<Rightarrow> task_record \<Rightarrow> task_run_record \<Rightarrow> ('w app_world, run_outcome) act" where
  "executeTask env t r = worldA (\<lambda>w. case ee_execute env t r w of (w', x) \<Rightarrow> (w', Inr x))"

definition runTask :: "'w exec_env \<Rightarrow> string \<Rightarrow> ('w app_world, task_run) act" where
  "runTask env i =
     thenA (beginTaskRun env i) (\<lambda>(t, r).
     thenA (executeTask env t r) (\<lambda>outcome.
     finishTaskRun env t r outcome))"

end
