(* ===== verification/WorkflowExecutor.thy ===== *)
theory WorkflowExecutor
  imports WorkflowTasks WorkflowSafety
begin

text \<open>
  The workflow executor, \<open>LocalWorkflowDagExecutorService\<close> of \<open>services/workflow-dag-executor.ts\<close>: it runs the
  tasks of ready steps one after the other, decides on retries, and resumes a run after a failure or a restart.
  A call for a run that is already in flight gets the same promise and adds nothing, so one call is modelled.
\<close>

section \<open>The loop\<close>

record execution_result =
  xr_runId :: string
  xr_status :: run_status
  xr_executedStepIds :: "string list"
  xr_snapshot :: snapshot

fun first_ready :: "step_record list \<Rightarrow> string list \<Rightarrow> step_record option" where
  "first_ready steps [] = None"
| "first_ready steps (sid # sids) = (case find (\<lambda>s. sr_stepId s = sid) steps of
      Some s \<Rightarrow> if sr_status s = StepPending \<and> sr_ready s then Some s else first_ready steps sids
    | None \<Rightarrow> first_ready steps sids)"

definition selectNextReadyStep :: "snapshot \<Rightarrow> step_record option" where
  "selectNextReadyStep snap = first_ready (snap_steps snap) (rr_stepOrder (snap_run snap))"

fun retry_phase_text :: "retry_phase \<Rightarrow> string" where
  "retry_phase_text PhRuntimeStart = ''runtime-start''"
| "retry_phase_text PhExecution = ''execution''"
| "retry_phase_text PhProvider = ''provider''"
| "retry_phase_text PhVerification = ''verification''"
| "retry_phase_text PhArtifactExport = ''artifact-export''"
| "retry_phase_text PhConnectorRateLimit = ''connector-rate-limit''"

fun retry_reason_text :: "retry_reason \<Rightarrow> string" where
  "retry_reason_text NoPolicy = ''no-policy''"
| "retry_reason_text Exhausted = ''exhausted''"
| "retry_reason_text PhaseNotRetryable = ''phase-not-retryable''"
| "retry_reason_text UnsafeNonIdempotentWrite = ''unsafe-non-idempotent-write''"
| "retry_reason_text Eligible = ''eligible''"

definition retry_decision_json :: "retry_decision \<Rightarrow> js" where
  "retry_decision_json d = JObj [(''retry'', JBool (rd_retry d)), (''reason'', JStr (retry_reason_text (rd_reason d))),
     (''phase'', JStr (retry_phase_text (rd_phase d))), (''attempt'', JInt (rd_attempt d)), (''maxAttempts'', JInt (rd_maxAttempts d))]"

definition retry_event :: "string \<Rightarrow> string \<Rightarrow> retry_decision \<Rightarrow> event_input" where
  "retry_event i sid d = \<lparr>ei_id = None, ei_runId = i, ei_stepId = Some sid,
     ei_type = (if rd_retry d then ''workflow.step.retry_scheduled'' else ''workflow.step.retry_blocked''),
     ei_level = Some (if rd_retry d \<or> rd_reason d = Exhausted then LevelWarning else LevelInfo),
     ei_message = Some (if rd_retry d then ''Workflow step '' @ sid @ '' scheduled for retry.''
       else ''Workflow step '' @ sid @ '' will not be retried: '' @ retry_reason_text (rd_reason d) @ ''.''),
     ei_payload = retry_decision_json d, ei_timestamp = None\<rparr>"

text \<open>The task of a step that is pending again becomes ready, unless it is ready, completed or archived.\<close>

definition resetProjectedTask :: "'w exec_env \<Rightarrow> string \<Rightarrow> step_record \<Rightarrow> ('w app_world, unit) act" where
  "resetProjectedTask env i step = (if sr_status step \<noteq> StepPending then okA ()
     else thenA (getA aw_tasks) (\<lambda>rows. case findByWorkflowDagStep rows i (sr_stepId step) of
        None \<Rightarrow> okA ()
      | Some t \<Rightarrow> if tk_status t \<in> {TaskReady, TaskCompleted, TaskArchived} then okA ()
          else thenA (setTaskStatus env (tk_id t) TaskReady) (\<lambda>_. okA ())))"

fun resetProjectedTasks :: "'w exec_env \<Rightarrow> string \<Rightarrow> step_record list \<Rightarrow> ('w app_world, unit) act" where
  "resetProjectedTasks env i [] = okA ()"
| "resetProjectedTasks env i (step # steps) = seqA (resetProjectedTask env i step) (resetProjectedTasks env i steps)"

definition recomputeA :: "'w exec_env \<Rightarrow> string \<Rightarrow> ('w app_world, snapshot) act" where
  "recomputeA env i = dagA env (\<lambda>db. run_op OpRecompute db i)"

definition resumeA :: "'w exec_env \<Rightarrow> string \<Rightarrow> ('w app_world, unit) act" where
  "resumeA env i = thenA (dagA env (\<lambda>db. run_op OpResume db i)) (\<lambda>resumable.
     resetProjectedTasks env (rr_id (snap_run resumable)) (snap_steps resumable))"

definition no_task_error :: "string \<Rightarrow> string \<Rightarrow> error" where
  "no_task_error i sid = config_error (''workflowDagExecutor.runId step '' @ quoted sid @
     '' must map to an existing workflow-template task. Received runId='' @ i @ ''.'')"

text \<open>What follows a task that did not complete: \<open>Some\<close> snapshot to go on with, \<open>None\<close> to leave the loop.\<close>

definition retryStep :: "'w exec_env \<Rightarrow> string \<Rightarrow> task_record \<Rightarrow> step_record \<Rightarrow> task_run \<Rightarrow> ('w app_world, snapshot option) act" where
  "retryStep env i t failed run = (let d = evaluateRetryDecision (tk_provenance t) (int (sr_attempt failed)) run in
     thenA (dagA env (\<lambda>db. appendEvent db (retry_event i (sr_stepId failed) d))) (\<lambda>_.
     if \<not> rd_retry d then okA None
     else seqA (resumeA env i)
      (seqA (case parseWorkflowTaskRetryPolicy (tk_provenance t) of
          None \<Rightarrow> okA ()
        | Some p \<Rightarrow> worldA (\<lambda>w. (ee_sleep env (computeRetryBackoffMs (backoff p) (of_nat (sr_attempt failed)) DEFAULT_RETRY_BASE_DELAY_MS) w, Inr ())))
      (thenA (recomputeA env i) (\<lambda>snap. okA (Some snap))))))"

definition afterTaskRun :: "'w exec_env \<Rightarrow> string \<Rightarrow> step_record \<Rightarrow> task_record \<Rightarrow> task_run \<Rightarrow> snapshot \<Rightarrow> ('w app_world, snapshot \<times> bool) act" where
  "afterTaskRun env i step t run snap = (if tr_status run = ''completed'' then okA (snap, True)
     else (let failed = (case find (\<lambda>s. sr_stepId s = sr_stepId step) (snap_steps snap) of Some s \<Rightarrow> s | None \<Rightarrow> step) in
       thenA (retryStep env i t failed run) (\<lambda>next. case next of None \<Rightarrow> okA (snap, False) | Some snap' \<Rightarrow> okA (snap', True))))"

text \<open>One round of the loop, for the step it selected: the snapshot afterwards and whether the loop goes on.\<close>

definition executeRound :: "'w exec_env \<Rightarrow> string \<Rightarrow> step_record \<Rightarrow> ('w app_world, snapshot \<times> bool) act" where
  "executeRound env i step = thenA (getA aw_tasks) (\<lambda>rows.
     case findByWorkflowDagStep rows i (sr_stepId step) of
       None \<Rightarrow> throwA (no_task_error i (sr_stepId step))
     | Some t \<Rightarrow> thenA (runTask env (tk_id t)) (\<lambda>run. thenA (recomputeA env i) (afterTaskRun env i step t run)))"

definition terminal_status :: "run_status \<Rightarrow> bool" where
  "terminal_status status \<longleftrightarrow> status \<in> {RunFailed, RunCompleted, RunResumable}"

text \<open>\<open>None\<close> is an execution that never ends.\<close>

partial_function (option) executeLoop :: "'w exec_env \<Rightarrow> string \<Rightarrow> snapshot \<Rightarrow> string list \<Rightarrow> 'w app_world \<Rightarrow>
    ('w app_world \<times> (snapshot \<times> string list) result) option" where
  "executeLoop env i snap executed s = (if terminal_status (rr_status (snap_run snap)) then Some (s, Inr (snap, executed))
     else (case selectNextReadyStep snap of
         None \<Rightarrow> Some (s, Inr (snap, executed))
       | Some step \<Rightarrow> (case executeRound env i step s of
           (s', Inl e) \<Rightarrow> Some (s', Inl e)
         | (s', Inr (snap', go)) \<Rightarrow>
             if go then executeLoop env i snap' (executed @ [sr_stepId step]) s'
             else Some (s', Inr (snap', executed @ [sr_stepId step])))))"

definition execute :: "'w exec_env \<Rightarrow> string \<Rightarrow> 'w app_world \<Rightarrow> ('w app_world \<times> execution_result result) option" where
  "execute env i s = (case recomputeA env i s of
      (s', Inl e) \<Rightarrow> Some (s', Inl e)
    | (s', Inr snap) \<Rightarrow> map_option (\<lambda>(s'', r). (s'', bindR r (\<lambda>(snap', executed).
        Inr \<lparr>xr_runId = i, xr_status = rr_status (snap_run snap'), xr_executedStepIds = executed, xr_snapshot = snap'\<rparr>)))
        (executeLoop env i snap [] s'))"

definition resumeExecution :: "'w exec_env \<Rightarrow> string \<Rightarrow> 'w app_world \<Rightarrow> ('w app_world \<times> execution_result result) option" where
  "resumeExecution env i s =
     (case seqA (dagA env (\<lambda>db. run_op OpRecover db i)) (resumeA env i) s of
        (s', Inl e) \<Rightarrow> Some (s', Inl e)
      | (s', Inr _) \<Rightarrow> execute env i s')"

section \<open>What the calls do\<close>

text \<open>The invariant of the task table, and what the executor's own updates leave alone.\<close>

definition wf_tasks :: "task_record list \<Rightarrow> bool" where
  "wf_tasks rows \<longleftrightarrow> distinct (map tk_id rows) \<and> (\<forall>t \<in> set rows. stored_js (tk_provenance t) = tk_provenance t)"

definition same_tasks :: "task_record list \<Rightarrow> task_record list \<Rightarrow> bool" where
  "same_tasks rows rows' \<longleftrightarrow> wf_tasks rows' \<and> map tk_id rows' = map tk_id rows \<and> map tk_provenance rows' = map tk_provenance rows"

lemma stored_js_idem [simp]: "stored_js (stored_js v) = stored_js v"
  by (simp add: stored_js_def json_value_idem)

lemma mapTaskRow_simps [simp]:
  "tk_id (mapTaskRow t) = tk_id t" "tk_provenance (mapTaskRow t) = tk_provenance t" "tk_status (mapTaskRow t) = tk_status t"
  "tk_archivedAt (mapTaskRow t) = tk_archivedAt t"
  by (simp_all add: mapTaskRow_def)

lemma getTask_Some:
  assumes "distinct (map tk_id rows)"
  shows "getTask rows i = Some t \<longleftrightarrow> (\<exists>r \<in> set rows. tk_id r = i \<and> t = mapTaskRow r)"
proof -
  have "find (\<lambda>t. tk_id t = i) rows = Some r \<longleftrightarrow> r \<in> set rows \<and> tk_id r = i" for r
    using assms by (induction rows) (auto simp: image_iff)
  then show ?thesis by (auto simp: getTask_def)
qed

lemma findByWorkflowDagStep_Some:
  "findByWorkflowDagStep rows i sid = Some t \<Longrightarrow> \<exists>r \<in> set rows. linked_to i sid r \<and> t = mapTaskRow r"
proof -
  assume f: "findByWorkflowDagStep rows i sid = Some t"
  then obtain r rs where r: "newest_tasks (filter (linked_to i sid) rows) = r # rs" "t = mapTaskRow r"
    by (auto simp: findByWorkflowDagStep_def split: list.splits)
  then have "r \<in> set (newest_tasks (filter (linked_to i sid) rows))" by simp
  then show ?thesis using r(2) by (auto simp: newest_tasks_def)
qed

lemma updateTask_same:
  assumes "wf_tasks rows" "ti_provenance input = JUndefined" "updateTask rows i input now = Inr (rows', t)"
  shows "same_tasks rows rows'"
proof -
  obtain e where e: "getTask rows i = Some e"
      "rows' = map (\<lambda>t. if tk_id t = i then updated_task e input now else t) rows"
    using assms(3) by (auto simp: updateTask_def bindR_eq_Inr requireTaskRow_def Let_def split: option.splits)
  then obtain r where r: "r \<in> set rows" "tk_id r = i" "e = mapTaskRow r"
    using assms(1) by (auto simp: wf_tasks_def getTask_Some)
  have u: "tk_id (updated_task e input now) = i" "tk_provenance (updated_task e input now) = tk_provenance r"
    using r assms(1,2) by (simp_all add: updated_task_def Let_def wf_tasks_def)
  have "tk_provenance x = tk_provenance r" if "x \<in> set rows" "tk_id x = i" for x
    using assms(1) r that by (auto simp: wf_tasks_def distinct_map inj_on_def)
  then have "map tk_provenance rows' = map tk_provenance rows" "map tk_id rows' = map tk_id rows"
    using u by (auto simp: e(2))
  moreover have "\<forall>x \<in> set rows'. stored_js (tk_provenance x) = tk_provenance x"
    using assms(1) r u by (auto simp: e(2) wf_tasks_def)
  ultimately show ?thesis using assms(1) by (auto simp: same_tasks_def wf_tasks_def)
qed

lemma same_tasks_refl: "wf_tasks rows \<Longrightarrow> same_tasks rows rows"
  by (simp add: same_tasks_def)

lemma same_tasks_trans: "same_tasks a b \<Longrightarrow> same_tasks b c \<Longrightarrow> same_tasks a c"
  by (simp add: same_tasks_def)

lemma same_tasks_wf: "same_tasks a b \<Longrightarrow> wf_tasks b"
  by (simp add: same_tasks_def)

lemma same_tasks_row:
  assumes "same_tasks rows rows'" "r \<in> set rows'"
  shows "\<exists>x \<in> set rows. tk_id x = tk_id r \<and> tk_provenance x = tk_provenance r"
proof -
  obtain k where k: "k < length rows'" "r = rows' ! k" using assms(2) by (auto simp: in_set_conv_nth)
  then have "k < length rows" "tk_id (rows ! k) = tk_id r" "tk_provenance (rows ! k) = tk_provenance r"
    using assms(1) by (metis same_tasks_def length_map nth_map)+
  then show ?thesis using nth_mem by blast
qed

lemma wp_worldA [wp_simps]:
  "wp (worldA m) Q E s = wp m (\<lambda>x w. Q x (s\<lparr>aw_outer := w\<rparr>)) (\<lambda>e w. E e (s\<lparr>aw_outer := w\<rparr>)) (aw_outer s)"
  by (simp add: wp_def worldA_def split: prod.split sum.split)

lemma wp_dagA [wp_simps]:
  "wp (dagA env f) Q E s = (case f (aw_dag s) (ee_now env (aw_outer s)) of Inl e \<Rightarrow> E e s | Inr (db, x) \<Rightarrow> Q x (s\<lparr>aw_dag := db\<rparr>))"
  by (simp add: wp_def dagA_def split: prod.split sum.split)

lemma wp_tasksA [wp_simps]:
  "wp (tasksA env f) Q E s = (case f (aw_tasks s) (ee_now env (aw_outer s)) of Inl e \<Rightarrow> E e s | Inr (rows, x) \<Rightarrow> Q x (s\<lparr>aw_tasks := rows\<rparr>))"
  by (simp add: wp_def tasksA_def split: prod.split sum.split)

lemma wp_runsA [wp_simps]:
  "wp (runsA env f) Q E s = (case f (aw_runs s) (ee_now env (aw_outer s)) of Inl e \<Rightarrow> E e s | Inr (rows, x) \<Rightarrow> Q x (s\<lparr>aw_runs := rows\<rparr>))"
  by (simp add: wp_def runsA_def split: prod.split sum.split)

lemma wp_any: "(\<And>x s'. Q x s') \<Longrightarrow> (\<And>e s'. E e s') \<Longrightarrow> wp m Q E s"
  by (simp add: wp_def split: prod.split sum.split)

text \<open>An action that leaves the workflow tables alone and the tasks where they were.\<close>

definition tasks_only :: "'w app_world \<Rightarrow> 'w app_world \<Rightarrow> bool" where
  "tasks_only s s' \<longleftrightarrow> aw_dag s' = aw_dag s \<and> same_tasks (aw_tasks s) (aw_tasks s')"

lemma tasks_only_refl: "wf_tasks (aw_tasks s) \<Longrightarrow> tasks_only s s"
  by (simp add: tasks_only_def same_tasks_refl)

lemma tasks_only_trans: "tasks_only a b \<Longrightarrow> tasks_only b c \<Longrightarrow> tasks_only a c"
  by (auto simp: tasks_only_def intro: same_tasks_trans)

lemma tasks_only_wf: "tasks_only a b \<Longrightarrow> wf_tasks (aw_tasks b)"
  by (auto simp: tasks_only_def intro: same_tasks_wf)

lemma setTaskStatus_wp:
  assumes "tasks_only s0 s"
  shows "wp (setTaskStatus env i st) (\<lambda>_ s'. tasks_only s0 s') (\<lambda>_ s'. tasks_only s0 s') s"
proof -
  have "same_tasks (aw_tasks s) rows'" if "updateTask (aw_tasks s) i (no_task_input\<lparr>ti_status := Some st\<rparr>) now = Inr (rows', t)" for now rows' t
    by (rule updateTask_same [OF tasks_only_wf [OF assms] _ that]) (simp add: no_task_input_def)
  then show ?thesis
    using assms by (auto simp: setTaskStatus_def wp_simps tasks_only_def intro: same_tasks_trans split: sum.split)
qed

lemma endRun_wp:
  assumes "tasks_only s0 s"
  shows "wp (endRun env i input) (\<lambda>_ s'. tasks_only s0 s') (\<lambda>_ s'. tasks_only s0 s') s"
  using assms by (auto simp: endRun_def wp_simps tasks_only_def split: sum.split)

lemma updateTaskRun_status:
  assumes "updateTaskRun rows i input now = Inr (rows', r)" "ri_status input = Some x"
  shows "rn_status r = x"
proof -
  obtain e r0 where e: "rows' = map (\<lambda>r. if rn_id r = i then updated_run e input now else r) rows"
    and r0: "find (\<lambda>r. rn_id r = i) rows' = Some r0" "r = mapRunRow r0"
    using assms(1) by (auto simp: updateTaskRun_def requireTaskRun_def bindR_eq_Inr Let_def split: option.splits)
  have "rn_id r0 = i" "r0 \<in> set rows'" using find_SomeD [OF r0(1)] by auto
  then have "\<exists>y. r0 = (if rn_id y = i then updated_run e input now else y)" unfolding e by fastforce
  then obtain y where "r0 = (if rn_id y = i then updated_run e input now else y)" ..
  then have "r0 = updated_run e input now" using \<open>rn_id r0 = i\<close> by (auto split: if_splits)
  then show ?thesis using assms(2) r0(2) by (simp add: mapRunRow_def updated_run_def)
qed

lemma endRun_status:
  "wp (endRun env i input) (\<lambda>r _. ri_status input = Some x \<longrightarrow> rn_status r = x) (\<lambda>_ _. True) s"
  by (auto simp: endRun_def wp_simps dest: updateTaskRun_status split: sum.split)

lemma wp_conj: "wp m Q E s \<Longrightarrow> wp m Q' E' s \<Longrightarrow> wp m (\<lambda>x s. Q x s \<and> Q' x s) (\<lambda>e s. E e s \<and> E' e s) s"
  by (simp add: wp_def split: prod.splits sum.splits)

lemma endRun_both:
  assumes "tasks_only s0 s" "ri_status input = Some x"
  shows "wp (endRun env i input) (\<lambda>r s'. tasks_only s0 s' \<and> rn_status r = x) (\<lambda>_ s'. tasks_only s0 s') s"
  by (rule wp_mono [OF wp_conj [OF endRun_wp [OF assms(1)] endRun_status]]) (use assms(2) in auto)

text \<open>A task run ends in one operation on its linked step; a run that ends as completed completes the step.\<close>

fun ends_with :: "task_run \<Rightarrow> dag_op \<Rightarrow> bool" where
  "ends_with run (OpComplete _ _) \<longleftrightarrow> tr_status run = ''completed''"
| "ends_with run (OpFail _ _) \<longleftrightarrow> tr_status run \<notin> {''completed'', ''cancelled''}"
| "ends_with run (OpCancel _ _) \<longleftrightarrow> tr_status run = ''cancelled''"
| "ends_with _ _ \<longleftrightarrow> False"

definition step_end :: "string \<Rightarrow> string \<Rightarrow> dag_db \<Rightarrow> task_run \<Rightarrow> dag_db \<Rightarrow> bool" where
  "step_end i sid db run db' \<longleftrightarrow> (\<exists>op t x. op_step op = Some sid \<and> ends_with run op \<and> run_op op db i t = Inr (db', x))"

lemma finishTaskRun_wp:
  assumes "tasks_only s0 s" "resolveWorkflowDagStepLink t = Some (i, sid)"
  shows "wp (finishTaskRun env t r outcome)
    (\<lambda>run s'. step_end i sid (aw_dag s0) run (aw_dag s') \<and> same_tasks (aw_tasks s0) (aw_tasks s'))
    (\<lambda>_ s'. tasks_only s0 s') s"
proof -
  let ?Q = "\<lambda>run s'. step_end i sid (aw_dag s0) run (aw_dag s') \<and> same_tasks (aw_tasks s0) (aw_tasks s')"
  let ?E = "\<lambda>_ s'. tasks_only s0 s'"
  have link: "wp (linkedA env t f) (\<lambda>_. wp (okA (mapRunRecord r')) ?Q ?E) ?E s1"
    if "tasks_only s0 s1" "op_step (f sid) = Some sid" "ends_with (mapRunRecord r') (f sid)" for f r' s1
    using that assms(2) by (auto simp: wp_simps linkedA_def tasks_only_def step_end_def split: sum.split)
  show ?thesis
  proof (cases outcome)
    case (RanOk result v f n)
    show ?thesis
      unfolding RanOk finishTaskRun_def run_outcome.case completeTaskRun_def wp_thenA completeLinkedWorkflowDagStep_def
      by (rule wp_mono, rule setTaskStatus_wp [OF assms(1)], rule wp_mono, rule endRun_both [where x = RunDone], assumption)
        (simp_all add: no_run_input_def, rule link, simp_all add: mapRunRecord_def)
  next
    case (RanFailed f)
    show ?thesis
      unfolding RanFailed finishTaskRun_def run_outcome.case failTaskRun_def wp_thenA failLinkedWorkflowDagStep_def
      by (rule wp_mono, rule setTaskStatus_wp [OF assms(1)], rule wp_mono, rule endRun_both [where x = RunBroken], assumption)
        (simp_all add: no_run_input_def, rule link, simp_all add: mapRunRecord_def)
  next
    case (RanOverLimit f)
    show ?thesis
      unfolding RanOverLimit finishTaskRun_def run_outcome.case stopTaskRunByLimit_def wp_thenA failLinkedWorkflowDagStep_def
      by (rule wp_mono, rule setTaskStatus_wp [OF assms(1)], rule wp_mono, rule endRun_both [where x = RunLimited], assumption)
        (simp_all add: no_run_input_def, rule link, simp_all add: mapRunRecord_def)
  next
    case (RanCancelled f)
    show ?thesis
      unfolding RanCancelled finishTaskRun_def run_outcome.case cancelTaskRun_def Let_def wp_thenA cancelLinkedWorkflowDagStep_def
      by (rule wp_mono, rule setTaskStatus_wp [OF assms(1)], rule wp_mono, rule endRun_both [where x = RunStopped], assumption)
        (simp_all add: no_run_input_def, rule link, simp_all add: mapRunRecord_def)
  qed
qed

text \<open>The start of a linked task runs the start of its step, as its last action on the tables.\<close>

definition step_begun :: "string \<Rightarrow> string \<Rightarrow> dag_db \<Rightarrow> dag_db \<Rightarrow> bool" where
  "step_begun i sid db db' \<longleftrightarrow> (\<exists>t x. run_op (OpStart sid) db i t = Inr (db', x))"

lemma tasks_only_outer [simp]: "tasks_only s (s1\<lparr>aw_outer := w\<rparr>) = tasks_only s s1"
  "tasks_only s (s1\<lparr>aw_runs := rs\<rparr>) = tasks_only s s1"
  by (simp_all add: tasks_only_def)

lemma wp_executeTask [wp_simps]:
  "wp (executeTask env t r) Q E s =
     Q (snd (ee_execute env t r (aw_outer s))) (s\<lparr>aw_outer := fst (ee_execute env t r (aw_outer s))\<rparr>)"
  by (simp add: executeTask_def wp_def worldA_def split_def)

lemma checkTaskRun_wp:
  "tasks_only s0 s \<Longrightarrow> wp (checkTaskRun env t) (\<lambda>_ s'. tasks_only s0 s') (\<lambda>_ s'. tasks_only s0 s') s"
  by (simp add: checkTaskRun_def wp_simps) (simp add: wp_any)

lemma openTaskRun_wp:
  "tasks_only s0 s \<Longrightarrow> wp (openTaskRun env t) (\<lambda>_ s'. tasks_only s0 s') (\<lambda>_ s'. tasks_only s0 s') s"
  by (simp add: openTaskRun_def wp_simps) (rule wp_any, auto split: sum.split)

lemma beginTaskRun_wp:
  assumes "wf_tasks (aw_tasks s)" "getTask (aw_tasks s) tid = Some t" "resolveWorkflowDagStepLink t = Some (i, sid)"
  shows "wp (beginTaskRun env tid)
    (\<lambda>(t', r) s'. t' = t \<and> step_begun i sid (aw_dag s) (aw_dag s') \<and> same_tasks (aw_tasks s) (aw_tasks s'))
    (\<lambda>_ s'. tasks_only s s') s"
proof -
  let ?Q = "\<lambda>(t', r) s'. t' = t \<and> step_begun i sid (aw_dag s) (aw_dag s') \<and> same_tasks (aw_tasks s) (aw_tasks s')"
  let ?E = "\<lambda>_ s'. tasks_only s s'"
  have link: "wp (startLinkedWorkflowDagStep env t) (\<lambda>_. ?Q (t, r)) ?E s1" if "tasks_only s s1" for r s1
    using that assms(3)
    by (auto simp: wp_simps startLinkedWorkflowDagStep_def linkedA_def tasks_only_def step_begun_def split: sum.split)
  show ?thesis
    unfolding beginTaskRun_def wp_thenA wp_basic requireTask_def assms(2) option.case sum.case
    by (rule wp_mono, rule checkTaskRun_wp [OF tasks_only_refl [OF assms(1)]], rule wp_mono, rule openTaskRun_wp, assumption,
        rule wp_mono, rule setTaskStatus_wp, assumption, rule link)
qed

lemma runTask_wp:
  assumes "wf_tasks (aw_tasks s)" "getTask (aw_tasks s) tid = Some t" "resolveWorkflowDagStepLink t = Some (i, sid)"
  shows "wp (runTask env tid)
    (\<lambda>run s'. (\<exists>db. step_begun i sid (aw_dag s) db \<and> step_end i sid db run (aw_dag s')) \<and> same_tasks (aw_tasks s) (aw_tasks s'))
    (\<lambda>_ s'. (aw_dag s' = aw_dag s \<or> step_begun i sid (aw_dag s) (aw_dag s')) \<and> same_tasks (aw_tasks s) (aw_tasks s')) s"
proof -
  have e: "wp (finishTaskRun env t r (snd (ee_execute env t r (aw_outer s1))))
    (\<lambda>run s'. (\<exists>db. step_begun i sid (aw_dag s) db \<and> step_end i sid db run (aw_dag s')) \<and> same_tasks (aw_tasks s) (aw_tasks s'))
    (\<lambda>_ s'. (aw_dag s' = aw_dag s \<or> step_begun i sid (aw_dag s) (aw_dag s')) \<and> same_tasks (aw_tasks s) (aw_tasks s'))
    (s1\<lparr>aw_outer := fst (ee_execute env t r (aw_outer s1))\<rparr>)"
    if "step_begun i sid (aw_dag s) (aw_dag s1)" "same_tasks (aw_tasks s) (aw_tasks s1)" for r s1
  proof -
    let ?s = "s1\<lparr>aw_outer := fst (ee_execute env t r (aw_outer s1))\<rparr>"
    have "tasks_only ?s ?s" by (rule tasks_only_refl) (use that(2) in \<open>simp add: same_tasks_def\<close>)
    then show ?thesis
      by (rule wp_mono [OF finishTaskRun_wp [OF _ assms(3)]])
        (use that in \<open>auto simp: tasks_only_def intro: same_tasks_trans\<close>)
  qed
  show ?thesis
    unfolding runTask_def wp_thenA
    by (rule wp_mono [OF beginTaskRun_wp [OF assms]])
      (auto simp: wp_thenA wp_executeTask tasks_only_def intro!: e)
qed

section \<open>Traces of operations on a run\<close>

inductive dag_trace :: "string \<Rightarrow> dag_op list \<Rightarrow> dag_db \<Rightarrow> dag_db \<Rightarrow> bool" for i :: string where
  none: "dag_trace i [] db db"
| op: "dag_trace i ops db db1 \<Longrightarrow> run_op op db1 i t = Inr (db', x) \<Longrightarrow> dag_trace i (ops @ [op]) db db'"
| event: "dag_trace i ops db db1 \<Longrightarrow> ei_id input = None \<Longrightarrow> appendEvent db1 input t = Inr (db', e) \<Longrightarrow> dag_trace i ops db db'"

fun allowed_ops :: "dag_state \<Rightarrow> dag_op list \<Rightarrow> bool" where
  "allowed_ops st [] \<longleftrightarrow> True"
| "allowed_ops st (op # ops) \<longleftrightarrow> allowed st op \<and> allowed_ops (op_spec op st) ops"

lemma allowed_ops_snoc: "allowed_ops st (ops @ [op]) \<longleftrightarrow> allowed_ops st ops \<and> allowed (fold op_spec ops st) op"
  by (induction ops arbitrary: st) auto

lemma appendEvent_put:
  assumes "wf_db db" "ei_id input = None" "appendEvent db input t = Inr (db', e)"
  shows "wf_db db' \<and> abs_dag db' j = abs_dag db j \<and> run_of db' j = run_of db j"
proof -
  have r: "run_of db (ei_runId input) \<noteq> None"
    using assms(3) by (auto simp: appendEvent_def appendEventInternal_def bindR_eq_Inr Let_def run_of_def
        find_None_iff split: if_splits)
  obtain e' where e': "appendEvent db input t = Inr (put_event e' db, e')" "er_id e' = randomUuid db" "er_runId e' = ei_runId input"
    using appendEvent_eq [OF assms(1) r assms(2)] by metis
  then have "db' = put_event e' db" using assms(3) by simp
  then show ?thesis using wf_db_put_event [of db e'] assms(1) e' r by simp
qed

lemma dag_trace_abs:
  assumes "dag_trace i ops db db'" "wf_db db"
  shows "wf_db db' \<and> abs_dag db' i = fold op_spec ops (abs_dag db i) \<and> (run_of db i \<noteq> None \<longrightarrow> run_of db' i \<noteq> None)"
  using assms
proof (induction rule: dag_trace.induct)
  case (op ops db db1 op t db' x)
  then show ?case using run_op_Inr [OF _ op.hyps(2)] by (auto simp: served_def)
next
  case (event ops db db1 input t db' e)
  then show ?case using appendEvent_put [OF _ event.hyps(2,3), of i] by auto
qed simp

lemma dag_trace_reachable:
  assumes "dag_trace i ops db db'" "reachable db" "allowed_ops (abs_dag db i) ops"
  shows "reachable db'"
  using assms
proof (induction rule: dag_trace.induct)
  case (op ops db db1 op t db' x)
  then have a: "allowed_ops (abs_dag db i) ops" "allowed (fold op_spec ops (abs_dag db i)) op" by (simp_all add: allowed_ops_snoc)
  have "abs_dag db1 i = fold op_spec ops (abs_dag db i)"
    using dag_trace_abs [OF op.hyps(1)] reachable_inv [OF op.prems(1)] by blast
  then show ?case using reachable.op [OF op.IH [OF op.prems(1) a(1)], of i op t db' x] a(2) op.hyps(2) by simp
next
  case (event ops db db1 input t db' e)
  then show ?case using reachable.event [OF event.IH event.hyps(2,3)] by blast
qed

lemma dag_trace_begin: "step_begun i sid db db' \<Longrightarrow> dag_trace i [OpStart sid] db db'"
  unfolding step_begun_def using dag_trace.op [OF dag_trace.none, of "OpStart sid"] by auto

definition step_end_op :: "string \<Rightarrow> task_run \<Rightarrow> dag_op \<Rightarrow> bool" where
  "step_end_op sid run op \<longleftrightarrow> op_step op = Some sid \<and> ends_with run op"

lemma dag_trace_task:
  assumes "step_begun i sid db db1" "step_end i sid db1 run db2"
  obtains op where "step_end_op sid run op" "dag_trace i [OpStart sid, op] db db2"
  using assms(2) dag_trace.op [OF dag_trace_begin [OF assms(1)]] that
  unfolding step_end_def step_end_op_def by fastforce

text \<open>What a round may do to its run: nothing, a start, or a start, an end and bookkeeping.\<close>

definition round_trace :: "string \<Rightarrow> dag_op list \<Rightarrow> bool" where
  "round_trace sid ops \<longleftrightarrow> ops = [] \<or> ops = [OpStart sid] \<or>
     (\<exists>run op rest. step_end_op sid run op \<and> set rest \<subseteq> {OpRecompute, OpResume} \<and> ops = OpStart sid # op # rest)"

lemma allowed_bookkeeping: "set rest \<subseteq> {OpRecompute, OpResume} \<Longrightarrow> allowed_ops st rest"
  by (induction rest arbitrary: st) auto

lemma round_trace_allowed:
  assumes "round_trace sid ops" "allowed st (OpStart sid)"
  shows "allowed_ops st ops"
proof -
  have "allowed (op_spec (OpStart sid) st) op" if "step_end_op sid run op" for op run
    using that assms(2) by (cases op) (auto simp: step_end_op_def step_is_Some)
  then show ?thesis using assms allowed_bookkeeping unfolding round_trace_def by fastforce
qed

section \<open>A round of the loop\<close>

lemma first_ready_Some:
  "first_ready steps sids = Some step \<Longrightarrow> step \<in> set steps \<and> sr_status step = StepPending \<and> sr_ready step"
  by (induction sids) (auto dest: find_SomeD split: option.splits if_splits)

lemma first_ready_None:
  "first_ready steps sids = None \<Longrightarrow> sid \<in> set sids \<Longrightarrow> find (\<lambda>s. sr_stepId s = sid) steps = Some s \<Longrightarrow>
     \<not> (sr_status s = StepPending \<and> sr_ready s)"
  by (induction sids) (auto split: option.splits if_splits)

definition attempt_bound :: "task_record list \<Rightarrow> nat" where
  "attempt_bound rows = Max (insert 0 ((\<lambda>p. case parseWorkflowTaskRetryPolicy p of None \<Rightarrow> 0 | Some q \<Rightarrow> nat (maxAttempts q)) ` set (map tk_provenance rows)))"

lemma same_tasks_bound: "same_tasks a b \<Longrightarrow> attempt_bound b = attempt_bound a"
  by (simp add: attempt_bound_def same_tasks_def)

lemma retry_bound:
  assumes "rd_retry (evaluateRetryDecision (tk_provenance t) (int n) run)" "tk_provenance t \<in> tk_provenance ` set rows"
  shows "n < attempt_bound rows"
proof -
  obtain p where p: "parseWorkflowTaskRetryPolicy (tk_provenance t) = Some p" "int n < maxAttempts p"
    using assms(1) by (auto simp: evaluateRetryDecision_def Let_def split: option.splits if_splits)
  have "nat (maxAttempts p) \<in> (\<lambda>p. case parseWorkflowTaskRetryPolicy p of None \<Rightarrow> 0 | Some q \<Rightarrow> nat (maxAttempts q)) ` set (map tk_provenance rows)"
    using assms(2) p(1) by force
  then have "nat (maxAttempts p) \<le> attempt_bound rows" unfolding attempt_bound_def by (intro Max_ge) auto
  then show ?thesis using p(2) by linarith
qed

lemma wp_okA_eta: "wp (okA x) Q E = Q x"
  by (simp add: fun_eq_iff wp_simps)

lemma resetProjectedTasks_wp:
  "tasks_only s0 s \<Longrightarrow> wp (resetProjectedTasks env i steps) (\<lambda>_ s'. tasks_only s0 s') (\<lambda>_ s'. tasks_only s0 s') s"
proof (induction steps arbitrary: s)
  case (Cons step steps)
  have "wp (resetProjectedTask env i step) (\<lambda>_ s'. tasks_only s0 s') (\<lambda>_ s'. tasks_only s0 s') s"
  proof (cases "sr_status step = StepPending")
    case True
    show ?thesis
      using Cons.prems setTaskStatus_wp [OF Cons.prems, of env]
      by (auto simp: resetProjectedTask_def wp_thenA wp_if wp_okA_eta wp_basic True split: option.split)
  qed (use Cons.prems in \<open>simp add: resetProjectedTask_def wp_simps\<close>)
  then show ?case
    by (simp add: wp_thenA) (rule wp_mono, assumption, rule Cons.IH)
qed (simp add: wp_simps)

text \<open>The snapshot the loop works with is that of the table.\<close>

definition current :: "string \<Rightarrow> dag_db \<Rightarrow> snapshot \<Rightarrow> bool" where
  "current i db snap \<longleftrightarrow> (\<exists>r. run_of db i = Some r \<and> snap = snapshot_of db r)"

lemma run_op_current:
  assumes "wf_db db" "run_op op db i t = Inr (db', snap)"
  shows "current i db' snap"
proof -
  obtain r where r: "run_of db i = Some r" using run_op_Inr [OF assms] by auto
  have "step_of db (i, sid) \<noteq> None" if "op_step op = Some sid" for sid
    using run_op_no_step [OF r that] assms(2) by (cases "step_of db (i, sid)") auto
  then have "serves (run_op op db i t) db i (op_spec op (abs_dag db i))" using run_op_serves [OF assms(1) r] by blast
  then have "snap = the (getSnapshot db' i)" using assms(2) by (simp add: serves_def)
  moreover obtain r' where "run_of db' i = Some r'" using run_op_Inr [OF assms] by (auto simp: served_def)
  ultimately show ?thesis using enter_op(3) by (auto simp: current_def)
qed

lemma current_step:
  assumes "wf_db db" "current i db snap"
  shows "find (\<lambda>s. sr_stepId s = sid) (snap_steps snap) = map_option mapWorkflowDagStepRow (step_of db (i, sid))"
proof -
  obtain r where r: "run_of db i = Some r" "snap = snapshot_of db r" using assms(2) by (auto simp: current_def)
  then have "run_id r = i" using run_of_SomeD by simp
  then show ?thesis using r find_listSteps [of sid db i] by (simp add: snapshot_of_def)
qed

lemma current_member:
  assumes "wf_db db" "current i db snap" "step \<in> set (snap_steps snap)"
  shows "\<exists>s. step_of db (i, sr_stepId step) = Some s \<and> step = mapWorkflowDagStepRow s"
proof -
  obtain r where r: "run_of db i = Some r" "snap = snapshot_of db r" using assms(2) by (auto simp: current_def)
  then have "run_id r = i" using run_of_SomeD by simp
  then obtain s where "s \<in> set (rows_of db i)" "step = mapWorkflowDagStepRow s" using assms(3) r by auto
  then show ?thesis using step_of_row [OF assms(1)] by (auto simp: mapWorkflowDagStepRow_def)
qed

lemma current_status: "current i db snap \<Longrightarrow> rr_status (snap_run snap) = ds_status (abs_dag db i)"
  by (auto simp: current_def abs_dag_status mapWorkflowDagRunRow_def)

text \<open>The state is reached from \<open>s0\<close> by a trace of operations on the run, with the tasks in place.\<close>

definition led :: "string \<Rightarrow> 'w app_world \<Rightarrow> dag_op list \<Rightarrow> 'w app_world \<Rightarrow> bool" where
  "led i s0 ops s \<longleftrightarrow> wf_db (aw_dag s0) \<and> dag_trace i ops (aw_dag s0) (aw_dag s) \<and> same_tasks (aw_tasks s0) (aw_tasks s)"

definition led_on :: "string \<Rightarrow> 'w app_world \<Rightarrow> dag_op list \<Rightarrow> 'w app_world \<Rightarrow> bool" where
  "led_on i s0 ops s \<longleftrightarrow> (\<exists>rest. set rest \<subseteq> {OpRecompute, OpResume} \<and> led i s0 (ops @ rest) s)"

lemma led_wf: "led i s0 ops s \<Longrightarrow> wf_db (aw_dag s) \<and> wf_tasks (aw_tasks s)"
  using dag_trace_abs [of i ops "aw_dag s0" "aw_dag s"] by (auto simp: led_def same_tasks_def)

lemma led_abs: "led i s0 ops s \<Longrightarrow> abs_dag (aw_dag s) i = fold op_spec ops (abs_dag (aw_dag s0) i)"
  using dag_trace_abs [of i ops "aw_dag s0" "aw_dag s"] by (auto simp: led_def)

lemma led_led_on: "led i s0 (ops @ rest) s \<Longrightarrow> set rest \<subseteq> {OpRecompute, OpResume} \<Longrightarrow> led_on i s0 ops s"
  unfolding led_on_def by blast

lemma led_refl: "wf_db (aw_dag s) \<Longrightarrow> wf_tasks (aw_tasks s) \<Longrightarrow> led i s [] s"
  by (simp add: led_def same_tasks_refl dag_trace.none)

lemma led_outer [simp]: "led i s0 ops (s\<lparr>aw_outer := w\<rparr>) = led i s0 ops s"
  by (simp add: led_def)

lemma led_tasks: "led i s0 ops s \<Longrightarrow> tasks_only s s' \<Longrightarrow> led i s0 ops s'"
  by (auto simp: led_def tasks_only_def intro: same_tasks_trans)

lemma led_op_wp:
  assumes "led i s0 ops s"
  shows "wp (dagA env (\<lambda>db. run_op op db i)) (\<lambda>snap s'. led i s0 (ops @ [op]) s' \<and> current i (aw_dag s') snap) (\<lambda>_ s'. led i s0 ops s') s"
proof -
  have "led i s0 (ops @ [op]) (s\<lparr>aw_dag := db\<rparr>) \<and> current i db snap" if "run_op op (aw_dag s) i n = Inr (db, snap)" for n db snap
    using assms dag_trace.op [OF _ that] run_op_current [OF _ that] led_wf [OF assms] by (auto simp: led_def)
  then show ?thesis using assms by (auto simp: wp_dagA simp del: run_op.simps split: sum.split)
qed

lemma led_event_wp:
  assumes "led i s0 ops s" "ei_id input = None"
  shows "wp (dagA env (\<lambda>db. appendEvent db input)) (\<lambda>_ s'. led i s0 ops s') (\<lambda>_ s'. led i s0 ops s') s"
proof -
  have "led i s0 ops (s\<lparr>aw_dag := db\<rparr>)" if "appendEvent (aw_dag s) input n = Inr (db, e)" for n db e
    using assms(1) dag_trace.event [OF _ assms(2) that] by (auto simp: led_def)
  then show ?thesis using assms by (auto simp: wp_dagA split: sum.split)
qed

lemma led_resume_wp:
  assumes "led i s0 ops s"
  shows "wp (resumeA env i) (\<lambda>_ s'. led i s0 (ops @ [OpResume]) s') (\<lambda>_ s'. led_on i s0 ops s') s"
proof -
  have r: "wp (resetProjectedTasks env j steps) (\<lambda>_ s'. led i s0 (ops @ [OpResume]) s') (\<lambda>_ s'. led_on i s0 ops s') s1"
    if "led i s0 (ops @ [OpResume]) s1" for j steps s1
    by (rule wp_mono [OF resetProjectedTasks_wp [OF tasks_only_refl]])
      (use that led_wf [OF that] led_tasks [OF that] in \<open>auto intro!: led_led_on [where rest = "[OpResume]"]\<close>)
  show ?thesis
    unfolding resumeA_def wp_thenA
    by (rule wp_mono, rule led_op_wp [OF assms], rule r, blast) (use led_led_on [of i s0 ops "[]"] in auto)
qed

lemma retryStep_wp:
  assumes "led i s0 ops s"
  shows "wp (retryStep env i t failed run)
    (\<lambda>next s'. case next of
         None \<Rightarrow> led i s0 ops s'
       | Some snap \<Rightarrow> rd_retry (evaluateRetryDecision (tk_provenance t) (int (sr_attempt failed)) run) \<and>
           led i s0 (ops @ [OpResume, OpRecompute]) s' \<and> current i (aw_dag s') snap)
    (\<lambda>_ s'. led_on i s0 ops s') s"
proof -
  let ?d = "evaluateRetryDecision (tk_provenance t) (int (sr_attempt failed)) run"
  let ?E = "\<lambda>_ s'. led_on i s0 ops s'"
  let ?Q = "\<lambda>next s'. case next of None \<Rightarrow> led i s0 ops s'
       | Some snap \<Rightarrow> rd_retry ?d \<and> led i s0 (ops @ [OpResume, OpRecompute]) s' \<and> current i (aw_dag s') snap"
  have last: "wp (recomputeA env i) (\<lambda>snap. ?Q (Some snap)) ?E s1" if "led i s0 (ops @ [OpResume]) s1" "rd_retry ?d" for s1
    unfolding recomputeA_def
    by (rule wp_mono [OF led_op_wp [OF that(1)]]) (use that(2) led_led_on [of i s0 ops "[OpResume]"] in auto)
  have sleep: "wp (case parseWorkflowTaskRetryPolicy (tk_provenance t) of
          None \<Rightarrow> okA ()
        | Some p \<Rightarrow> worldA (\<lambda>w. (ee_sleep env (computeRetryBackoffMs (backoff p) (of_nat (sr_attempt failed)) DEFAULT_RETRY_BASE_DELAY_MS) w, Inr ())))
      (\<lambda>_ s'. led i s0 (ops @ [OpResume]) s') ?E s1" if "led i s0 (ops @ [OpResume]) s1" for s1
    using that by (auto simp: wp_simps wp_run [of "\<lambda>w. (f w, Inr ())" for f] split: option.split)
  have resume: "wp (resumeA env i) (\<lambda>_. wp (case parseWorkflowTaskRetryPolicy (tk_provenance t) of
          None \<Rightarrow> okA ()
        | Some p \<Rightarrow> worldA (\<lambda>w. (ee_sleep env (computeRetryBackoffMs (backoff p) (of_nat (sr_attempt failed)) DEFAULT_RETRY_BASE_DELAY_MS) w, Inr ())))
      (\<lambda>_. wp (recomputeA env i) (\<lambda>snap. ?Q (Some snap)) ?E) ?E) ?E s1" if "led i s0 ops s1" "rd_retry ?d" for s1
    by (rule wp_mono, rule led_resume_wp [OF that(1)], rule wp_mono, rule sleep, assumption, rule last)
      (use that(2) in auto)
  show ?thesis
    unfolding retryStep_def Let_def wp_thenA wp_if wp_okA_eta
    by (rule wp_mono, rule led_event_wp [OF assms])
      (use resume led_led_on [of i s0 ops "[]"] in \<open>auto simp: retry_event_def\<close>)
qed

lemma js_get_record: "js_get v k = JStr x \<Longrightarrow> is_record v"
  by (cases v) auto

lemma linked_task:
  assumes "wf_tasks rows" "findByWorkflowDagStep rows i sid = Some t" "trim i \<noteq> []" "trim sid \<noteq> []"
  shows "getTask rows (tk_id t) = Some t \<and> resolveWorkflowDagStepLink t = Some (i, sid) \<and> tk_provenance t \<in> tk_provenance ` set rows"
proof -
  obtain r where r: "r \<in> set rows" "linked_to i sid r" "t = mapTaskRow r"
    using findByWorkflowDagStep_Some [OF assms(2)] by blast
  have "is_record (tk_provenance r)" using r(2) js_get_record by (auto simp: linked_to_def)
  then have "resolveWorkflowDagStepLink t = Some (i, sid)"
    using r assms(3,4) by (simp add: resolveWorkflowDagStepLink_def linked_to_def)
  moreover have "getTask rows (tk_id t) = Some t" using assms(1) r by (auto simp: getTask_Some wf_tasks_def)
  ultimately show ?thesis using r by auto
qed

lemma led_runTask_wp:
  assumes "wf_db (aw_dag s)" "wf_tasks (aw_tasks s)" "getTask (aw_tasks s) tid = Some t" "resolveWorkflowDagStepLink t = Some (i, sid)"
  shows "wp (runTask env tid) (\<lambda>run s'. \<exists>op. step_end_op sid run op \<and> led i s [OpStart sid, op] s')
    (\<lambda>_ s'. \<exists>ops. round_trace sid ops \<and> led i s ops s') s"
proof (rule wp_mono [OF runTask_wp [OF assms(2-4)]])
  fix run and s' :: "'a app_world"
  assume "(\<exists>db. step_begun i sid (aw_dag s) db \<and> step_end i sid db run (aw_dag s')) \<and> same_tasks (aw_tasks s) (aw_tasks s')"
  then show "\<exists>op. step_end_op sid run op \<and> led i s [OpStart sid, op] s'"
    using assms(1) by (auto simp: led_def elim: dag_trace_task)
next
  fix s' :: "'a app_world"
  assume a: "(aw_dag s' = aw_dag s \<or> step_begun i sid (aw_dag s) (aw_dag s')) \<and> same_tasks (aw_tasks s) (aw_tasks s')"
  show "\<exists>ops. round_trace sid ops \<and> led i s ops s'"
  proof (cases "aw_dag s' = aw_dag s")
    case True
    then show ?thesis using a assms(1) by (intro exI [of _ "[]"]) (simp add: led_def dag_trace.none round_trace_def)
  next
    case False
    then show ?thesis using a assms(1) dag_trace_begin by (intro exI [of _ "[OpStart sid]"]) (simp add: led_def round_trace_def)
  qed
qed

lemma step_end_op_attempt:
  assumes "ds_step st sid \<noteq> None" "step_end_op sid run op"
  shows "\<exists>x n. ds_step st sid = Some (x, n) \<and>
    ds_step (op_spec op (op_spec (OpStart sid) st)) sid =
      Some (if tr_status run = ''completed'' then StepCompleted else if \<exists>v. op = OpFail sid v then StepFailed else StepCancelled, Suc n)"
  using assms by (cases op) (auto simp: step_end_op_def)

text \<open>
  The three ways a round ends: the task completed, it is retried, or the loop is left; the task's run is one of those
  that the environment can produce.
\<close>

definition all_runs :: "'w exec_env \<Rightarrow> (task_run \<Rightarrow> bool) \<Rightarrow> bool" where
  "all_runs env P \<longleftrightarrow> (\<forall>i s. wp (runTask env i) (\<lambda>run _. P run) (\<lambda>_ _. True) s)"

definition round_end :: "(task_run \<Rightarrow> bool) \<Rightarrow> string \<Rightarrow> string \<Rightarrow> 'w app_world \<Rightarrow> snapshot \<times> bool \<Rightarrow> 'w app_world \<Rightarrow> bool" where
  "round_end P i sid s x s' \<longleftrightarrow> (\<exists>run op. P run \<and> step_end_op sid run op \<and>
     (if tr_status run = ''completed'' then snd x \<and> led i s [OpStart sid, op, OpRecompute] s' \<and> current i (aw_dag s') (fst x)
      else if snd x then led i s [OpStart sid, op, OpRecompute, OpResume, OpRecompute] s' \<and> current i (aw_dag s') (fst x) \<and>
        (\<exists>y n. ds_step (abs_dag (aw_dag s) i) sid = Some (y, n) \<and> Suc n < attempt_bound (aw_tasks s))
      else led i s [OpStart sid, op, OpRecompute] s' \<and>
        rr_status (snap_run (fst x)) = ds_status (fold op_spec [OpStart sid, op, OpRecompute] (abs_dag (aw_dag s) i))))"

lemma executeRound_wp:
  assumes wf: "wf_db (aw_dag s)" "wf_tasks (aw_tasks s)" and step: "step_of (aw_dag s) (i, sr_stepId step) \<noteq> None"
    and P: "all_runs env P"
    and blank: "trim i \<noteq> []" "trim (sr_stepId step) \<noteq> []"
  shows "wp (executeRound env i step) (round_end P i (sr_stepId step) s)
    (\<lambda>_ s'. \<exists>ops. round_trace (sr_stepId step) ops \<and> led i s ops s') s"
proof (cases "findByWorkflowDagStep (aw_tasks s) i (sr_stepId step)")
  case None
  then show ?thesis using led_refl [OF wf]
    by (auto simp: executeRound_def wp_simps round_trace_def intro!: exI [of _ "[]"])
next
  case (Some t)
  let ?sid = "sr_stepId step"
  let ?E = "\<lambda>_ s'. \<exists>ops. round_trace ?sid ops \<and> led i s ops s'"
  have t: "getTask (aw_tasks s) (tk_id t) = Some t" "resolveWorkflowDagStepLink t = Some (i, ?sid)"
      "tk_provenance t \<in> tk_provenance ` set (aw_tasks s)"
    using linked_task [OF wf(2) Some blank] by auto
  have trace: "?E e s'" if e: "step_end_op ?sid run op" and o: "led_on i s [OpStart ?sid, op] s'" for run op e s'
  proof -
    obtain rest where "set rest \<subseteq> {OpRecompute, OpResume}" "led i s (OpStart ?sid # op # rest) s'"
      using o by (auto simp: led_on_def)
    then show ?thesis using e unfolding round_trace_def by blast
  qed
  have after: "wp (afterTaskRun env i step t run snap) (round_end P i ?sid s) ?E s1"
    if P: "P run" and op: "step_end_op ?sid run op" and l: "led i s [OpStart ?sid, op, OpRecompute] s1" and c: "current i (aw_dag s1) snap" for run op snap s1
  proof (cases "tr_status run = ''completed''")
    case True
    then show ?thesis using P op l c by (auto simp: afterTaskRun_def wp_simps round_end_def)
  next
    case False
    have "ds_step (abs_dag (aw_dag s) i) ?sid \<noteq> None" using step by (simp add: abs_dag_step)
    then obtain y z n where n: "ds_step (abs_dag (aw_dag s) i) ?sid = Some (y, n)" "ds_step (abs_dag (aw_dag s1) i) ?sid = Some (z, Suc n)"
      using step_end_op_attempt [OF _ op] led_abs [OF l] by fastforce
    then obtain r where r: "find (\<lambda>s. sr_stepId s = ?sid) (snap_steps snap) = Some r" "sr_attempt r = Suc n"
      using current_step [OF _ c, of ?sid] led_wf [OF l] by (auto simp: abs_dag_step mapWorkflowDagStepRow_def)
    have on: "led_on i s [OpStart ?sid, op] s'" if o: "led_on i s [OpStart ?sid, op, OpRecompute] s'" for s'
    proof -
      obtain rest where "set rest \<subseteq> {OpRecompute, OpResume}" "led i s ([OpStart ?sid, op] @ OpRecompute # rest) s'"
        using o by (auto simp: led_on_def)
      then show ?thesis unfolding led_on_def by (intro exI [of _ "OpRecompute # rest"]) auto
    qed
    have st: "rr_status (snap_run snap) = ds_status (fold op_spec [OpStart ?sid, op, OpRecompute] (abs_dag (aw_dag s) i))"
      by (simp only: current_status [OF c] led_abs [OF l])
    have "Suc n < attempt_bound (aw_tasks s)" if "rd_retry (evaluateRetryDecision (tk_provenance t) (int (sr_attempt r)) run)"
      using retry_bound [of t "Suc n" run] that r(2) t(3) by simp
    then show ?thesis
      unfolding afterTaskRun_def Let_def wp_if wp_thenA r(1) option.case if_not_P [OF False]
      by (intro wp_mono [OF retryStep_wp [OF l]])
        (use P op n False trace [OF op on] st in \<open>auto simp: wp_okA_eta round_end_def wp_basic simp del: fold.simps split: option.splits\<close>)
  qed
  have "wp (recomputeA env i) (\<lambda>snap. wp (afterTaskRun env i step t run snap) (round_end P i ?sid s) ?E) ?E s1"
    if P: "P run" and op: "step_end_op ?sid run op" and l: "led i s [OpStart ?sid, op] s1" for run op s1
    unfolding recomputeA_def
    by (rule wp_mono [OF led_op_wp [OF l]]) (use after [OF P op] trace [OF op] led_led_on [of i s _ "[]"] in auto)
  then show ?thesis
    unfolding executeRound_def wp_thenA wp_basic Some option.case
    by (intro wp_mono [OF wp_conj [OF led_runTask_wp [OF wf t(1,2)] P [unfolded all_runs_def, rule_format]]]) blast+
qed

section \<open>The loop ends\<close>

definition attempts_of :: "dag_state \<Rightarrow> string \<Rightarrow> nat" where
  "attempts_of st sid = (case ds_step st sid of None \<Rightarrow> 0 | Some (_, n) \<Rightarrow> n)"

definition budget :: "nat \<Rightarrow> dag_state \<Rightarrow> nat" where
  "budget m st = (\<Sum>sid \<in> set (ds_order st). m - attempts_of st sid)"

definition pending_steps :: "dag_state \<Rightarrow> string set" where
  "pending_steps st = {sid \<in> set (ds_order st). step_is st StepPending sid}"

lemma finite_pending [simp]: "finite (pending_steps st)"
  by (simp add: pending_steps_def)

lemma order_fold [simp]: "ds_order (fold op_spec ops st) = ds_order st" "ds_deps (fold op_spec ops st) = ds_deps st"
    "ds_edges (fold op_spec ops st) = ds_edges st"
  by (induction ops arbitrary: st) simp_all

lemma completed_round:
  assumes "ds_step st sid = Some (y, n)" "step_end_op sid run op" "tr_status run = ''completed''"
  shows "ds_step (fold op_spec [OpStart sid, op, OpRecompute] st) = (ds_step st)(sid \<mapsto> (StepCompleted, Suc n))"
  using assms by (cases op) (auto simp: step_end_op_def fun_eq_iff)

lemma failed_round:
  assumes "ds_step st sid = Some (y, n)" "step_end_op sid run op" "tr_status run \<noteq> ''completed''"
  shows "\<exists>x \<in> {StepFailed, StepCancelled}. ds_step (fold op_spec [OpStart sid, op, OpRecompute] st) = (ds_step st)(sid \<mapsto> (x, Suc n))"
  using assms by (cases op) (auto simp: step_end_op_def fun_eq_iff)

lemma attempts_resume [simp]: "attempts_of (resume_spec st) sid = attempts_of st sid"
  by (auto simp: attempts_of_def resume_spec_def split: option.splits)

lemma retried_round:
  assumes "ds_step st sid = Some (y, n)" "step_end_op sid run op" "tr_status run \<noteq> ''completed''"
  shows "attempts_of (fold op_spec [OpStart sid, op, OpRecompute, OpResume, OpRecompute] st) x =
    (if x = sid then Suc n else attempts_of st x)"
proof -
  have "attempts_of (fold op_spec [OpStart sid, op, OpRecompute] st) x = (if x = sid then Suc n else attempts_of st x)"
    using failed_round [OF assms] by (auto simp: attempts_of_def simp del: fold.simps)
  moreover have "fold op_spec [OpStart sid, op, OpRecompute, OpResume, OpRecompute] st = resume_spec (fold op_spec [OpStart sid, op, OpRecompute] st)"
    by simp
  ultimately show ?thesis by (simp only: attempts_resume)
qed

lemma budget_less:
  assumes "sid \<in> set (ds_order st)" "ds_order st' = ds_order st" "attempts_of st' sid = Suc (attempts_of st sid)"
    "Suc (attempts_of st sid) < m" "\<And>x. x \<noteq> sid \<Longrightarrow> attempts_of st' x = attempts_of st x"
  shows "budget m st' < budget m st"
proof -
  have "attempts_of st x \<le> attempts_of st' x" for x using assms(3,5) by (cases "x = sid") auto
  then show ?thesis
    unfolding budget_def assms(2)
    by (intro sum_strict_mono_ex1) (use assms in \<open>auto intro!: bexI [of _ sid] diff_le_mono2\<close>)
qed

lemma budget_le:
  assumes "ds_order st' = ds_order st" "\<And>x. attempts_of st x \<le> attempts_of st' x"
  shows "budget m st' \<le> budget m st"
  unfolding budget_def assms(1) by (rule sum_mono) (simp add: assms(2) diff_le_mono2)

definition loop_measure :: "string \<Rightarrow> 'w app_world \<Rightarrow> nat \<times> nat" where
  "loop_measure i s = (let st = abs_dag (aw_dag s) i in (budget (attempt_bound (aw_tasks s)) st, card (pending_steps st)))"

definition lower :: "(nat \<times> nat) \<Rightarrow> (nat \<times> nat) \<Rightarrow> bool" where
  "lower x y \<longleftrightarrow> (x, y) \<in> less_than <*lex*> less_than"

lemma led_bound: "led i s ops s' \<Longrightarrow> attempt_bound (aw_tasks s') = attempt_bound (aw_tasks s)"
  by (simp add: led_def same_tasks_bound)

lemma round_goes_down:
  assumes ended: "round_end P i sid s (snap, True) s'" and sid: "sid \<in> pending_steps (abs_dag (aw_dag s) i)"
  shows "lower (loop_measure i s') (loop_measure i s) \<and> current i (aw_dag s') snap \<and> (\<exists>ops. round_trace sid ops \<and> led i s ops s')"
proof -
  let ?st = "abs_dag (aw_dag s) i" and ?st' = "abs_dag (aw_dag s') i"
  obtain n where n: "ds_step ?st sid = Some (StepPending, n)" and o: "sid \<in> set (ds_order ?st)"
    using sid by (auto simp: pending_steps_def step_is_Some)
  obtain run op where op: "step_end_op sid run op" and c: "current i (aw_dag s') snap"
    and r: "tr_status run = ''completed'' \<and> led i s [OpStart sid, op, OpRecompute] s' \<or>
      tr_status run \<noteq> ''completed'' \<and> led i s [OpStart sid, op, OpRecompute, OpResume, OpRecompute] s' \<and> Suc n < attempt_bound (aw_tasks s)"
    using ended n by (auto simp: round_end_def split: if_splits)
  from r show ?thesis
  proof
    assume a: "tr_status run = ''completed'' \<and> led i s [OpStart sid, op, OpRecompute] s'"
    have st': "?st' = fold op_spec [OpStart sid, op, OpRecompute] ?st" using led_abs a by blast
    have step: "ds_step ?st' = (ds_step ?st)(sid \<mapsto> (StepCompleted, Suc n))"
      unfolding st' using completed_round [OF n op] a by blast
    have ord: "ds_order ?st' = ds_order ?st" unfolding st' by (rule order_fold)
    have "pending_steps ?st' = pending_steps ?st - {sid}"
      by (auto simp: pending_steps_def ord step_is_Some step)
    then have "card (pending_steps ?st') < card (pending_steps ?st)" using card_Diff1_less [OF finite_pending sid] by simp
    moreover have "budget (attempt_bound (aw_tasks s)) ?st' \<le> budget (attempt_bound (aw_tasks s)) ?st"
      by (rule budget_le [OF ord]) (simp add: attempts_of_def step n)
    moreover have "round_trace sid [OpStart sid, op, OpRecompute]" using op by (auto simp: round_trace_def)
    ultimately show ?thesis
      using a c led_bound [of i s _ s'] by (auto simp: lower_def loop_measure_def Let_def)
  next
    assume a: "tr_status run \<noteq> ''completed'' \<and> led i s [OpStart sid, op, OpRecompute, OpResume, OpRecompute] s' \<and> Suc n < attempt_bound (aw_tasks s)"
    have st': "?st' = fold op_spec [OpStart sid, op, OpRecompute, OpResume, OpRecompute] ?st" using led_abs a by blast
    have att: "attempts_of ?st' x = (if x = sid then Suc n else attempts_of ?st x)" for x
      unfolding st' using retried_round [OF n op] a by blast
    have n': "attempts_of ?st sid = n" by (simp add: attempts_of_def n)
    have "budget (attempt_bound (aw_tasks s)) ?st' < budget (attempt_bound (aw_tasks s)) ?st"
      by (rule budget_less [OF o]) (use a att n' in \<open>simp_all add: st' del: fold.simps\<close>)
    moreover have "round_trace sid [OpStart sid, op, OpRecompute, OpResume, OpRecompute]" using op by (auto simp: round_trace_def)
    ultimately show ?thesis
      using a c led_bound [of i s _ s'] by (auto simp: lower_def loop_measure_def Let_def)
  qed
qed

lemma selected_step:
  assumes "wf_db (aw_dag s)" "current i (aw_dag s) snap" "selectNextReadyStep snap = Some step"
  shows "sr_stepId step \<in> pending_steps (abs_dag (aw_dag s) i) \<and> step_of (aw_dag s) (i, sr_stepId step) \<noteq> None"
    and "reachable (aw_dag s) \<Longrightarrow> allowed (abs_dag (aw_dag s) i) (OpStart (sr_stepId step))"
proof -
  have step: "step \<in> set (snap_steps snap)" "sr_status step = StepPending" "sr_ready step"
    using first_ready_Some assms(3) by (auto simp: selectNextReadyStep_def)
  obtain r where r: "step_of (aw_dag s) (i, sr_stepId step) = Some r" "step = mapWorkflowDagStepRow r"
    using current_member [OF assms(1,2) step(1)] by blast
  have pend: "step_status_col r = StepPending" "step_ready r = 1" using step r(2) by (simp_all add: mapWorkflowDagStepRow_def)
  have "r \<in> set (rows_of (aw_dag s) i)" "step_step_id r = sr_stepId step" using step_of_in_rows [OF r(1)] by blast+
  then have "sr_stepId step \<in> step_step_id ` set (rows_of (aw_dag s) i)" by (intro image_eqI [of _ _ r]) simp_all
  then have "sr_stepId step \<in> set (ds_order (abs_dag (aw_dag s) i))" by (simp add: abs_dag_def del: set_filter)
  then show p: "sr_stepId step \<in> pending_steps (abs_dag (aw_dag s) i) \<and> step_of (aw_dag s) (i, sr_stepId step) \<noteq> None"
    using pend r(1) by (simp add: pending_steps_def step_is_status status_of_def)
  assume reach: "reachable (aw_dag s)"
  have "step_ready_ok (aw_dag s) i r"
    using reachable_run_inv [OF reach r(1)] r(1) by (simp add: run_inv_def readiness_ok_iff)
  then have "step_ready r = (if step_status_col r = StepPending \<and> blocking_of (aw_dag s) i r = [] then 1 else 0)"
    unfolding step_ready_ok_def by blast
  then have "blocking_of (aw_dag s) i r = []" using pend(2) by (metis zero_neq_one)
  then have "list_all (\<lambda>d. status_of (aw_dag s) i d = Some StepCompleted) (step_dependencies r)"
    by (simp add: blocking_of_def filter_empty_conv list_all_iff)
  moreover have "ds_deps (abs_dag (aw_dag s) i) (sr_stepId step) = step_dependencies r" by (simp add: abs_dag_def r(1))
  ultimately have "deps_completed (abs_dag (aw_dag s) i) (sr_stepId step)"
    by (simp add: deps_completed_def list_all_iff step_is_status)
  then show "allowed (abs_dag (aw_dag s) i) (OpStart (sr_stepId step))" using p by (simp add: pending_steps_def)
qed

definition ready_to_run :: "string \<Rightarrow> 'w app_world \<Rightarrow> bool" where
  "ready_to_run i s \<longleftrightarrow> wf_db (aw_dag s) \<and> wf_tasks (aw_tasks s) \<and> trim i \<noteq> [] \<and>
     (\<forall>sid \<in> set (ds_order (abs_dag (aw_dag s) i)). trim sid \<noteq> [])"

lemma ready_to_run_led: "ready_to_run i s \<Longrightarrow> led i s ops s' \<Longrightarrow> ready_to_run i s'"
  using led_wf [of i s ops s'] led_abs [of i s ops s'] by (simp add: ready_to_run_def)

lemma selected_round:
  assumes "ready_to_run i s" "current i (aw_dag s) snap" "selectNextReadyStep snap = Some step" "all_runs env P"
  shows "wp (executeRound env i step) (round_end P i (sr_stepId step) s) (\<lambda>_ s'. \<exists>ops. round_trace (sr_stepId step) ops \<and> led i s ops s') s"
proof -
  have ok: "wf_db (aw_dag s)" "wf_tasks (aw_tasks s)" "trim i \<noteq> []" using assms(1) by (simp_all add: ready_to_run_def)
  note sel = selected_step(1) [OF ok(1) assms(2,3)]
  then have "trim (sr_stepId step) \<noteq> []" using assms(1) by (simp add: ready_to_run_def pending_steps_def)
  then show ?thesis using executeRound_wp [OF ok(1,2) _ assms(4) ok(3)] sel by blast
qed

lemma wf_loop: "wf {(s, s'). lower (loop_measure i s) (loop_measure i s')}"
  using wf_inv_image [OF wf_lex_prod [OF wf_less_than wf_less_than], of "loop_measure i"]
  by (simp add: lower_def inv_image_def)

lemma executeLoop_step:
  assumes "ready_to_run i s" "current i (aw_dag s) snap" "all_runs env P"
  obtains (stop) "executeLoop env i snap ex s = Some (s, Inr (snap, ex))"
      "terminal_status (rr_status (snap_run snap)) \<or> selectNextReadyStep snap = None"
  | (throw) step s' e ops where "selectNextReadyStep snap = Some step" "executeLoop env i snap ex s = Some (s', Inl e)"
      "round_trace (sr_stepId step) ops" "led i s ops s'"
  | (leave) step s' snap' where "selectNextReadyStep snap = Some step" "\<not> terminal_status (rr_status (snap_run snap))"
      "executeLoop env i snap ex s = Some (s', Inr (snap', ex @ [sr_stepId step]))"
      "round_end P i (sr_stepId step) s (snap', False) s'"
  | (go) step s' snap' where "selectNextReadyStep snap = Some step" "\<not> terminal_status (rr_status (snap_run snap))"
      "executeLoop env i snap ex s = executeLoop env i snap' (ex @ [sr_stepId step]) s'"
      "round_end P i (sr_stepId step) s (snap', True) s'"
proof (cases "terminal_status (rr_status (snap_run snap)) \<or> selectNextReadyStep snap = None")
  case True
  then show ?thesis by (intro stop) (auto simp: executeLoop.simps)
next
  case False
  then obtain step where step: "selectNextReadyStep snap = Some step" by auto
  obtain s' r where r: "executeRound env i step s = (s', r)" by fastforce
  note w = selected_round [OF assms(1,2) step assms(3)]
  show ?thesis
  proof (cases r)
    case (Inl e)
    then obtain ops where "round_trace (sr_stepId step) ops" "led i s ops s'" using w r by (auto simp: wp_def)
    then show ?thesis using False Inl r step by (intro throw [of step]) (auto simp: executeLoop.simps)
  next
    case (Inr x)
    obtain snap' b where x: "x = (snap', b)" by (cases x)
    have e: "round_end P i (sr_stepId step) s (snap', b) s'" using w r Inr x by (simp add: wp_def)
    show ?thesis
    proof (cases b)
      case True
      then show ?thesis using False Inr r x step e by (intro go [of step]) (auto simp: executeLoop.simps)
    next
      case b: False
      then show ?thesis using False Inr r x step e by (intro leave [of step]) (auto simp: executeLoop.simps)
    qed
  qed
qed

lemma round_end_trace:
  "round_end P i sid s (snap, False) s' \<Longrightarrow> \<exists>ops. round_trace sid ops \<and> led i s ops s'"
proof -
  assume "round_end P i sid s (snap, False) s'"
  then obtain run op where "step_end_op sid run op" "led i s [OpStart sid, op, OpRecompute] s'"
    by (auto simp: round_end_def split: if_splits)
  then show ?thesis by (intro exI [of _ "[OpStart sid, op, OpRecompute]"]) (auto simp: round_trace_def)
qed

lemma round_reachable:
  assumes "ready_to_run i s" "current i (aw_dag s) snap" "selectNextReadyStep snap = Some step"
    "round_trace (sr_stepId step) ops" "led i s ops s'" "reachable (aw_dag s)"
  shows "reachable (aw_dag s')"
proof -
  have "allowed (abs_dag (aw_dag s) i) (OpStart (sr_stepId step))"
    using selected_step(2) [OF _ assms(2,3,6)] assms(1) by (simp add: ready_to_run_def)
  then have "allowed_ops (abs_dag (aw_dag s) i) ops" by (rule round_trace_allowed [OF assms(4)])
  then show ?thesis using dag_trace_reachable assms(5,6) by (auto simp: led_def)
qed

lemma all_runs_True: "all_runs env (\<lambda>_. True)"
  by (simp add: all_runs_def wp_any)

lemma executeLoop_ends:
  assumes "ready_to_run i s" "current i (aw_dag s) snap"
  shows "\<exists>s' r. executeLoop env i snap ex s = Some (s', r) \<and> (reachable (aw_dag s) \<longrightarrow> reachable (aw_dag s'))"
  using assms
proof (induction s arbitrary: snap ex rule: wf_induct_rule [OF wf_loop [of i]])
  case (1 s)
  note ok = 1(2) and cur = 1(3)
  show ?case
  proof (cases rule: executeLoop_step [OF ok cur all_runs_True [of env], of ex, case_names stop throw leave go])
    case (throw step s' e ops)
    then show ?thesis using round_reachable [OF ok cur throw(1,3,4)] by blast
  next
    case (leave step s' snap')
    obtain ops where "round_trace (sr_stepId step) ops" "led i s ops s'" using round_end_trace [OF leave(4)] by blast
    then show ?thesis using round_reachable [OF ok cur leave(1)] leave(3) by blast
  next
    case (go step s' snap')
    have "sr_stepId step \<in> pending_steps (abs_dag (aw_dag s) i)"
      using selected_step(1) [OF _ cur go(1)] ok by (simp add: ready_to_run_def)
    note d = round_goes_down [OF go(4) this]
    then obtain ops where ops: "round_trace (sr_stepId step) ops" "led i s ops s'" by blast
    then have "ready_to_run i s'" using ready_to_run_led [OF ok] by blast
    then obtain s'' r where "executeLoop env i snap' (ex @ [sr_stepId step]) s' = Some (s'', r)"
        "reachable (aw_dag s') \<longrightarrow> reachable (aw_dag s'')"
      using 1(1) [of s' snap' "ex @ [sr_stepId step]"] d by blast
    then show ?thesis using round_reachable [OF ok cur go(1) ops] go(3) by metis
  qed blast
qed

lemma led_reachable:
  assumes "led i s ops s'" "reachable (aw_dag s)" "allowed_ops (abs_dag (aw_dag s) i) ops"
  shows "reachable (aw_dag s')"
  using dag_trace_reachable [of i ops "aw_dag s" "aw_dag s'"] assms by (simp add: led_def)

lemma execute_begins:
  assumes "ready_to_run i s"
  shows "(\<exists>e. execute env i s = Some (s, Inl e)) \<or> (\<exists>s1 snap. led i s [OpRecompute] s1 \<and> current i (aw_dag s1) snap \<and>
    execute env i s = map_option (\<lambda>(s2, r). (s2, bindR r (\<lambda>(snap', executed).
        Inr \<lparr>xr_runId = i, xr_status = rr_status (snap_run snap'), xr_executedStepIds = executed, xr_snapshot = snap'\<rparr>)))
        (executeLoop env i snap [] s1))"
proof -
  have ok: "wf_db (aw_dag s)" "wf_tasks (aw_tasks s)" using assms by (simp_all add: ready_to_run_def)
  have w: "wp (recomputeA env i) (\<lambda>snap s'. led i s [OpRecompute] s' \<and> current i (aw_dag s') snap) (\<lambda>_ s'. s' = s) s"
  proof -
    have "wp (recomputeA env i) (\<lambda>snap s'. led i s [OpRecompute] s' \<and> current i (aw_dag s') snap) (\<lambda>_ s'. True) s"
      unfolding recomputeA_def by (rule wp_mono [OF led_op_wp [OF led_refl [OF ok]]]) auto
    moreover have "wp (recomputeA env i) (\<lambda>_ _. True) (\<lambda>_ s'. s' = s) s"
      by (auto simp: recomputeA_def wp_dagA simp del: run_op.simps split: sum.split)
    ultimately show ?thesis by (auto dest: wp_conj elim: wp_mono)
  qed
  obtain s1 r where "recomputeA env i s = (s1, r)" by fastforce
  then show ?thesis using w by (cases r) (auto simp: execute_def wp_def)
qed

lemma execute_ends:
  assumes "ready_to_run i s"
  shows "\<exists>s' r. execute env i s = Some (s', r) \<and> (reachable (aw_dag s) \<longrightarrow> reachable (aw_dag s'))"
  using execute_begins [OF assms, of env]
proof
  assume "\<exists>s1 snap. led i s [OpRecompute] s1 \<and> current i (aw_dag s1) snap \<and>
    execute env i s = map_option (\<lambda>(s2, r). (s2, bindR r (\<lambda>(snap', executed).
        Inr \<lparr>xr_runId = i, xr_status = rr_status (snap_run snap'), xr_executedStepIds = executed, xr_snapshot = snap'\<rparr>)))
        (executeLoop env i snap [] s1)"
  then obtain s1 snap where l: "led i s [OpRecompute] s1" "current i (aw_dag s1) snap"
    and e: "execute env i s = map_option (\<lambda>(s2, r). (s2, bindR r (\<lambda>(snap', executed).
        Inr \<lparr>xr_runId = i, xr_status = rr_status (snap_run snap'), xr_executedStepIds = executed, xr_snapshot = snap'\<rparr>)))
        (executeLoop env i snap [] s1)" by blast
  obtain s2 r where r: "executeLoop env i snap [] s1 = Some (s2, r)" "reachable (aw_dag s1) \<longrightarrow> reachable (aw_dag s2)"
    using executeLoop_ends [OF ready_to_run_led [OF assms l(1)] l(2)] by blast
  have "reachable (aw_dag s) \<longrightarrow> reachable (aw_dag s1)" using led_reachable [OF l(1)] by simp
  then show ?thesis using r e by auto
qed auto

lemma resume_begins:
  assumes "ready_to_run i s"
  shows "wp (seqA (dagA env (\<lambda>db. run_op OpRecover db i)) (resumeA env i))
    (\<lambda>_ s'. led i s [OpRecover, OpResume] s') (\<lambda>_ s'. \<exists>ops. led i s ops s' \<and> set ops \<subseteq> {OpRecover, OpRecompute, OpResume}) s"
proof -
  have ok: "wf_db (aw_dag s)" "wf_tasks (aw_tasks s)" using assms by (simp_all add: ready_to_run_def)
  have b: "wp (resumeA env i) (\<lambda>_ s'. led i s [OpRecover, OpResume] s')
      (\<lambda>_ s'. \<exists>ops. led i s ops s' \<and> set ops \<subseteq> {OpRecover, OpRecompute, OpResume}) s1" if "led i s [OpRecover] s1" for s1
  proof (rule wp_mono [OF led_resume_wp [OF that]])
    fix s' :: "'a app_world"
    assume "led_on i s [OpRecover] s'"
    then obtain rest where "set rest \<subseteq> {OpRecompute, OpResume}" "led i s ([OpRecover] @ rest) s'" by (auto simp: led_on_def)
    then show "\<exists>ops. led i s ops s' \<and> set ops \<subseteq> {OpRecover, OpRecompute, OpResume}"
      by (intro exI [of _ "[OpRecover] @ rest"]) auto
  qed simp
  show ?thesis
    unfolding wp_thenA
    by (rule wp_mono [OF led_op_wp [OF led_refl [OF ok]]]) (use b in \<open>auto intro!: exI [of _ "[]"]\<close>)
qed

lemma bookkeeping_allowed: "set ops \<subseteq> {OpRecover, OpRecompute, OpResume} \<Longrightarrow> allowed_ops st ops"
  by (induction ops arbitrary: st) auto

text \<open>
  C6 Executing a run, and resuming one, always ends, with a result or an error, whatever its tasks
  do and however the retry policies are set: every retry uses up an attempt that no later round gives back, and
  between two retries every round completes a step. And what it does keeps the workflow tables reachable, so the
  safety properties of runs hold after it, on every error path as well.
\<close>

theorem execution_terminates:
  assumes "ready_to_run i s"
  shows "(\<exists>s' r. execute env i s = Some (s', r) \<and> (reachable (aw_dag s) \<longrightarrow> reachable (aw_dag s'))) \<and>
    (\<exists>s' r. resumeExecution env i s = Some (s', r) \<and> (reachable (aw_dag s) \<longrightarrow> reachable (aw_dag s')))"
proof
  obtain s1 r where b: "seqA (dagA env (\<lambda>db. run_op OpRecover db i)) (resumeA env i) s = (s1, r)" by fastforce
  note w = resume_begins [OF assms, of env]
  show "\<exists>s' r. resumeExecution env i s = Some (s', r) \<and> (reachable (aw_dag s) \<longrightarrow> reachable (aw_dag s'))"
  proof (cases r)
    case (Inl e)
    then obtain ops where "led i s ops s1" "set ops \<subseteq> {OpRecover, OpRecompute, OpResume}" using w b by (auto simp: wp_def)
    then show ?thesis using b Inl led_reachable bookkeeping_allowed by (fastforce simp: resumeExecution_def)
  next
    case (Inr x)
    then have l: "led i s [OpRecover, OpResume] s1" using w b by (simp add: wp_def)
    obtain s' r' where "execute env i s1 = Some (s', r')" "reachable (aw_dag s1) \<longrightarrow> reachable (aw_dag s')"
      using execute_ends [OF ready_to_run_led [OF assms l]] by blast
    then show ?thesis using b Inr led_reachable [OF l] by (auto simp: resumeExecution_def)
  qed
qed (rule execute_ends [OF assms])

section \<open>A run of two steps\<close>

text \<open>
  A run of two independent steps, a ready task for each, and an environment that answers by the id of the task.
\<close>

definition demo_two :: dag_db where
  "demo_two = fst (projr (createRun empty_db [] (demo_request\<lparr>cs_tasks := JArr [JObj [(''id'', JStr ''a'')], JObj [(''id'', JStr ''b'')]]\<rparr>) 10))"

definition demo_link :: "string \<Rightarrow> js" where
  "demo_link sid = JObj [(''source'', JStr ''workflow-template''), (''workflowDagRunId'', JStr ''r1''), (''workflowDagStepId'', JStr sid),
     (''retryPolicy'', JObj [(''maxAttempts'', JInt 2), (''backoff'', JStr ''fixed''), (''retryableFailurePhases'', JArr [JStr ''execution'']),
       (''idempotency'', JStr ''read-only''), (''externalWriteRetry'', JStr ''forbid'')])]"

definition demo_task :: "string \<Rightarrow> task_record" where
  "demo_task sid = \<lparr>tk_id = sid, tk_title = [], tk_description = [], tk_status = TaskReady, tk_capabilityRequirements = [],
     tk_assignedAgentId = Some ''a'', tk_assignedAgentVersion = None, tk_inputs = JObj [], tk_dependsOn = [], tk_missionId = None,
     tk_sourceRunId = None, tk_provenance = demo_link sid, tk_createdBy = None, tk_workspaceId = ''default'', tk_createdAt = 0,
     tk_updatedAt = 0, tk_archivedAt = None\<rparr>"

definition demo_world :: "string app_world" where
  "demo_world = \<lparr>aw_dag = demo_two, aw_tasks = [demo_task ''a'', demo_task ''b''], aw_runs = [], aw_outer = []\<rparr>"

definition demo_exec_env :: "(string \<Rightarrow> string \<Rightarrow> run_outcome) \<Rightarrow> string exec_env" where
  "demo_exec_env f = \<lparr>ee_now = (\<lambda>_. 100), ee_iso = (\<lambda>_. ''t''), ee_readiness = (\<lambda>t w. (w, Inr ())),
     ee_prepare = (\<lambda>t w. (CHR ''x'' # w, Inr \<lparr>pr_runId = w, pr_backend = ''b'', pr_agentId = ''a'', pr_agentVersion = ''v''\<rparr>)),
     ee_execute = (\<lambda>t r w. (w, f (tk_id t) w)), ee_sleep = (\<lambda>ms w. w)\<rparr>"

lemma demo_two_reachable: "reachable demo_two"
proof -
  let ?request = "demo_request\<lparr>cs_tasks := JArr [JObj [(''id'', JStr ''a'')], JObj [(''id'', JStr ''b'')]]\<rparr>"
  have "\<not> isl (createRun empty_db [] ?request 10)" by code_simp
  then obtain x where "createRun empty_db [] ?request 10 = Inr x" by (cases "createRun empty_db [] ?request 10") auto
  then have "createRun empty_db [] ?request 10 = Inr (demo_two, snd x)" by (simp add: demo_two_def)
  then show ?thesis by (rule reachable.created [OF reachable.empty])
qed

lemma demo_ready: "ready_to_run ''r1'' demo_world"
proof -
  have "list_all (\<lambda>sid. trim sid \<noteq> []) (ds_order (abs_dag demo_two ''r1''))" by code_simp
  then show ?thesis
    using reachable_inv [OF demo_two_reachable]
    by (simp add: ready_to_run_def demo_world_def wf_tasks_def demo_task_def demo_link_def stored_js_def list_all_iff
        trim_def is_space_def)
qed

theorem execution_terminates_witness:
  "\<exists>s' r. execute (demo_exec_env (\<lambda>_ _. RanFailed (JStr ''no''))) ''r1'' demo_world = Some (s', r) \<and> reachable (aw_dag s')"
  using execution_terminates [OF demo_ready, of "demo_exec_env (\<lambda>_ _. RanFailed (JStr ''no''))"] demo_two_reachable
  by (simp add: demo_world_def)

end
