(* ===== verification/WorkflowProgress.thy ===== *)
theory WorkflowProgress
  imports WorkflowExecutor
begin

text \<open>
  What an execution of a workflow run achieves: a run whose tasks are not cancelled ends completed, with every step
  run, or failed, with a failed step. And what happens when a task is cancelled.
\<close>

section \<open>Tasks that are not cancelled\<close>

definition never_cancelled :: "'w exec_env \<Rightarrow> bool" where
  "never_cancelled env \<longleftrightarrow> (\<forall>t r w signal. snd (ee_execute env t r w) \<noteq> RanCancelled signal)"

lemma wp_then_any: "(\<And>x s'. wp (f x) Q (\<lambda>_ _. True) s') \<Longrightarrow> wp (thenA m f) Q (\<lambda>_ _. True) s"
  by (simp add: wp_thenA wp_any)

lemma end_status:
  assumes "ri_status input = Some x" "run_state_text x \<noteq> ''cancelled''"
  shows "wp (thenA (endRun env i input) (\<lambda>r. seqA (m r) (okA (mapRunRecord r)))) (\<lambda>run _. tr_status run \<noteq> ''cancelled'') (\<lambda>_ _. True) s"
  unfolding wp_thenA
  by (rule wp_mono [OF endRun_status [where x = x]]) (use assms in \<open>auto simp: wp_okA_eta mapRunRecord_def intro!: wp_any\<close>)

lemma finish_status:
  assumes "\<And>signal. outcome \<noteq> RanCancelled signal"
  shows "wp (finishTaskRun env t r outcome) (\<lambda>run _. tr_status run \<noteq> ''cancelled'') (\<lambda>_ _. True) s"
proof (cases outcome)
  case (RanOk v a b n)
  show ?thesis unfolding RanOk finishTaskRun_def run_outcome.case completeTaskRun_def
    by (rule wp_then_any, rule end_status [where x = RunDone]) (simp_all add: no_run_input_def)
next
  case (RanFailed v)
  show ?thesis unfolding RanFailed finishTaskRun_def run_outcome.case failTaskRun_def
    by (rule wp_then_any, rule end_status [where x = RunBroken]) (simp_all add: no_run_input_def)
next
  case (RanOverLimit v)
  show ?thesis unfolding RanOverLimit finishTaskRun_def run_outcome.case stopTaskRunByLimit_def
    by (rule wp_then_any, rule end_status [where x = RunLimited]) (simp_all add: no_run_input_def)
qed (use assms in blast)

lemma never_cancelled_runs:
  assumes "never_cancelled env"
  shows "all_runs env (\<lambda>run. tr_status run \<noteq> ''cancelled'')"
proof -
  have "wp (case x of (t, r) \<Rightarrow> thenA (executeTask env t r) (finishTaskRun env t r)) (\<lambda>run _. tr_status run \<noteq> ''cancelled'') (\<lambda>_ _. True) s"
    for x s
    using assms by (cases x) (simp add: wp_thenA wp_executeTask finish_status never_cancelled_def)
  then show ?thesis unfolding all_runs_def runTask_def by (intro allI wp_then_any)
qed

section \<open>A run on its way\<close>

definition all_completed :: "dag_state \<Rightarrow> bool" where
  "all_completed st \<longleftrightarrow> list_all (step_is st StepCompleted) (ds_order st)"

definition moving :: "dag_state \<Rightarrow> bool" where
  "moving st \<longleftrightarrow> (\<forall>sid \<in> set (ds_order st). step_is st StepPending sid \<or> step_is st StepCompleted sid) \<and>
     (all_completed st \<longrightarrow> ds_status st = RunCompleted)"

lemma step_is_upd: "ds_step st' = (ds_step st)(sid \<mapsto> (x, n)) \<Longrightarrow> step_is st' y t \<longleftrightarrow> (if t = sid then y = x else step_is st y t)"
  by (auto simp: step_is_Some)

lemma moving_completed:
  assumes "moving st" "ds_step st sid = Some (y, n)" "step_end_op sid run op" "tr_status run = ''completed''"
  shows "moving (fold op_spec [OpStart sid, op, OpRecompute] st)"
proof -
  let ?st = "fold op_spec [OpStart sid, op, OpRecompute] st"
  have step: "step_is ?st x t \<longleftrightarrow> (if t = sid then x = StepCompleted else step_is st x t)" for x t
    by (rule step_is_upd [OF completed_round [OF assms(2-4)]])
  have ord: "ds_order ?st = ds_order st" by (rule order_fold)
  obtain v where op: "op = OpComplete sid v" using assms(3,4) by (cases op) (auto simp: step_end_op_def)
  have "ds_status ?st = (if all_completed ?st then RunCompleted else RunRunning)"
    unfolding all_completed_def ord step op using assms(2)
    by (auto simp: finalize_spec_def list_all_iff step_is_Some set_step_def set_attempt_def)
  then show ?thesis using assms(1) unfolding moving_def ord step by auto
qed

lemma moving_retried:
  assumes "moving st" "ds_step st sid = Some (y, n)" "step_end_op sid run op" "tr_status run \<notin> {''completed'', ''cancelled''}"
    "sid \<in> set (ds_order st)" "sid \<noteq> []"
  shows "moving (fold op_spec [OpStart sid, op, OpRecompute, OpResume, OpRecompute] st)" (is "moving ?st")
    and "step_is st StepPending t \<Longrightarrow> step_is (fold op_spec [OpStart sid, op, OpRecompute, OpResume, OpRecompute] st) StepPending t"
proof -
  obtain v where op: "op = OpFail sid v" using assms(3,4) by (cases op) (auto simp: step_end_op_def)
  define f where "f = fold op_spec [OpStart sid, op, OpRecompute] st"
  have f: "ds_step f = (ds_step st)(sid \<mapsto> (StepFailed, Suc n))" using assms(2) by (simp add: f_def op fun_eq_iff)
  note step = step_is_upd [OF f]
  have ord: "ds_order f = ds_order st" "ds_edges f = ds_edges st" unfolding f_def by (rule order_fold)+
  have "find (step_is f StepFailed) (ds_order f) = Some sid"
  proof (cases "find (step_is f StepFailed) (ds_order f)")
    case None
    then show ?thesis using assms(5) by (auto simp: find_None_iff ord step)
  next
    case (Some x)
    have "step_is f StepFailed x" "x \<in> set (ds_order st)" using find_SomeD [OF Some] ord by auto
    moreover have "\<not> step_is st StepFailed x"
      using assms(1) \<open>x \<in> set (ds_order st)\<close> by (auto simp: moving_def step_is_Some)
    ultimately have "x = sid" using step [of StepFailed x] by (auto split: if_splits)
    then show ?thesis using Some by simp
  qed
  note res = step_is_resume [OF this]
  have eq: "?st = resume_spec f" by (simp add: f_def)
  have me: "sid \<in> descendants (ds_edges f) sid" using assms(6) by (simp add: descendants_def)
  have new: "step_is ?st x t \<longleftrightarrow> (if t \<in> descendants (ds_edges f) sid then x = StepPending \<and> ds_step st t \<noteq> None else step_is st x t)" for x t
    unfolding eq res step f using me assms(2) by auto
  have "ds_step st t \<noteq> None" if "t \<in> set (ds_order st)" for t
    using assms(1) that by (auto simp: moving_def step_is_Some)
  moreover have "\<not> all_completed ?st"
    using assms(5) me unfolding all_completed_def list_all_iff order_fold new by auto
  ultimately show "moving ?st"
    using assms(1) unfolding moving_def order_fold new by auto
  show "step_is ?st StepPending t" if "step_is st StepPending t"
    using that unfolding new by (auto simp: step_is_Some)
qed

text \<open>A pending step none of whose dependencies is pending; the dependencies have no cycle.\<close>

lemma first_pending:
  assumes "dag_shape st" "acyclic (dep_edges (ds_edges st))" "sid \<in> pending_steps st"
  obtains p where "p \<in> pending_steps st" "\<And>d. d \<in> set (ds_deps st p) \<Longrightarrow> d \<in> set (ds_order st) \<and> d \<notin> pending_steps st"
proof -
  let ?R = "dep_edges (ds_edges st) \<inter> pending_steps st \<times> pending_steps st"
  have "finite ?R" by (rule finite_subset [of _ "pending_steps st \<times> pending_steps st"]) auto
  moreover have "acyclic ?R" by (rule acyclic_subset [OF assms(2)]) blast
  ultimately have "wf (?R\<inverse>)" by (rule finite_acyclic_wf_converse)
  then obtain p where p: "p \<in> pending_steps st" "\<And>d. (d, p) \<in> ?R\<inverse> \<Longrightarrow> d \<notin> pending_steps st"
    using assms(3) by (metis wfE_min)
  have o: "p \<in> set (ds_order st)" using p(1) by (simp add: pending_steps_def)
  have "d \<in> set (ds_order st) \<and> d \<notin> pending_steps st" if "d \<in> set (ds_deps st p)" for d
  proof -
    have "(p, d) \<in> dep_edges (ds_edges st)" using that shape_deps(1) [OF assms(1) o] by (simp add: dep_edges_def)
    then show ?thesis using p that shape_deps(2) [OF assms(1) o] by blast
  qed
  then show ?thesis using p(1) that by blast
qed

lemma nothing_ready:
  assumes reach: "reachable (aw_dag s)" and cur: "current i (aw_dag s) snap" and mov: "moving (abs_dag (aw_dag s) i)"
    and none: "selectNextReadyStep snap = None"
  shows "all_completed (abs_dag (aw_dag s) i)"
proof (rule ccontr)
  let ?st = "abs_dag (aw_dag s) i"
  have wf: "wf_db (aw_dag s)" using reachable_inv [OF reach] by blast
  obtain r where r: "run_of (aw_dag s) i = Some r" "snap = snapshot_of (aw_dag s) r" using cur by (auto simp: current_def)
  then have inv: "run_inv (aw_dag s) i" using reachable_inv [OF reach] by blast
  then have shape: "dag_shape ?st" and acyc: "acyclic (dep_edges (ds_edges ?st))" and ready: "readiness_ok (aw_dag s) i"
    by (simp_all add: run_inv_def dag_inv_def)
  assume "\<not> all_completed ?st"
  then obtain sid where "sid \<in> pending_steps ?st"
    using mov by (auto simp: all_completed_def moving_def list_all_iff pending_steps_def)
  then obtain p where p: "p \<in> pending_steps ?st" "\<And>d. d \<in> set (ds_deps ?st p) \<Longrightarrow> d \<in> set (ds_order ?st) \<and> d \<notin> pending_steps ?st"
    using first_pending [OF shape acyc] by blast
  obtain row where row: "step_of (aw_dag s) (i, p) = Some row" "step_status_col row = StepPending"
    using p(1) by (auto simp: pending_steps_def step_is_status status_of_def)
  have "step_is ?st StepCompleted d" if "d \<in> set (ds_deps ?st p)" for d
    using mov p(2) [OF that] by (auto simp: moving_def pending_steps_def)
  moreover have "ds_deps ?st p = step_dependencies row" by (simp add: abs_dag_def row(1))
  ultimately have "blocking_of (aw_dag s) i row = []" by (simp add: blocking_of_def filter_empty_conv step_is_status)
  moreover have "step_ready_ok (aw_dag s) i row" using ready row(1) wf by (simp add: readiness_ok_iff)
  ultimately have one: "step_ready row = 1" using row(2) by (simp add: step_ready_ok_def)
  have "p \<in> set (ds_plan ?st)" using p(1) shape by (simp add: pending_steps_def dag_shape_def)
  moreover have "ds_plan ?st = rr_stepOrder (snap_run snap)" by (simp add: abs_dag_def r mapWorkflowDagRunRow_def)
  moreover have "find (\<lambda>s. sr_stepId s = p) (snap_steps snap) = Some (mapWorkflowDagStepRow row)"
    using current_step [OF wf cur, of p] row(1) by simp
  ultimately have "\<not> (sr_status (mapWorkflowDagStepRow row) = StepPending \<and> sr_ready (mapWorkflowDagStepRow row))"
    using none first_ready_None unfolding selectNextReadyStep_def by metis
  then show False using row(2) one by (simp add: mapWorkflowDagStepRow_def)
qed

lemma moving_not_stuck:
  assumes "reachable (aw_dag s)" "current i (aw_dag s) snap" "moving (abs_dag (aw_dag s) i)"
    "terminal_status (rr_status (snap_run snap)) \<or> selectNextReadyStep snap = None"
  shows "rr_status (snap_run snap) = RunCompleted \<and> all_completed (abs_dag (aw_dag s) i)"
proof -
  let ?st = "abs_dag (aw_dag s) i"
  have "run_of (aw_dag s) i \<noteq> None" using assms(2) by (auto simp: current_def)
  then have "status_sound ?st" using reachable_inv [OF assms(1)] by (simp add: run_inv_def dag_inv_def)
  moreover have "\<not> step_is ?st StepFailed sid" if "sid \<in> set (ds_order ?st)" for sid
    using assms(3) that by (auto simp: moving_def step_is_Some)
  ultimately have "terminal_status (ds_status ?st) \<Longrightarrow> all_completed ?st"
    by (auto simp: terminal_status_def status_sound_def all_completed_def list_all_iff)
  then have "all_completed ?st" using assms(4) nothing_ready [OF assms(1-3)] current_status [OF assms(2)] by auto
  then show ?thesis using assms(3) current_status [OF assms(2)] by (simp add: moving_def)
qed

definition failed_run :: "dag_state \<Rightarrow> bool" where
  "failed_run st \<longleftrightarrow> (\<exists>sid \<in> set (ds_order st). step_is st StepFailed sid)"

lemma round_leaves_failed:
  assumes "round_end (\<lambda>run. tr_status run \<noteq> ''cancelled'') i sid s (snap, False) s'" "sid \<in> pending_steps (abs_dag (aw_dag s) i)"
  shows "rr_status (snap_run snap) = RunFailed \<and> failed_run (abs_dag (aw_dag s') i)"
proof -
  let ?st = "abs_dag (aw_dag s) i"
  obtain n where n: "ds_step ?st sid = Some (StepPending, n)" and o: "sid \<in> set (ds_order ?st)"
    using assms(2) by (auto simp: pending_steps_def step_is_Some)
  obtain run op where op: "step_end_op sid run op" "tr_status run \<notin> {''completed'', ''cancelled''}"
    and l: "led i s [OpStart sid, op, OpRecompute] s'" "rr_status (snap_run snap) = ds_status (fold op_spec [OpStart sid, op, OpRecompute] ?st)"
    using assms(1) by (auto simp: round_end_def simp del: fold.simps split: if_splits)
  obtain v where v: "op = OpFail sid v" using op by (cases op) (auto simp: step_end_op_def)
  have "step_is (abs_dag (aw_dag s') i) StepFailed sid" "ds_order (abs_dag (aw_dag s') i) = ds_order ?st"
    unfolding led_abs [OF l(1)] order_fold by (simp_all add: v n step_is_Some)
  moreover have "ds_status (fold op_spec [OpStart sid, op, OpRecompute] ?st) = RunFailed"
    by (simp add: v n set_step_def set_attempt_def)
  ultimately show ?thesis using o l(2) by (auto simp: failed_run_def)
qed

section \<open>The outcome\<close>

lemma round_goes_on:
  assumes "round_end (\<lambda>run. tr_status run \<noteq> ''cancelled'') i sid s (snap, True) s'" "sid \<in> pending_steps (abs_dag (aw_dag s) i)"
    "moving (abs_dag (aw_dag s) i)" "sid \<noteq> []"
  shows "moving (abs_dag (aw_dag s') i) \<and> pending_steps (abs_dag (aw_dag s) i) \<subseteq> insert sid (pending_steps (abs_dag (aw_dag s') i))"
proof -
  let ?st = "abs_dag (aw_dag s) i"
  obtain n where n: "ds_step ?st sid = Some (StepPending, n)" and o: "sid \<in> set (ds_order ?st)"
    using assms(2) by (auto simp: pending_steps_def step_is_Some)
  obtain run op where op: "step_end_op sid run op" "tr_status run \<noteq> ''cancelled''"
    and r: "tr_status run = ''completed'' \<and> led i s [OpStart sid, op, OpRecompute] s' \<or>
      tr_status run \<noteq> ''completed'' \<and> led i s [OpStart sid, op, OpRecompute, OpResume, OpRecompute] s'"
    using assms(1) by (auto simp: round_end_def split: if_splits)
  from r show ?thesis
  proof
    assume a: "tr_status run = ''completed'' \<and> led i s [OpStart sid, op, OpRecompute] s'"
    then have st': "abs_dag (aw_dag s') i = fold op_spec [OpStart sid, op, OpRecompute] ?st" using led_abs by blast
    have "step_is (abs_dag (aw_dag s') i) y t \<longleftrightarrow> (if t = sid then y = StepCompleted else step_is ?st y t)" for y t
      unfolding st' by (rule step_is_upd [OF completed_round [OF n op(1)]]) (use a in blast)
    moreover have "ds_order (abs_dag (aw_dag s') i) = ds_order ?st" unfolding st' by (rule order_fold)
    ultimately show ?thesis
      using moving_completed [OF assms(3) n op(1)] a st' by (auto simp: pending_steps_def simp del: fold.simps)
  next
    assume a: "tr_status run \<noteq> ''completed'' \<and> led i s [OpStart sid, op, OpRecompute, OpResume, OpRecompute] s'"
    then have st': "abs_dag (aw_dag s') i = fold op_spec [OpStart sid, op, OpRecompute, OpResume, OpRecompute] ?st" using led_abs by blast
    have ord: "ds_order (abs_dag (aw_dag s') i) = ds_order ?st" unfolding st' by (rule order_fold)
    have ns: "tr_status run \<notin> {''completed'', ''cancelled''}" using a op(2) by auto
    show ?thesis
      using moving_retried [OF assms(3) n op(1) ns o assms(4)] ord unfolding st' pending_steps_def by auto
  qed
qed

lemma executeLoop_outcome:
  assumes "ready_to_run i s" "reachable (aw_dag s)" "current i (aw_dag s) snap" "moving (abs_dag (aw_dag s) i)" "never_cancelled env"
    "executeLoop env i snap ex s = Some (s', Inr (snap', ex'))"
  shows "rr_status (snap_run snap') = RunCompleted \<and> all_completed (abs_dag (aw_dag s') i) \<and> set ex \<union> pending_steps (abs_dag (aw_dag s) i) \<subseteq> set ex' \<or>
    rr_status (snap_run snap') = RunFailed \<and> failed_run (abs_dag (aw_dag s') i)"
  using assms
proof (induction s arbitrary: snap ex rule: wf_induct_rule [OF wf_loop [of i]])
  case (1 s)
  note ok = 1(2) and reach = 1(3) and cur = 1(4) and mov = 1(5)
  have sel: "sr_stepId step \<in> pending_steps (abs_dag (aw_dag s) i)" "sr_stepId step \<noteq> []" if "selectNextReadyStep snap = Some step" for step
    using selected_step(1) [OF _ cur that] ok by (auto simp: ready_to_run_def pending_steps_def trim_def)
  show ?case
  proof (cases rule: executeLoop_step [OF ok cur never_cancelled_runs [OF assms(5)], of ex, case_names stop throw leave go])
    case stop
    have "pending_steps (abs_dag (aw_dag s) i) = {}" if "all_completed (abs_dag (aw_dag s) i)"
      using that by (auto simp: pending_steps_def all_completed_def list_all_iff step_is_Some)
    then show ?thesis using stop moving_not_stuck [OF reach cur mov] 1(7) by auto
  next
    case (throw step s'' e ops)
    then show ?thesis using 1(7) by simp
  next
    case (leave step s'' snap'')
    then show ?thesis using 1(7) round_leaves_failed [OF leave(4) sel(1) [OF leave(1)]] by simp
  next
    case (go step s1 snap1)
    have "round_end (\<lambda>_. True) i (sr_stepId step) s (snap1, True) s1"
      using go(4) unfolding round_end_def by blast
    note d = round_goes_down [OF this sel(1) [OF go(1)]]
    then obtain ops where ops: "round_trace (sr_stepId step) ops" "led i s ops s1" by blast
    note m = round_goes_on [OF go(4) sel(1) [OF go(1)] mov sel(2) [OF go(1)]]
    have "executeLoop env i snap1 (ex @ [sr_stepId step]) s1 = Some (s', Inr (snap', ex'))" using go(3) 1(7) by simp
    then have "rr_status (snap_run snap') = RunCompleted \<and> all_completed (abs_dag (aw_dag s') i) \<and>
          set (ex @ [sr_stepId step]) \<union> pending_steps (abs_dag (aw_dag s1) i) \<subseteq> set ex' \<or>
        rr_status (snap_run snap') = RunFailed \<and> failed_run (abs_dag (aw_dag s') i)"
      using 1(1) [of s1 snap1 "ex @ [sr_stepId step]"] d m ready_to_run_led [OF ok ops(2)] round_reachable [OF ok cur go(1) ops reach] assms(5)
      by blast
    then show ?thesis using m by auto
  qed
qed

lemma moving_rows:
  assumes "wf_db db" "list_all (\<lambda>st. step_status_col st \<in> {StepPending, StepCompleted}) (rows_of db i)"
    "list_ex (\<lambda>st. step_status_col st = StepPending) (rows_of db i)"
  shows "moving (abs_dag db i)"
proof -
  have "ds_order (abs_dag db i) = map step_step_id (rows_of db i)" by (simp add: abs_dag_def)
  moreover have "step_is (abs_dag db i) x (step_step_id st) \<longleftrightarrow> step_status_col st = x" if "st \<in> set (rows_of db i)" for x st
    using step_is_row [OF assms(1) that] .
  ultimately show ?thesis
    using assms(2,3) by (auto simp: moving_def all_completed_def list_all_iff list_ex_iff)
qed

text \<open>
  C3 An execution of a run that has steps to run, the others being completed, ends in one of three ways
  when no task is cancelled: it throws; or the run is completed, every step is completed and each step that was
  pending is among the executed ones; or the run is failed and has a failed step. It is never left half done: as
  long as a step is pending and none has failed, some step is ready.
\<close>

theorem execution_outcome:
  assumes "ready_to_run i s" "reachable (aw_dag s)" "never_cancelled env"
    "list_all (\<lambda>st. step_status_col st \<in> {StepPending, StepCompleted}) (rows_of (aw_dag s) i)"
    "list_ex (\<lambda>st. step_status_col st = StepPending) (rows_of (aw_dag s) i)"
    "execute env i s = Some (s', Inr x)"
  shows "xr_status x = RunCompleted \<and> list_all (\<lambda>st. step_status_col st = StepCompleted) (rows_of (aw_dag s') i) \<and>
      list_all (\<lambda>st. step_status_col st = StepPending \<longrightarrow> step_step_id st \<in> set (xr_executedStepIds x)) (rows_of (aw_dag s) i) \<or>
    xr_status x = RunFailed \<and> list_ex (\<lambda>st. step_status_col st = StepFailed) (rows_of (aw_dag s') i)"
proof -
  have wf: "wf_db (aw_dag s)" using assms(1) by (simp add: ready_to_run_def)
  obtain s1 snap where l: "led i s [OpRecompute] s1" "current i (aw_dag s1) snap"
    and e: "execute env i s = map_option (\<lambda>(s2, r). (s2, bindR r (\<lambda>(snap', executed).
        Inr \<lparr>xr_runId = i, xr_status = rr_status (snap_run snap'), xr_executedStepIds = executed, xr_snapshot = snap'\<rparr>)))
        (executeLoop env i snap [] s1)"
    using execute_begins [OF assms(1), of env] assms(6) by auto
  have st: "abs_dag (aw_dag s1) i = abs_dag (aw_dag s) i" using led_abs [OF l(1)] by simp
  have ok: "ready_to_run i s1" "reachable (aw_dag s1)" using ready_to_run_led [OF assms(1) l(1)] led_reachable [OF l(1) assms(2)] by auto
  have mov: "moving (abs_dag (aw_dag s1) i)" unfolding st by (rule moving_rows [OF wf assms(4,5)])
  obtain s2 r where r: "executeLoop env i snap [] s1 = Some (s2, r)" "reachable (aw_dag s2)"
    using executeLoop_ends [OF ok(1) l(2), of env "[]"] ok(2) by blast
  then have "s2 = s'" "\<exists>snap' ex. r = Inr (snap', ex) \<and> xr_status x = rr_status (snap_run snap') \<and> xr_executedStepIds x = ex"
    using e assms(6) by (cases r; auto)+
  then obtain snap' ex where x: "executeLoop env i snap [] s1 = Some (s', Inr (snap', ex))" "xr_status x = rr_status (snap_run snap')" "xr_executedStepIds x = ex"
    using r(1) by auto
  have reach': "reachable (aw_dag s')" using r(2) \<open>s2 = s'\<close> by simp
  then have wf': "wf_db (aw_dag s')" using reachable_inv by blast
  have ord: "ds_order (abs_dag db i) = map step_step_id (rows_of db i)" for db by (simp add: abs_dag_def)
  have row: "step_is (abs_dag db i) y (step_step_id r) \<longleftrightarrow> step_status_col r = y" if "wf_db db" "r \<in> set (rows_of db i)" for db y r
    using step_is_row [OF that] .
  have "all_completed (abs_dag (aw_dag s') i) \<longleftrightarrow> list_all (\<lambda>st. step_status_col st = StepCompleted) (rows_of (aw_dag s') i)"
    "failed_run (abs_dag (aw_dag s') i) \<longleftrightarrow> list_ex (\<lambda>st. step_status_col st = StepFailed) (rows_of (aw_dag s') i)"
    using row [OF wf'] by (auto simp: all_completed_def failed_run_def list_all_iff list_ex_iff ord)
  moreover have "step_step_id r \<in> pending_steps (abs_dag (aw_dag s) i)" if "r \<in> set (rows_of (aw_dag s) i)" "step_status_col r = StepPending" for r
    using row [OF wf that(1), of StepPending] that by (auto simp: pending_steps_def ord)
  ultimately show ?thesis
    using executeLoop_outcome [OF ok l(2) mov assms(3) x(1)] unfolding st x(2,3) list_all_iff by (elim disjE) blast+
qed

section \<open>Two executions\<close>

definition ok_env :: "string exec_env" where
  "ok_env = demo_exec_env (\<lambda>_ _. RanOk (JObj []) None JUndefined 0)"

definition cancel_env :: "string exec_env" where
  "cancel_env = demo_exec_env (\<lambda>t _. if t = ''a'' then RanCancelled JNull else RanOk (JObj []) None JUndefined 0)"

text \<open>The result of an execution: status, executed steps, and the statuses of the two steps of the example.\<close>

definition result_of :: "('w app_world \<times> execution_result result) option \<Rightarrow>
    (run_status \<times> string list \<times> step_status option \<times> step_status option) option" where
  "result_of m = (case m of Some (s, Inr x) \<Rightarrow> Some (xr_status x, xr_executedStepIds x,
     status_of (aw_dag s) ''r1'' ''a'', status_of (aw_dag s) ''r1'' ''b'') | _ \<Rightarrow> None)"

declare executeLoop.simps [code]

lemma demo_execution:
  "result_of (execute ok_env ''r1'' demo_world) = Some (RunCompleted, [''a'', ''b''], Some StepCompleted, Some StepCompleted)"
  by code_simp

theorem execution_outcome_witness:
  "\<exists>s' x. execute ok_env ''r1'' demo_world = Some (s', Inr x) \<and> set [''a'', ''b''] = set (xr_executedStepIds x) \<and>
     list_all (\<lambda>st. step_status_col st = StepCompleted) (rows_of (aw_dag s') ''r1'')"
proof -
  obtain s' x where x: "execute ok_env ''r1'' demo_world = Some (s', Inr x)" "xr_status x = RunCompleted" "xr_executedStepIds x = [''a'', ''b'']"
    using demo_execution by (auto simp: result_of_def split: option.splits sum.splits)
  have "list_all (\<lambda>st. step_status_col st \<in> {StepPending, StepCompleted}) (rows_of demo_two ''r1'')"
    "list_ex (\<lambda>st. step_status_col st = StepPending) (rows_of demo_two ''r1'')"
    by code_simp+
  moreover have "never_cancelled ok_env" by (simp add: never_cancelled_def ok_env_def demo_exec_env_def)
  ultimately show ?thesis
    using execution_outcome [OF demo_ready, of ok_env s' x] demo_two_reachable x by (auto simp: demo_world_def)
qed


end
