(* ===== verification/Authorization.thy ===== *)
theory Authorization
  imports Effects
begin

text \<open>
  Who may do what: \<open>control-plane/services/authorization.ts\<close> and the permission tables of \<open>control-plane/rbac.ts\<close>.

  Every service of the control plane is wrapped: a method first asks the authorizer whether the caller, whose
  identity the request carries, has one of the roles the operation needs and reaches it with its scope, and then
  calls the service. Here a wrapped method is a definition whose arguments are the authorizer (\<open>guard\<close>), the
  method of the service it delegates to, and the arguments of the call. The service and the event log are
  arguments: any implementation may be behind the wrapper. Operations are the texts of the code's union type.
\<close>

section \<open>Callers, settings and requirements\<close>

datatype role = Viewer | Operator | Admin

datatype authz_mode = ModeOff | ModeObserve | ModeSoftEnforce | ModeEnforce

datatype decision = Allow | Deny

text \<open>\<open>ScopeSet\<close> and \<open>RequestAuthContext\<close>; an empty list does not restrict, and \<open>workspaces\<close> may be missing.\<close>

record scope_set =
  sc_global :: bool
  sc_agents :: "string list"
  sc_sessionIds :: "string list"
  sc_runIds :: "string list"
  sc_workspaces :: "string list option"

record auth_context =
  cx_subject :: string
  cx_role :: role
  cx_scope :: scope_set

text \<open>The members \<open>auth?.enabled\<close> and \<open>authz\<close> of the configuration.\<close>

record authz_settings =
  az_mode :: authz_mode
  az_defaultDecision :: decision

record authz_config =
  ac_authEnabled :: "bool option"
  ac_authz :: "authz_settings option"

type_synonym operation = string

record requirement =
  rq_operation :: operation
  rq_requiredRoles :: "role list"
  rq_agentName :: "string option"
  rq_sessionId :: "string option"
  rq_runId :: "string option"
  rq_workspaceId :: "string option"

datatype deny_reason = ROLE_MISSING | SCOPED_ACCESS_VIOLATION

definition operations :: "operation list" where
  "operations = [''a2aObservability.get'', ''a2aObservability.alertHistory.list'',
     ''a2aObservability.alertHistory.export'', ''a2aFlow.get'', ''failedWork.discard'', ''failedWork.list'',
     ''failedWork.retry'', ''directives.create'', ''directives.list'', ''durableMemory.archive'',
     ''durableMemory.delete'', ''durableMemory.get'', ''durableMemory.health'', ''durableMemory.list'',
     ''durableMemory.proposal.approve'', ''durableMemory.proposal.archive'', ''durableMemory.proposal.create'',
     ''durableMemory.proposal.list'', ''durableMemory.proposal.reject'', ''durableMemory.search'',
     ''durableMemory.snapshot.create'', ''durableMemory.snapshot.list'', ''durableMemory.snapshot.restore'',
     ''durableMemory.write'', ''events.list'', ''operations.cost.export'', ''operations.cost.settings.read'',
     ''operations.cost.settings.write'', ''operations.summary'', ''governance.audit.list'', ''identity.audit'',
     ''identity.assignments.delete'', ''identity.assignments.list'', ''identity.assignments.upsert'',
     ''identity.roles.list'', ''lsp.definition'', ''lsp.references'', ''lsp.hover'', ''lsp.symbols'', ''memory.get'',
     ''memory.search'', ''modelProviders.create'', ''modelProviders.delete'', ''modelProviders.get'',
     ''modelProviders.list'', ''modelProviders.test'', ''modelProviders.update'', ''policy.put'',
     ''repositories.create'', ''repositories.delete'', ''repositories.get'', ''repositories.inspect'',
     ''repositories.inspectPath'', ''repositories.list'', ''runs.cancel'', ''runs.create'', ''runs.cancelByRunId'',
     ''schedules.remove'', ''schedules.upsert'', ''sessions.artifacts'', ''sessions.get'', ''sessions.list'',
     ''sessions.search'', ''sessions.transcript'', ''taskWorkbench.cancelRun'', ''taskWorkbench.create'',
     ''taskWorkbench.get'', ''taskWorkbench.list'', ''taskWorkbench.metadata'',
     ''taskWorkbench.runEvidenceBundle.export'', ''taskWorkbench.runArtifact.read'', ''taskWorkbench.runReadiness'',
     ''taskWorkbench.run.read'', ''taskWorkbench.runTask'', ''taskWorkbench.update'', ''workflowQueue.status'',
     ''workflowRun.status'', ''work.drain'', ''work.enqueue'', ''work.status'', ''workspaces.create'',
     ''workspaces.delete'', ''workspaces.get'', ''workspaces.list'', ''workspaces.update'']"

section \<open>The scopes of operations\<close>

definition isAgentScopedOperation :: "operation \<Rightarrow> bool" where
  "isAgentScopedOperation p \<longleftrightarrow> p = ''directives.create'' \<or> p = ''runs.create''"

definition isSessionScopedOperation :: "operation \<Rightarrow> bool" where
  "isSessionScopedOperation p \<longleftrightarrow> p = ''sessions.get'' \<or> p = ''sessions.artifacts'' \<or> p = ''sessions.transcript'' \<or>
     p = ''work.enqueue'' \<or> p = ''work.status'' \<or> p = ''work.drain'' \<or> p = ''runs.cancel''"

definition isRunScopedOperation :: "operation \<Rightarrow> bool" where
  "isRunScopedOperation p \<longleftrightarrow> p = ''runs.cancelByRunId''"

definition isWorkspaceScopedOperation :: "operation \<Rightarrow> bool" where
  "isWorkspaceScopedOperation p \<longleftrightarrow> p = ''modelProviders.create'' \<or> p = ''modelProviders.delete'' \<or>
     p = ''modelProviders.get'' \<or> p = ''modelProviders.test'' \<or> p = ''modelProviders.update'' \<or>
     p = ''repositories.create'' \<or> p = ''repositories.delete'' \<or> p = ''repositories.get'' \<or>
     p = ''repositories.inspect'' \<or> p = ''taskWorkbench.cancelRun'' \<or> p = ''taskWorkbench.create'' \<or>
     p = ''taskWorkbench.get'' \<or> p = ''taskWorkbench.runArtifact.read'' \<or>
     p = ''taskWorkbench.runEvidenceBundle.export'' \<or> p = ''taskWorkbench.runReadiness'' \<or>
     p = ''taskWorkbench.run.read'' \<or> p = ''taskWorkbench.runTask'' \<or> p = ''taskWorkbench.update''"

definition isSoftEnforceProtectedOperation :: "operation \<Rightarrow> bool" where
  "isSoftEnforceProtectedOperation p \<longleftrightarrow> p = ''policy.put'' \<or> p = ''durableMemory.proposal.approve'' \<or>
     p = ''durableMemory.proposal.reject'' \<or> p = ''modelProviders.create'' \<or> p = ''modelProviders.delete'' \<or>
     p = ''modelProviders.get'' \<or> p = ''modelProviders.list'' \<or> p = ''modelProviders.test'' \<or>
     p = ''modelProviders.update'' \<or> p = ''repositories.create'' \<or> p = ''repositories.delete'' \<or>
     p = ''repositories.inspect'' \<or> p = ''repositories.inspectPath'' \<or> p = ''taskWorkbench.cancelRun'' \<or>
     p = ''taskWorkbench.create'' \<or> p = ''taskWorkbench.runTask'' \<or> p = ''taskWorkbench.update'' \<or>
     p = ''runs.cancel'' \<or> p = ''runs.cancelByRunId'' \<or> p = ''a2aObservability.alertHistory.list'' \<or>
     p = ''a2aObservability.alertHistory.export'' \<or> p = ''identity.roles.list'' \<or>
     p = ''identity.assignments.list'' \<or> p = ''identity.assignments.upsert'' \<or>
     p = ''identity.assignments.delete'' \<or> p = ''identity.audit'' \<or> p = ''governance.audit.list''"

text \<open>A text that is missing or empty, as \<open>!x\<close> tests it; the text of a role; \<open>a, b or c\<close>.\<close>

definition given :: "string option \<Rightarrow> string option" where
  "given x = (if x = Some [] then None else x)"

fun role_text :: "role \<Rightarrow> string" where
  "role_text Viewer = ''Viewer''"
| "role_text Operator = ''Operator''"
| "role_text Admin = ''Admin''"

definition joinRoles :: "role list \<Rightarrow> string" where
  "joinRoles rs = (case rs of [] \<Rightarrow> ''none'' | [r] \<Rightarrow> role_text r
     | _ \<Rightarrow> join '', '' (map role_text (butlast rs)) @ '' or '' @ role_text (last rs))"

section \<open>The decision\<close>

text \<open>One dimension of \<open>getScopeViolation\<close>: the id must be given and in the list, unless the list is empty.\<close>

definition scope_check :: "bool \<Rightarrow> string list \<Rightarrow> string option \<Rightarrow> string \<Rightarrow> string \<Rightarrow> string option" where
  "scope_check scoped allowed value missing kind =
     (if scoped \<and> allowed \<noteq> [] then (case given value of
        None \<Rightarrow> Some (missing @ '' is required for this scoped operation.'')
      | Some v \<Rightarrow> if v \<notin> set allowed then Some (kind @ '' '' @ quoted v @ '' is outside allowed scope.'') else None)
      else None)"

definition or_first :: "'a option \<Rightarrow> 'a option \<Rightarrow> 'a option" where
  "or_first a b = (case a of Some x \<Rightarrow> Some x | None \<Rightarrow> b)"

definition getScopeViolation :: "requirement \<Rightarrow> scope_set \<Rightarrow> string option" where
  "getScopeViolation rq sc =
     (if sc_global sc then None else
      or_first (scope_check (isAgentScopedOperation (rq_operation rq)) (sc_agents sc) (rq_agentName rq) ''agentName'' ''agent'')
      (or_first (scope_check (isSessionScopedOperation (rq_operation rq)) (sc_sessionIds sc) (rq_sessionId rq) ''sessionId'' ''session'')
      (or_first (scope_check (isRunScopedOperation (rq_operation rq)) (sc_runIds sc) (rq_runId rq) ''runId'' ''run'')
      (scope_check (isWorkspaceScopedOperation (rq_operation rq)) (case sc_workspaces sc of None \<Rightarrow> [] | Some ws \<Rightarrow> ws)
         (rq_workspaceId rq) ''workspaceId'' ''workspace''))))"

definition evaluateDenied :: "requirement \<Rightarrow> auth_context \<Rightarrow> (deny_reason \<times> string option) option" where
  "evaluateDenied rq cx =
     (if cx_role cx \<notin> set (rq_requiredRoles rq) then Some (ROLE_MISSING, None)
      else (case getScopeViolation rq (cx_scope cx) of
        None \<Rightarrow> None
      | Some violation \<Rightarrow> Some (SCOPED_ACCESS_VIOLATION, Some violation)))"

definition resolveAuthzMode :: "authz_config \<Rightarrow> authz_mode" where
  "resolveAuthzMode cfg = (case ac_authz cfg of None \<Rightarrow> ModeOff | Some z \<Rightarrow> az_mode z)"

definition resolveDefaultDecision :: "authz_config \<Rightarrow> authz_mode \<Rightarrow> decision" where
  "resolveDefaultDecision cfg mode =
     (if mode = ModeObserve \<or> mode = ModeSoftEnforce
      then (case ac_authz cfg of None \<Rightarrow> Allow | Some z \<Rightarrow> az_defaultDecision z) else Deny)"

definition shouldDenyInMode :: "authz_mode \<Rightarrow> operation \<Rightarrow> decision \<Rightarrow> bool" where
  "shouldDenyInMode mode p default_decision = (case mode of
     ModeEnforce \<Rightarrow> True
   | ModeObserve \<Rightarrow> default_decision = Deny
   | ModeSoftEnforce \<Rightarrow> isSoftEnforceProtectedOperation p \<or> default_decision = Deny
   | ModeOff \<Rightarrow> False)"

section \<open>The authorizer\<close>

fun deny_reason_text :: "deny_reason \<Rightarrow> string" where
  "deny_reason_text ROLE_MISSING = ''ROLE_MISSING''"
| "deny_reason_text SCOPED_ACCESS_VIOLATION = ''SCOPED_ACCESS_VIOLATION''"

definition denied_event :: "auth_context \<Rightarrow> requirement \<Rightarrow> deny_reason \<Rightarrow> string option \<Rightarrow> js" where
  "denied_event cx rq reason detail = JObj ([(''type'', JStr ''authz.denied'')] @
     opt_field ''sessionId'' (map_option JStr (given (rq_sessionId rq))) @
     opt_field ''runId'' (map_option JStr (given (rq_runId rq))) @
     [(''payload'', JObj ([(''subject'', JStr (cx_subject cx)), (''role'', JStr (role_text (cx_role cx))),
        (''operation'', JStr (rq_operation rq)),
        (''requiredRoles'', JArr (map (JStr \<circ> role_text) (rq_requiredRoles rq))),
        (''denyReason'', JStr (deny_reason_text reason))] @
        (if reason = SCOPED_ACCESS_VIOLATION
         then [(''detailCode'', JStr ''SCOPED_ACCESS_VIOLATION'')] @ opt_field ''denyDetail'' (map_option JStr (given detail))
         else []) @
        opt_field ''agentName'' (map_option JStr (given (rq_agentName rq))) @
        opt_field ''workspaceId'' (map_option JStr (given (rq_workspaceId rq)))))])"

text \<open>The event is sent on a best-effort basis: what \<open>emit\<close> throws is dropped.\<close>

definition emitDenied ::
    "(js \<Rightarrow> ('s, unit) act) \<Rightarrow> auth_context \<Rightarrow> requirement \<Rightarrow> deny_reason \<Rightarrow> string option \<Rightarrow> ('s, unit) act" where
  "emitDenied emit cx rq reason detail = catchA (emit (denied_event cx rq reason detail)) (\<lambda>_. okA ())"

definition authz_denied :: "string \<Rightarrow> error" where
  "authz_denied m = AthenaError AUTHZ_DENIED m False"

definition deny_error :: "requirement \<Rightarrow> deny_reason \<Rightarrow> error" where
  "deny_error rq reason = authz_denied (if reason = ROLE_MISSING
     then ''Forbidden: '' @ rq_operation rq @ '' requires role '' @ joinRoles (rq_requiredRoles rq) @ ''.''
     else ''Forbidden: '' @ rq_operation rq @ '' denied by scope constraints.'')"

definition identity_missing :: error where
  "identity_missing = AthenaError AUTH_IDENTITY_MISSING ''Request identity context is missing.'' False"

definition assertAllowed ::
    "authz_config \<Rightarrow> (js \<Rightarrow> ('s, unit) act) \<Rightarrow> auth_context option \<Rightarrow> requirement \<Rightarrow> ('s, unit) act" where
  "assertAllowed cfg emit ctx rq =
     (if ac_authEnabled cfg \<noteq> Some True then okA ()
      else let mode = resolveAuthzMode cfg;
               deny = shouldDenyInMode mode (rq_operation rq) (resolveDefaultDecision cfg mode) in
      if mode = ModeOff then okA ()
      else (case ctx of
        None \<Rightarrow> if deny then throwA identity_missing else okA ()
      | Some cx \<Rightarrow> (case evaluateDenied rq cx of
          None \<Rightarrow> okA ()
        | Some (reason, detail) \<Rightarrow>
            seqA (emitDenied emit cx rq reason detail) (if deny then throwA (deny_error rq reason) else okA ()))))"

section \<open>The permission tables of roles\<close>

definition VIEWER_PERMISSIONS :: "string list" where
  "VIEWER_PERMISSIONS =
     [''capabilities.get'', ''durableMemory.get'', ''durableMemory.health'', ''durableMemory.list'',
      ''durableMemory.proposal.list'', ''durableMemory.search'', ''durableMemory.snapshot.list'', ''events.list'',
      ''operations.cost.export'', ''operations.cost.settings.read'', ''operations.summary.read'',
      ''lsp.definition'', ''lsp.hover'', ''lsp.references'', ''lsp.symbols'', ''memory.get'', ''memory.search'',
      ''sessions.artifacts.read'', ''sessions.get'', ''sessions.list'', ''sessions.search'',
      ''sessions.transcript.read'', ''taskWorkbench.get'', ''taskWorkbench.list'', ''taskWorkbench.metadata'',
      ''taskWorkbench.runArtifact.read'', ''taskWorkbench.runReadiness'', ''taskWorkbench.run.read'']"

definition OPERATOR_ADDITIONAL_PERMISSIONS :: "string list" where
  "OPERATOR_ADDITIONAL_PERMISSIONS =
     [''a2a.observability.get'', ''a2a.observability.alertHistory.list'', ''a2a.observability.alertHistory.export'',
      ''a2a.flow.get'', ''failed-work.discard'', ''failed-work.list'', ''failed-work.retry'',
      ''directives.create'', ''directives.list'', ''durableMemory.archive'', ''durableMemory.delete'',
      ''durableMemory.proposal.approve'', ''durableMemory.proposal.archive'', ''durableMemory.proposal.create'',
      ''durableMemory.proposal.reject'', ''durableMemory.snapshot.create'', ''durableMemory.snapshot.restore'',
      ''durableMemory.write'', ''operations.cost.settings.write'', ''runs.cancel'', ''runs.cancelByRunId'',
      ''runs.create'', ''schedules.remove'', ''schedules.upsert'', ''taskWorkbench.cancelRun'',
      ''taskWorkbench.create'', ''taskWorkbench.runTask'', ''taskWorkbench.update'', ''work.drain'',
      ''work.enqueue'', ''work.status'', ''workflow.create'', ''workflow.list'', ''workflow.resume'',
      ''workflow.status'']"

definition ADMIN_ADDITIONAL_PERMISSIONS :: "string list" where
  "ADMIN_ADDITIONAL_PERMISSIONS =
     [''policy.put'', ''governance.audit.list'', ''modelProviders.create'', ''modelProviders.delete'',
      ''modelProviders.get'', ''modelProviders.list'', ''modelProviders.test'', ''modelProviders.update'',
      ''rbac.assignments.delete'', ''rbac.assignments.list'', ''rbac.assignments.upsert'', ''rbac.audit.read'',
      ''rbac.roles.list'']"

fun ROLE_PERMISSIONS :: "role \<Rightarrow> string list" where
  "ROLE_PERMISSIONS Viewer = VIEWER_PERMISSIONS"
| "ROLE_PERMISSIONS Operator = VIEWER_PERMISSIONS @ OPERATOR_ADDITIONAL_PERMISSIONS"
| "ROLE_PERMISSIONS Admin = VIEWER_PERMISSIONS @ OPERATOR_ADDITIONAL_PERMISSIONS @ ADMIN_ADDITIONAL_PERMISSIONS"

definition getPermissionsForRole :: "role \<Rightarrow> string list" where
  "getPermissionsForRole r = ROLE_PERMISSIONS r"

definition listRbacRoles :: "(role \<times> string list) list" where
  "listRbacRoles = map (\<lambda>r. (r, getPermissionsForRole r)) [Viewer, Operator, Admin]"

record simulated_operation =
  so_id :: string
  so_label :: string
  so_requiredPermission :: string

definition SIMULATED_OPERATIONS :: "simulated_operation list" where
  "SIMULATED_OPERATIONS = map (\<lambda>(i, l, p). \<lparr>so_id = i, so_label = l, so_requiredPermission = p\<rparr>)
     [(''provider-config'', ''Provider configuration'', ''modelProviders.update''),
      (''task-execution'', ''Task execution'', ''taskWorkbench.runTask''),
      (''memory-approval'', ''Memory proposal approval'', ''durableMemory.proposal.approve''),
      (''policy-change'', ''Policy changes'', ''policy.put''),
      (''audit-export'', ''Audit export/search'', ''governance.audit.list'')]"

definition simulateRbacRole :: "role \<Rightarrow> (simulated_operation \<times> bool) list" where
  "simulateRbacRole r = map (\<lambda>p. (p, so_requiredPermission p \<in> set (getPermissionsForRole r))) SIMULATED_OPERATIONS"

section \<open>What the authorizer decides\<close>

text \<open>
  The specification: a dimension of the scope that an operation is subject to admits the ids of its list, or every
  id if the list is empty.
\<close>

definition scope_dimensions :: "requirement \<Rightarrow> scope_set \<Rightarrow> (bool \<times> string list \<times> string option) list" where
  "scope_dimensions rq sc =
     [(isAgentScopedOperation (rq_operation rq), sc_agents sc, rq_agentName rq),
      (isSessionScopedOperation (rq_operation rq), sc_sessionIds sc, rq_sessionId rq),
      (isRunScopedOperation (rq_operation rq), sc_runIds sc, rq_runId rq),
      (isWorkspaceScopedOperation (rq_operation rq), concat (case sc_workspaces sc of None \<Rightarrow> [] | Some ws \<Rightarrow> [ws]),
       rq_workspaceId rq)]"

definition within_scope :: "scope_set \<Rightarrow> requirement \<Rightarrow> bool" where
  "within_scope sc rq \<longleftrightarrow> sc_global sc \<or>
     list_all (\<lambda>(scoped, allowed, v). scoped \<longrightarrow> allowed = [] \<or> (\<exists>x. v = Some x \<and> x \<noteq> [] \<and> x \<in> set allowed))
       (scope_dimensions rq sc)"

definition permitted :: "auth_context \<Rightarrow> requirement \<Rightarrow> bool" where
  "permitted cx rq \<longleftrightarrow> cx_role cx \<in> set (rq_requiredRoles rq) \<and> within_scope (cx_scope cx) rq"

lemma given_Some: "given v = Some x \<longleftrightarrow> v = Some x \<and> x \<noteq> []"
  by (auto simp: given_def)

lemma given_None: "given v = None \<longleftrightarrow> v = None \<or> v = Some []"
  by (auto simp: given_def)

lemma or_first_None [simp]: "or_first a b = None \<longleftrightarrow> a = None \<and> b = None"
  by (simp add: or_first_def split: option.split)

lemma scope_check_None:
  "scope_check scoped allowed v m k = None \<longleftrightarrow>
     (scoped \<longrightarrow> allowed = [] \<or> (\<exists>x. v = Some x \<and> x \<noteq> [] \<and> x \<in> set allowed))"
  by (auto simp: scope_check_def given_Some given_None split: option.splits)

lemma getScopeViolation_None: "getScopeViolation rq sc = None \<longleftrightarrow> within_scope sc rq"
  by (cases "sc_workspaces sc") (simp_all add: getScopeViolation_def within_scope_def scope_dimensions_def scope_check_None)

lemma evaluateDenied_None: "evaluateDenied rq cx = None \<longleftrightarrow> permitted cx rq"
  using getScopeViolation_None [of rq "cx_scope cx"]
  by (auto simp: evaluateDenied_def permitted_def split: option.split)

lemma evaluateDenied_reason:
  "evaluateDenied rq cx = Some (reason, detail) \<Longrightarrow> (reason = ROLE_MISSING \<longleftrightarrow> cx_role cx \<notin> set (rq_requiredRoles rq))"
  by (auto simp: evaluateDenied_def split: if_splits option.splits)

lemma emitDenied_returns: "emitDenied emit cx rq reason detail s = (fst (emit (denied_event cx rq reason detail) s), Inr ())"
  by (simp add: emitDenied_def catchA_def okA_def split: prod.split sum.split)

text \<open> C7 In enforce mode a call without identity is refused, a call whose role and scope admit the operation passes
  without any effect, and every other call is refused, with the reason that applies, after the denial was reported
  to the event log, whether or not the log could take it.
\<close>

theorem authorization_exact:
  assumes "ac_authEnabled cfg = Some True" and "resolveAuthzMode cfg = ModeEnforce"
  shows "case ctx of
      None \<Rightarrow> assertAllowed cfg emit ctx rq s = (s, Inl identity_missing)
    | Some cx \<Rightarrow> if permitted cx rq then assertAllowed cfg emit ctx rq s = (s, Inr ())
        else (\<exists>reason detail. (reason = ROLE_MISSING \<longleftrightarrow> cx_role cx \<notin> set (rq_requiredRoles rq)) \<and>
          assertAllowed cfg emit ctx rq s = (fst (emit (denied_event cx rq reason detail) s), Inl (deny_error rq reason)))"
proof (cases ctx)
  case None
  then show ?thesis using assms by (simp add: assertAllowed_def shouldDenyInMode_def throwA_def)
next
  case (Some cx)
  show ?thesis
  proof (cases "evaluateDenied rq cx")
    case None
    then have "permitted cx rq" using evaluateDenied_None [of rq cx] by simp
    then show ?thesis using assms Some None by (simp add: assertAllowed_def okA_def)
  next
    case denied: (Some d)
    obtain reason detail where d: "d = (reason, detail)" by (cases d)
    have "\<not> permitted cx rq" using denied evaluateDenied_None [of rq cx] by simp
    moreover have "assertAllowed cfg emit ctx rq s = (fst (emit (denied_event cx rq reason detail) s), Inl (deny_error rq reason))"
      using assms Some denied d
      by (simp add: assertAllowed_def shouldDenyInMode_def thenA_def emitDenied_returns throwA_def Let_def)
    ultimately show ?thesis using Some evaluateDenied_reason [OF denied [unfolded d]] by auto
  qed
qed

definition open_scope :: scope_set where
  "open_scope = \<lparr>sc_global = False, sc_agents = [], sc_sessionIds = [], sc_runIds = [], sc_workspaces = None\<rparr>"

definition as_role :: "role \<Rightarrow> scope_set \<Rightarrow> auth_context" where
  "as_role r sc = \<lparr>cx_subject = ''u'', cx_role = r, cx_scope = sc\<rparr>"

definition enforce_config :: "decision \<Rightarrow> authz_config" where
  "enforce_config d = \<lparr>ac_authEnabled = Some True, ac_authz = Some \<lparr>az_mode = ModeEnforce, az_defaultDecision = d\<rparr>\<rparr>"

lemma enforce_config: "ac_authEnabled (enforce_config d) = Some True" "resolveAuthzMode (enforce_config d) = ModeEnforce"
  by (simp_all add: enforce_config_def resolveAuthzMode_def)

theorem authorization_exact_witness:
  "assertAllowed (enforce_config Allow) (\<lambda>e. throwA (JsError ''full'')) (Some (as_role Operator (open_scope\<lparr>sc_sessionIds := [''a'']\<rparr>)))
     \<lparr>rq_operation = ''work.drain'', rq_requiredRoles = [Operator, Admin], rq_agentName = None, rq_sessionId = Some ''b'',
       rq_runId = None, rq_workspaceId = None\<rparr> (0 :: nat) =
   (0, Inl (authz_denied ''Forbidden: work.drain denied by scope constraints.''))"
proof -
  let ?cx = "as_role Operator (open_scope\<lparr>sc_sessionIds := [''a'']\<rparr>)"
  let ?rq = "\<lparr>rq_operation = ''work.drain'', rq_requiredRoles = [Operator, Admin], rq_agentName = None, rq_sessionId = Some ''b'',
       rq_runId = None, rq_workspaceId = None\<rparr>"
  have "\<not> permitted ?cx ?rq"
    by (simp add: permitted_def within_scope_def scope_dimensions_def as_role_def open_scope_def isSessionScopedOperation_def)
  then show ?thesis
    using authorization_exact [OF enforce_config [of Allow], where ctx = "Some ?cx" and emit = "\<lambda>e. throwA (JsError ''full'')" and rq = ?rq and s = "0 :: nat"]
    by (auto simp: as_role_def throwA_def deny_error_def)
qed

end
