(* ===== verification/AuthorizedServices.thy ===== *)
theory AuthorizedServices
  imports Authorization
begin

text \<open>
  The wrapped services, from \<open>AuthorizedRunService\<close> on in \<open>control-plane/services/authorization.ts\<close>: one definition
  per method, over the authorizer \<open>guard\<close> and the method \<open>delegate\<close> of the service behind it. A method that is
  not guarded in the code takes no \<open>guard\<close>. Requests and results are records with the members that the wrapper
  reads, open for the others.
\<close>

type_synonym 's guard = "requirement \<Rightarrow> ('s, unit) act"

abbreviation anyone :: "role list" where
  "anyone \<equiv> [Viewer, Operator, Admin]"

abbreviation operators :: "role list" where
  "operators \<equiv> [Operator, Admin]"

abbreviation admins :: "role list" where
  "admins \<equiv> [Admin]"

text \<open>A requirement without ids, and a call after its check.\<close>

definition requires :: "operation \<Rightarrow> role list \<Rightarrow> requirement" where
  "requires p rs = \<lparr>rq_operation = p, rq_requiredRoles = rs, rq_agentName = None, rq_sessionId = None, rq_runId = None,
     rq_workspaceId = None\<rparr>"

definition guarded :: "'s guard \<Rightarrow> requirement \<Rightarrow> ('s, 'r) act \<Rightarrow> ('s, 'r) act" where
  "guarded guard rq m = seqA (guard rq) m"

section \<open>Scopes of lists and of new records\<close>

record workspaced =
  wo_workspaceId :: string

record 'i listing =
  li_items :: "'i list"
  li_total :: int

record workspace_request =
  wr_workspaceId :: "string option"

definition workspaceScopeIds :: "auth_context option \<Rightarrow> string list option" where
  "workspaceScopeIds ctx = (case ctx of None \<Rightarrow> None | Some cx \<Rightarrow>
     if sc_global (cx_scope cx) then None
     else (case sc_workspaces (cx_scope cx) of None \<Rightarrow> None | Some [] \<Rightarrow> None | Some ws \<Rightarrow> Some ws))"

definition filterByWorkspaceScope :: "auth_context option \<Rightarrow> 'm workspaced_scheme list \<Rightarrow> 'm workspaced_scheme list" where
  "filterByWorkspaceScope ctx items = (case workspaceScopeIds ctx of
     None \<Rightarrow> items | Some allowed \<Rightarrow> filter (\<lambda>x. wo_workspaceId x \<in> set allowed) items)"

definition resolveListWorkspaceId :: "auth_context option \<Rightarrow> string option \<Rightarrow> string option result" where
  "resolveListWorkspaceId ctx requested =
     (case (given requested, workspaceScopeIds ctx) of
        (Some w, Some allowed) \<Rightarrow>
          if w \<notin> set allowed then Inl (authz_denied (''Forbidden: workspace '' @ quoted w @ '' is outside allowed scope.''))
          else Inr (Some w)
      | (Some w, None) \<Rightarrow> Inr (Some w)
      | (None, Some [w]) \<Rightarrow> Inr (Some w)
      | (None, _) \<Rightarrow> Inr None)"

definition resolveMutationWorkspaceId :: "auth_context option \<Rightarrow> string option \<Rightarrow> string option result" where
  "resolveMutationWorkspaceId ctx requested = (case workspaceScopeIds ctx of
     None \<Rightarrow> Inr requested
   | Some allowed \<Rightarrow> (case given requested of
        Some w \<Rightarrow> Inr (Some w)
      | None \<Rightarrow> (case allowed of [w] \<Rightarrow> Inr (Some w)
          | _ \<Rightarrow> Inl (authz_denied ''Forbidden: workspaceId is required for this scoped operation.''))))"

definition resolveAgentName :: "(string \<times> string) list option \<Rightarrow> string option" where
  "resolveAgentName metadata = (case metadata of None \<Rightarrow> None
   | Some m \<Rightarrow> given (map_option trim (or_first (map_of m ''agentName'') (map_of m ''agent''))))"

text \<open>\<open>{...request, ...(workspaceId ? { workspaceId } : {})}\<close>.\<close>

definition in_workspace :: "string option \<Rightarrow> 'm workspace_request_scheme \<Rightarrow> 'm workspace_request_scheme" where
  "in_workspace w request = (case given w of None \<Rightarrow> request | Some v \<Rightarrow> request\<lparr>wr_workspaceId := Some v\<rparr>)"

section \<open>Runs, schedules and the policy\<close>

record run_request =
  rr_session :: string
  rr_metadata :: "(string \<times> string) list option"

record session_request =
  sq_sessionId :: string

definition AuthorizedRunService_run ::
    "'s guard \<Rightarrow> ('m run_request_scheme \<Rightarrow> 'o \<Rightarrow> ('s, 'r) act) \<Rightarrow> 'm run_request_scheme \<Rightarrow> 'o \<Rightarrow> ('s, 'r) act" where
  "AuthorizedRunService_run guard delegate request options =
     guarded guard ((requires ''runs.create'' anyone)\<lparr>rq_sessionId := Some (rr_session request),
       rq_agentName := resolveAgentName (rr_metadata request)\<rparr>) (delegate request options)"

definition AuthorizedRunService_cancel ::
    "'s guard \<Rightarrow> ('m session_request_scheme \<Rightarrow> ('s, 'r) act) \<Rightarrow> 'm session_request_scheme \<Rightarrow> ('s, 'r) act" where
  "AuthorizedRunService_cancel guard delegate request =
     guarded guard ((requires ''runs.cancel'' operators)\<lparr>rq_sessionId := Some (sq_sessionId request)\<rparr>)
       (delegate request)"

record run_id_request =
  ri_runId :: string

definition AuthorizedRunService_cancelByRunId ::
    "'s guard \<Rightarrow> ('m run_id_request_scheme \<Rightarrow> ('s, 'r) act) \<Rightarrow> 'm run_id_request_scheme \<Rightarrow> ('s, 'r) act" where
  "AuthorizedRunService_cancelByRunId guard delegate request =
     guarded guard ((requires ''runs.cancelByRunId'' operators)\<lparr>rq_runId := Some (ri_runId request)\<rparr>)
       (delegate request)"

definition AuthorizedRunService_listActiveRuns ::
    "('a \<Rightarrow> ('s, 'r) act) \<Rightarrow> 'a \<Rightarrow> ('s, 'r) act" where
  "AuthorizedRunService_listActiveRuns delegate query = delegate query"

definition AuthorizedRunService_listCancellationRequests ::
    "('a \<Rightarrow> ('s, 'r) act) \<Rightarrow> 'a \<Rightarrow> ('s, 'r) act" where
  "AuthorizedRunService_listCancellationRequests delegate query = delegate query"

record schedule_request =
  sh_sessionId :: "string option"

definition AuthorizedScheduleService_upsert ::
    "'s guard \<Rightarrow> ('m schedule_request_scheme \<Rightarrow> ('s, 'r) act) \<Rightarrow> 'm schedule_request_scheme \<Rightarrow> ('s, 'r) act" where
  "AuthorizedScheduleService_upsert guard delegate request =
     guarded guard ((requires ''schedules.upsert'' operators)\<lparr>rq_sessionId := given (sh_sessionId request)\<rparr>)
       (delegate request)"

definition AuthorizedScheduleService_list :: "('s, 'r) act \<Rightarrow> ('s, 'r) act" where
  "AuthorizedScheduleService_list delegate = delegate"

definition AuthorizedScheduleService_get ::
    "('a \<Rightarrow> ('s, 'r) act) \<Rightarrow> 'a \<Rightarrow> ('s, 'r) act" where
  "AuthorizedScheduleService_get delegate i = delegate i"

definition AuthorizedScheduleService_remove ::
    "'s guard \<Rightarrow> ('a \<Rightarrow> ('s, 'r) act) \<Rightarrow> 'a \<Rightarrow> ('s, 'r) act" where
  "AuthorizedScheduleService_remove guard delegate i =
     guarded guard (requires ''schedules.remove'' operators) (delegate i)"

definition AuthorizedScheduleService_run ::
    "('a \<Rightarrow> 'b \<Rightarrow> ('s, 'r) act) \<Rightarrow> 'a \<Rightarrow> 'b \<Rightarrow> ('s, 'r) act" where
  "AuthorizedScheduleService_run delegate i options = delegate i options"

definition AuthorizedScheduleService_runDue ::
    "('a \<Rightarrow> 'b \<Rightarrow> ('s, 'r) act) \<Rightarrow> 'a \<Rightarrow> 'b \<Rightarrow> ('s, 'r) act" where
  "AuthorizedScheduleService_runDue delegate now options = delegate now options"

definition AuthorizedScheduleService_logs ::
    "('a \<Rightarrow> 'b \<Rightarrow> ('s, 'r) act) \<Rightarrow> 'a \<Rightarrow> 'b \<Rightarrow> ('s, 'r) act" where
  "AuthorizedScheduleService_logs delegate i options = delegate i options"

definition AuthorizedPolicyService_get :: "('s, 'r) act \<Rightarrow> ('s, 'r) act" where
  "AuthorizedPolicyService_get delegate = delegate"

definition AuthorizedPolicyService_put ::
    "'s guard \<Rightarrow> ('a \<Rightarrow> ('s, 'r) act) \<Rightarrow> 'a \<Rightarrow> ('s, 'r) act" where
  "AuthorizedPolicyService_put guard delegate policy =
     guarded guard (requires ''policy.put'' admins) (delegate policy)"

definition AuthorizedPolicyService_listConcurrencyRejections ::
    "('a \<Rightarrow> ('s, 'r) act) \<Rightarrow> 'a \<Rightarrow> ('s, 'r) act" where
  "AuthorizedPolicyService_listConcurrencyRejections delegate query = delegate query"

definition AuthorizedPolicyService_recordConcurrencyRejection ::
    "('a \<Rightarrow> ('s, 'r) act) \<Rightarrow> 'a \<Rightarrow> ('s, 'r) act" where
  "AuthorizedPolicyService_recordConcurrencyRejection delegate record = delegate record"

section \<open>Sessions and directives\<close>

record session_summary =
  ss_id :: string

record 'v session_hit =
  sh_session :: 'v

text \<open>The sessions in scope: the test both methods repeat.\<close>

definition session_scope :: "auth_context option \<Rightarrow> string list option" where
  "session_scope ctx = (case ctx of None \<Rightarrow> None | Some cx \<Rightarrow>
     if sc_global (cx_scope cx) \<or> sc_sessionIds (cx_scope cx) = [] then None else Some (sc_sessionIds (cx_scope cx)))"

definition AuthorizedSessionService_listSessions ::
    "'s guard \<Rightarrow> auth_context option \<Rightarrow> ('s, 'm session_summary_scheme list) act \<Rightarrow>
       ('s, 'm session_summary_scheme list) act" where
  "AuthorizedSessionService_listSessions guard ctx delegate =
     guarded guard (requires ''sessions.list'' anyone) (thenA delegate (\<lambda>sessions. okA (case session_scope ctx of
       None \<Rightarrow> sessions | Some allowed \<Rightarrow> filter (\<lambda>x. ss_id x \<in> set allowed) sessions)))"

definition AuthorizedSessionService_searchSessions ::
    "'s guard \<Rightarrow> auth_context option \<Rightarrow> ('q \<Rightarrow>
       ('s, (('m session_summary_scheme, 'h) session_hit_scheme, 'z) listing_scheme) act) \<Rightarrow>
       'q \<Rightarrow> ('s, (('m session_summary_scheme, 'h) session_hit_scheme, 'z) listing_scheme) act" where
  "AuthorizedSessionService_searchSessions guard ctx delegate query =
     guarded guard (requires ''sessions.search'' anyone) (thenA
       (delegate query) (\<lambda>searched. okA (case session_scope ctx of
       None \<Rightarrow> searched
     | Some allowed \<Rightarrow> (let filteredItems = filter (\<lambda>x. ss_id (sh_session x) \<in> set allowed) (li_items searched)
         in searched\<lparr>li_items := filteredItems, li_total := int (length filteredItems)\<rparr>))))"

definition AuthorizedSessionService_getSession ::
    "'s guard \<Rightarrow> (string \<Rightarrow> ('s, 'r) act) \<Rightarrow> string \<Rightarrow> ('s, 'r) act" where
  "AuthorizedSessionService_getSession guard delegate sessionId =
     guarded guard ((requires ''sessions.get'' anyone)\<lparr>rq_sessionId := Some sessionId\<rparr>) (delegate sessionId)"

definition AuthorizedSessionService_getTranscript ::
    "'s guard \<Rightarrow> (string \<Rightarrow> 'b \<Rightarrow> ('s, 'r) act) \<Rightarrow> string \<Rightarrow> 'b \<Rightarrow> ('s, 'r) act" where
  "AuthorizedSessionService_getTranscript guard delegate sessionId options =
     guarded guard ((requires ''sessions.transcript'' anyone)\<lparr>rq_sessionId := Some sessionId\<rparr>)
       (delegate sessionId options)"

definition AuthorizedSessionService_subscribeTranscript ::
    "'s guard \<Rightarrow> (string \<Rightarrow> 'b \<Rightarrow> ('s, 'r) act) \<Rightarrow> string \<Rightarrow> 'b \<Rightarrow> ('s, 'r) act" where
  "AuthorizedSessionService_subscribeTranscript guard delegate sessionId listener =
     guarded guard ((requires ''sessions.transcript'' anyone)\<lparr>rq_sessionId := Some sessionId\<rparr>)
       (delegate sessionId listener)"

definition AuthorizedSessionService_listArtifacts ::
    "'s guard \<Rightarrow> (string \<Rightarrow> ('s, 'r) act) \<Rightarrow> string \<Rightarrow> ('s, 'r) act" where
  "AuthorizedSessionService_listArtifacts guard delegate sessionId =
     guarded guard ((requires ''sessions.artifacts'' anyone)\<lparr>rq_sessionId := Some sessionId\<rparr>) (delegate sessionId)"

definition AuthorizedSessionService_getArtifact ::
    "'s guard \<Rightarrow> (string \<Rightarrow> string \<Rightarrow> 'c \<Rightarrow> ('s, 'r) act) \<Rightarrow> string \<Rightarrow> string \<Rightarrow> 'c \<Rightarrow> ('s, 'r) act" where
  "AuthorizedSessionService_getArtifact guard delegate sessionId runId artifactId =
     guarded guard ((requires ''sessions.artifacts'' anyone)\<lparr>rq_sessionId := Some sessionId\<rparr>)
       (delegate sessionId runId artifactId)"

record directive_item =
  di_metadata :: "(string \<times> string) list option"

definition agent_scope :: "auth_context option \<Rightarrow> string list option" where
  "agent_scope ctx = (case ctx of None \<Rightarrow> None | Some cx \<Rightarrow>
     if sc_global (cx_scope cx) \<or> sc_agents (cx_scope cx) = [] then None else Some (sc_agents (cx_scope cx)))"

definition AuthorizedDirectiveService_list ::
    "'s guard \<Rightarrow> auth_context option \<Rightarrow> ('q \<Rightarrow> ('s, ('m directive_item_scheme, 'z) listing_scheme) act) \<Rightarrow>
       'q \<Rightarrow> ('s, ('m directive_item_scheme, 'z) listing_scheme) act" where
  "AuthorizedDirectiveService_list guard ctx delegate query =
     guarded guard (requires ''directives.list'' operators) (thenA
       (delegate query) (\<lambda>listed. okA (case agent_scope ctx of
       None \<Rightarrow> listed
     | Some allowed \<Rightarrow> listed\<lparr>li_items := filter (\<lambda>d. case resolveAgentName (di_metadata d) of
         None \<Rightarrow> False | Some a \<Rightarrow> a \<in> set allowed) (li_items listed)\<rparr>)))"

definition AuthorizedDirectiveService_create ::
    "'s guard \<Rightarrow> ('m directive_item_scheme \<Rightarrow> ('s, 'r) act) \<Rightarrow> 'm directive_item_scheme \<Rightarrow> ('s, 'r) act" where
  "AuthorizedDirectiveService_create guard delegate request =
     guarded guard ((requires ''directives.create'' operators)\<lparr>rq_agentName := resolveAgentName (di_metadata request)\<rparr>)
       (delegate request)"

section \<open>Workflow status, work queues and memory\<close>

definition AuthorizedWorkflowStatusService_getStatus ::
    "'s guard \<Rightarrow> (string \<Rightarrow> ('s, 'r) act) \<Rightarrow> string \<Rightarrow> ('s, 'r) act" where
  "AuthorizedWorkflowStatusService_getStatus guard delegate runId =
     guarded guard ((requires ''workflowRun.status'' operators)\<lparr>rq_runId := Some runId\<rparr>) (delegate runId)"

definition AuthorizedWorkflowQueueStatusService_getStatus ::
    "'s guard \<Rightarrow> ('a \<Rightarrow> ('s, 'r) act) \<Rightarrow> 'a \<Rightarrow> ('s, 'r) act" where
  "AuthorizedWorkflowQueueStatusService_getStatus guard delegate query =
     guarded guard (requires ''workflowQueue.status'' operators) (delegate query)"

definition AuthorizedWorkService_enqueue ::
    "'s guard \<Rightarrow> ('m session_request_scheme \<Rightarrow> ('s, 'r) act) \<Rightarrow> 'm session_request_scheme \<Rightarrow> ('s, 'r) act" where
  "AuthorizedWorkService_enqueue guard delegate request =
     guarded guard ((requires ''work.enqueue'' operators)\<lparr>rq_sessionId := Some (sq_sessionId request)\<rparr>)
       (delegate request)"

definition AuthorizedWorkService_status ::
    "'s guard \<Rightarrow> (string \<Rightarrow> ('s, 'r) act) \<Rightarrow> string \<Rightarrow> ('s, 'r) act" where
  "AuthorizedWorkService_status guard delegate sessionId =
     guarded guard ((requires ''work.status'' operators)\<lparr>rq_sessionId := Some sessionId\<rparr>) (delegate sessionId)"

definition AuthorizedWorkService_drain ::
    "'s guard \<Rightarrow> (string \<Rightarrow> 'b \<Rightarrow> ('s, 'r) act) \<Rightarrow> string \<Rightarrow> 'b \<Rightarrow> ('s, 'r) act" where
  "AuthorizedWorkService_drain guard delegate sessionId options =
     guarded guard ((requires ''work.drain'' operators)\<lparr>rq_sessionId := Some sessionId\<rparr>) (delegate sessionId options)"

definition AuthorizedMemoryService_search ::
    "'s guard \<Rightarrow> ('a \<Rightarrow> 'b \<Rightarrow> ('s, 'r) act) \<Rightarrow> 'a \<Rightarrow> 'b \<Rightarrow> ('s, 'r) act" where
  "AuthorizedMemoryService_search guard delegate query options =
     guarded guard (requires ''memory.search'' anyone) (delegate query options)"

definition AuthorizedMemoryService_get ::
    "'s guard \<Rightarrow> ('a \<Rightarrow> ('s, 'r) act) \<Rightarrow> 'a \<Rightarrow> ('s, 'r) act" where
  "AuthorizedMemoryService_get guard delegate request =
     guarded guard (requires ''memory.get'' anyone) (delegate request)"

section \<open>Model providers and workspaces\<close>

text \<open>What \<open>get\<close> before the check gives the requirement its workspace: \<open>const x = await delegate.get(id)\<close>.\<close>

definition guarded_in_workspace ::
    "'s guard \<Rightarrow> operation \<Rightarrow> role list \<Rightarrow> ('s, 'm workspaced_scheme) act \<Rightarrow> ('m workspaced_scheme \<Rightarrow> ('s, 'r) act) \<Rightarrow>
       ('s, 'r) act" where
  "guarded_in_workspace guard p rs get m = thenA get (\<lambda>x.
     guarded guard ((requires p rs)\<lparr>rq_workspaceId := Some (wo_workspaceId x)\<rparr>) (m x))"

definition AuthorizedModelProviderConfigService_list ::
    "'s guard \<Rightarrow> auth_context option \<Rightarrow> ('s, ('m workspaced_scheme, 'z) listing_scheme) act \<Rightarrow>
       ('s, ('m workspaced_scheme, 'z) listing_scheme) act" where
  "AuthorizedModelProviderConfigService_list guard ctx delegate =
     guarded guard (requires ''modelProviders.list'' admins) (thenA delegate (\<lambda>listed.
       let providers = filterByWorkspaceScope ctx (li_items listed)
       in okA (listed\<lparr>li_items := providers, li_total := int (length providers)\<rparr>)))"

definition AuthorizedModelProviderConfigService_get ::
    "'s guard \<Rightarrow> (string \<Rightarrow> ('s, 'm workspaced_scheme) act) \<Rightarrow> string \<Rightarrow> ('s, 'm workspaced_scheme) act" where
  "AuthorizedModelProviderConfigService_get guard get i =
     guarded_in_workspace guard ''modelProviders.get'' admins (get i) okA"

definition AuthorizedModelProviderConfigService_create ::
    "'s guard \<Rightarrow> auth_context option \<Rightarrow> ('m workspace_request_scheme \<Rightarrow> ('s, 'r) act) \<Rightarrow>
       'm workspace_request_scheme \<Rightarrow> ('s, 'r) act" where
  "AuthorizedModelProviderConfigService_create guard ctx delegate request =
     thenA (liftA (resolveMutationWorkspaceId ctx (wr_workspaceId request))) (\<lambda>w.
       guarded guard ((requires ''modelProviders.create'' admins)\<lparr>rq_workspaceId := given w\<rparr>)
       (delegate (in_workspace w request)))"

definition AuthorizedModelProviderConfigService_update ::
    "'s guard \<Rightarrow> (string \<Rightarrow> ('s, 'm workspaced_scheme) act) \<Rightarrow> (string \<Rightarrow> 'q \<Rightarrow> ('s, 'r) act) \<Rightarrow> string \<Rightarrow> 'q \<Rightarrow>
       ('s, 'r) act" where
  "AuthorizedModelProviderConfigService_update guard get delegate i request =
     guarded_in_workspace guard ''modelProviders.update'' admins (get i) (\<lambda>_. delegate i request)"

definition AuthorizedModelProviderConfigService_delete ::
    "'s guard \<Rightarrow> (string \<Rightarrow> ('s, 'm workspaced_scheme) act) \<Rightarrow> (string \<Rightarrow> ('s, 'r) act) \<Rightarrow> string \<Rightarrow> ('s, 'r) act" where
  "AuthorizedModelProviderConfigService_delete guard get delegate i =
     guarded_in_workspace guard ''modelProviders.delete'' admins (get i) (\<lambda>_. delegate i)"

definition AuthorizedModelProviderConfigService_test ::
    "'s guard \<Rightarrow> (string \<Rightarrow> ('s, 'm workspaced_scheme) act) \<Rightarrow> (string \<Rightarrow> ('s, 'r) act) \<Rightarrow> string \<Rightarrow> ('s, 'r) act" where
  "AuthorizedModelProviderConfigService_test guard get delegate i =
     guarded_in_workspace guard ''modelProviders.test'' admins (get i) (\<lambda>_. delegate i)"

definition AuthorizedModelProviderConfigService_resolveRuntimeConfig ::
    "('a \<Rightarrow> ('s, 'r) act) \<Rightarrow> 'a \<Rightarrow> ('s, 'r) act" where
  "AuthorizedModelProviderConfigService_resolveRuntimeConfig delegate i = delegate i"

definition AuthorizedWorkspaceService_list :: "'s guard \<Rightarrow> ('s, 'r) act \<Rightarrow> ('s, 'r) act" where
  "AuthorizedWorkspaceService_list guard delegate = guarded guard (requires ''workspaces.list'' admins) delegate"

definition AuthorizedWorkspaceService_get ::
    "'s guard \<Rightarrow> ('a \<Rightarrow> ('s, 'r) act) \<Rightarrow> 'a \<Rightarrow> ('s, 'r) act" where
  "AuthorizedWorkspaceService_get guard delegate i = guarded guard (requires ''workspaces.get'' admins) (delegate i)"

definition AuthorizedWorkspaceService_create ::
    "'s guard \<Rightarrow> ('a \<Rightarrow> ('s, 'r) act) \<Rightarrow> 'a \<Rightarrow> ('s, 'r) act" where
  "AuthorizedWorkspaceService_create guard delegate request =
     guarded guard (requires ''workspaces.create'' admins) (delegate request)"

definition AuthorizedWorkspaceService_update ::
    "'s guard \<Rightarrow> ('a \<Rightarrow> 'b \<Rightarrow> ('s, 'r) act) \<Rightarrow> 'a \<Rightarrow> 'b \<Rightarrow> ('s, 'r) act" where
  "AuthorizedWorkspaceService_update guard delegate i request =
     guarded guard (requires ''workspaces.update'' admins) (delegate i request)"

definition AuthorizedWorkspaceService_delete ::
    "'s guard \<Rightarrow> ('a \<Rightarrow> ('s, 'r) act) \<Rightarrow> 'a \<Rightarrow> ('s, 'r) act" where
  "AuthorizedWorkspaceService_delete guard delegate i =
     guarded guard (requires ''workspaces.delete'' admins) (delegate i)"

section \<open>Connected repositories\<close>

definition AuthorizedConnectedRepositoryService_list ::
    "'s guard \<Rightarrow> auth_context option \<Rightarrow> ('s, ('m workspaced_scheme, 'z) listing_scheme) act \<Rightarrow>
       ('s, ('m workspaced_scheme, 'z) listing_scheme) act" where
  "AuthorizedConnectedRepositoryService_list guard ctx delegate =
     guarded guard (requires ''repositories.list'' anyone) (thenA delegate (\<lambda>listed.
       let repositories = filterByWorkspaceScope ctx (li_items listed)
       in okA (listed\<lparr>li_items := repositories, li_total := int (length repositories)\<rparr>)))"

definition AuthorizedConnectedRepositoryService_get ::
    "'s guard \<Rightarrow> (string \<Rightarrow> ('s, 'm workspaced_scheme) act) \<Rightarrow> string \<Rightarrow> ('s, 'm workspaced_scheme) act" where
  "AuthorizedConnectedRepositoryService_get guard get i =
     guarded_in_workspace guard ''repositories.get'' anyone (get i) okA"

definition AuthorizedConnectedRepositoryService_create ::
    "'s guard \<Rightarrow> auth_context option \<Rightarrow> ('m workspace_request_scheme \<Rightarrow> ('s, 'r) act) \<Rightarrow>
       'm workspace_request_scheme \<Rightarrow> ('s, 'r) act" where
  "AuthorizedConnectedRepositoryService_create guard ctx delegate request =
     thenA (liftA (resolveMutationWorkspaceId ctx (wr_workspaceId request))) (\<lambda>w.
       guarded guard ((requires ''repositories.create'' operators)\<lparr>rq_workspaceId := given w\<rparr>)
       (delegate (in_workspace w request)))"

definition AuthorizedConnectedRepositoryService_delete ::
    "'s guard \<Rightarrow> (string \<Rightarrow> ('s, 'm workspaced_scheme) act) \<Rightarrow> (string \<Rightarrow> ('s, 'r) act) \<Rightarrow> string \<Rightarrow> ('s, 'r) act" where
  "AuthorizedConnectedRepositoryService_delete guard get delegate i =
     guarded_in_workspace guard ''repositories.delete'' operators (get i) (\<lambda>_. delegate i)"

definition AuthorizedConnectedRepositoryService_inspect ::
    "'s guard \<Rightarrow> (string \<Rightarrow> ('s, 'm workspaced_scheme) act) \<Rightarrow> (string \<Rightarrow> ('s, 'r) act) \<Rightarrow> string \<Rightarrow> ('s, 'r) act" where
  "AuthorizedConnectedRepositoryService_inspect guard get delegate i =
     guarded_in_workspace guard ''repositories.inspect'' operators (get i) (\<lambda>_. delegate i)"

definition AuthorizedConnectedRepositoryService_inspectPath ::
    "'s guard \<Rightarrow> ('a \<Rightarrow> ('s, 'r) act) \<Rightarrow> 'a \<Rightarrow> ('s, 'r) act" where
  "AuthorizedConnectedRepositoryService_inspectPath guard delegate workspacePath =
     guarded guard (requires ''repositories.inspectPath'' operators) (delegate workspacePath)"

section \<open>Tasks\<close>

record workbench_item = workspaced +
  wi_assignedAgentId :: "string option"

record 'v run_detail =
  rd_run :: 'v

definition AuthorizedTaskWorkbenchService_metadata ::
    "'s guard \<Rightarrow> ('s, 'r) act \<Rightarrow> ('s, 'r) act" where
  "AuthorizedTaskWorkbenchService_metadata guard delegate =
     guarded guard (requires ''taskWorkbench.metadata'' anyone) delegate"

definition AuthorizedTaskWorkbenchService_list ::
    "'s guard \<Rightarrow> auth_context option \<Rightarrow> ('q workspace_request_scheme \<Rightarrow>
       ('s, ('m workspaced_scheme, 'z) listing_scheme) act) \<Rightarrow>
       'q workspace_request_scheme \<Rightarrow> ('s, ('m workspaced_scheme, 'z) listing_scheme) act" where
  "AuthorizedTaskWorkbenchService_list guard ctx delegate query =
     guarded guard (requires ''taskWorkbench.list'' anyone)
       (thenA (liftA (resolveListWorkspaceId ctx (wr_workspaceId query))) (\<lambda>w.
        thenA (delegate (in_workspace w query)) (\<lambda>listed. okA (if given w \<noteq> None then listed
          else (let tasks = filterByWorkspaceScope ctx (li_items listed)
                in listed\<lparr>li_items := tasks, li_total := int (length tasks)\<rparr>)))))"

definition AuthorizedTaskWorkbenchService_get ::
    "'s guard \<Rightarrow> (string \<Rightarrow> ('s, 'm workspaced_scheme) act) \<Rightarrow> string \<Rightarrow> ('s, 'm workspaced_scheme) act" where
  "AuthorizedTaskWorkbenchService_get guard get i =
     guarded_in_workspace guard ''taskWorkbench.get'' anyone (get i) okA"

definition AuthorizedTaskWorkbenchService_create ::
    "'s guard \<Rightarrow> auth_context option \<Rightarrow> ('m workspace_request_scheme \<Rightarrow> ('s, 'r) act) \<Rightarrow>
       'm workspace_request_scheme \<Rightarrow> ('s, 'r) act" where
  "AuthorizedTaskWorkbenchService_create guard ctx delegate request =
     thenA (liftA (resolveMutationWorkspaceId ctx (wr_workspaceId request))) (\<lambda>w.
       guarded guard ((requires ''taskWorkbench.create'' operators)\<lparr>rq_workspaceId := given w\<rparr>)
       (delegate (in_workspace w request)))"

definition AuthorizedTaskWorkbenchService_update ::
    "'s guard \<Rightarrow> (string \<Rightarrow> ('s, 'm workspaced_scheme) act) \<Rightarrow> (string \<Rightarrow> 'q \<Rightarrow> ('s, 'r) act) \<Rightarrow> string \<Rightarrow> 'q \<Rightarrow>
       ('s, 'r) act" where
  "AuthorizedTaskWorkbenchService_update guard get delegate i request =
     guarded_in_workspace guard ''taskWorkbench.update'' operators (get i) (\<lambda>_. delegate i request)"

text \<open>The checks of a run ask for the run's workspace and pass its id.\<close>

definition guarded_run ::
    "'s guard \<Rightarrow> operation \<Rightarrow> role list \<Rightarrow> (string \<Rightarrow> ('s, ('m workspaced_scheme, 'd) run_detail_scheme) act) \<Rightarrow> string \<Rightarrow>
       (('m workspaced_scheme, 'd) run_detail_scheme \<Rightarrow> ('s, 'r) act) \<Rightarrow> ('s, 'r) act" where
  "guarded_run guard p rs getRun runId m = thenA (getRun runId) (\<lambda>detail.
     guarded guard ((requires p rs)\<lparr>rq_runId := Some runId, rq_workspaceId := Some (wo_workspaceId (rd_run detail))\<rparr>) (m detail))"

definition AuthorizedTaskWorkbenchService_getRun ::
    "'s guard \<Rightarrow> (string \<Rightarrow> ('s, ('m workspaced_scheme, 'd) run_detail_scheme) act) \<Rightarrow> string \<Rightarrow> ('s, ('m workspaced_scheme, 'd) run_detail_scheme) act" where
  "AuthorizedTaskWorkbenchService_getRun guard getRun runId =
     guarded_run guard ''taskWorkbench.run.read'' anyone getRun runId okA"

definition AuthorizedTaskWorkbenchService_exportRunEvidenceBundle ::
    "'s guard \<Rightarrow> (string \<Rightarrow> ('s, ('m workspaced_scheme, 'd) run_detail_scheme) act) \<Rightarrow> (string \<Rightarrow> 'q \<Rightarrow> ('s, 'r) act) \<Rightarrow>
       string \<Rightarrow> 'q \<Rightarrow> ('s, 'r) act" where
  "AuthorizedTaskWorkbenchService_exportRunEvidenceBundle guard getRun delegate runId request =
     guarded_run guard ''taskWorkbench.runEvidenceBundle.export'' anyone getRun runId (\<lambda>_. delegate runId request)"

definition AuthorizedTaskWorkbenchService_getRunArtifact ::
    "'s guard \<Rightarrow> (string \<Rightarrow> ('s, ('m workspaced_scheme, 'd) run_detail_scheme) act) \<Rightarrow> (string \<Rightarrow> string \<Rightarrow> ('s, 'r) act) \<Rightarrow>
       string \<Rightarrow> string \<Rightarrow> ('s, 'r) act" where
  "AuthorizedTaskWorkbenchService_getRunArtifact guard getRun delegate runId artifactId =
     guarded_run guard ''taskWorkbench.runArtifact.read'' anyone getRun runId (\<lambda>_. delegate runId artifactId)"

definition AuthorizedTaskWorkbenchService_getRunReadiness ::
    "'s guard \<Rightarrow> (string \<Rightarrow> ('s, 'm workspaced_scheme) act) \<Rightarrow> (string \<Rightarrow> ('s, 'r) act) \<Rightarrow> string \<Rightarrow> ('s, 'r) act" where
  "AuthorizedTaskWorkbenchService_getRunReadiness guard get delegate i =
     guarded_in_workspace guard ''taskWorkbench.runReadiness'' anyone (get i) (\<lambda>_. delegate i)"

definition AuthorizedTaskWorkbenchService_runTask ::
    "'s guard \<Rightarrow> (string \<Rightarrow> ('s, 'm workbench_item_scheme) act) \<Rightarrow> (string \<Rightarrow> 'q \<Rightarrow> ('s, 'r) act) \<Rightarrow>
       string \<Rightarrow> 'q \<Rightarrow> ('s, 'r) act" where
  "AuthorizedTaskWorkbenchService_runTask guard get delegate i request = thenA (get i) (\<lambda>task.
     guarded guard ((requires ''taskWorkbench.runTask'' operators)\<lparr>rq_workspaceId := Some (wo_workspaceId task),
       rq_agentName := given (wi_assignedAgentId task)\<rparr>) (delegate i request))"

definition AuthorizedTaskWorkbenchService_cancelRun ::
    "'s guard \<Rightarrow> (string \<Rightarrow> ('s, ('m workspaced_scheme, 'd) run_detail_scheme) act) \<Rightarrow> (string \<Rightarrow> 'q \<Rightarrow> ('s, 'r) act) \<Rightarrow>
       string \<Rightarrow> 'q \<Rightarrow> ('s, 'r) act" where
  "AuthorizedTaskWorkbenchService_cancelRun guard getRun delegate runId request =
     guarded_run guard ''taskWorkbench.cancelRun'' operators getRun runId (\<lambda>_. delegate runId request)"

section \<open>Durable memory and language services\<close>

definition AuthorizedDurableMemoryService_write ::
    "'s guard \<Rightarrow> ('a \<Rightarrow> ('s, 'r) act) \<Rightarrow> 'a \<Rightarrow> ('s, 'r) act" where
  "AuthorizedDurableMemoryService_write guard delegate request =
     guarded guard (requires ''durableMemory.write'' operators) (delegate request)"

definition AuthorizedDurableMemoryService_get ::
    "'s guard \<Rightarrow> ('a \<Rightarrow> ('s, 'r) act) \<Rightarrow> 'a \<Rightarrow> ('s, 'r) act" where
  "AuthorizedDurableMemoryService_get guard delegate request =
     guarded guard (requires ''durableMemory.get'' anyone) (delegate request)"

definition AuthorizedDurableMemoryService_list ::
    "'s guard \<Rightarrow> ('a \<Rightarrow> ('s, 'r) act) \<Rightarrow> 'a \<Rightarrow> ('s, 'r) act" where
  "AuthorizedDurableMemoryService_list guard delegate request =
     guarded guard (requires ''durableMemory.list'' anyone) (delegate request)"

definition AuthorizedDurableMemoryService_search ::
    "'s guard \<Rightarrow> ('a \<Rightarrow> ('s, 'r) act) \<Rightarrow> 'a \<Rightarrow> ('s, 'r) act" where
  "AuthorizedDurableMemoryService_search guard delegate request =
     guarded guard (requires ''durableMemory.search'' anyone) (delegate request)"

definition AuthorizedDurableMemoryService_archive ::
    "'s guard \<Rightarrow> ('a \<Rightarrow> ('s, 'r) act) \<Rightarrow> 'a \<Rightarrow> ('s, 'r) act" where
  "AuthorizedDurableMemoryService_archive guard delegate request =
     guarded guard (requires ''durableMemory.archive'' operators) (delegate request)"

definition AuthorizedDurableMemoryService_delete ::
    "'s guard \<Rightarrow> ('a \<Rightarrow> ('s, 'r) act) \<Rightarrow> 'a \<Rightarrow> ('s, 'r) act" where
  "AuthorizedDurableMemoryService_delete guard delegate request =
     guarded guard (requires ''durableMemory.delete'' operators) (delegate request)"

definition AuthorizedDurableMemoryService_createProposal ::
    "'s guard \<Rightarrow> ('a \<Rightarrow> ('s, 'r) act) \<Rightarrow> 'a \<Rightarrow> ('s, 'r) act" where
  "AuthorizedDurableMemoryService_createProposal guard delegate request =
     guarded guard (requires ''durableMemory.proposal.create'' operators) (delegate request)"

definition AuthorizedDurableMemoryService_listProposals ::
    "'s guard \<Rightarrow> ('a \<Rightarrow> ('s, 'r) act) \<Rightarrow> 'a \<Rightarrow> ('s, 'r) act" where
  "AuthorizedDurableMemoryService_listProposals guard delegate request =
     guarded guard (requires ''durableMemory.proposal.list'' anyone) (delegate request)"

definition AuthorizedDurableMemoryService_approveProposal ::
    "'s guard \<Rightarrow> ('a \<Rightarrow> ('s, 'r) act) \<Rightarrow> 'a \<Rightarrow> ('s, 'r) act" where
  "AuthorizedDurableMemoryService_approveProposal guard delegate request =
     guarded guard (requires ''durableMemory.proposal.approve'' operators) (delegate request)"

definition AuthorizedDurableMemoryService_rejectProposal ::
    "'s guard \<Rightarrow> ('a \<Rightarrow> ('s, 'r) act) \<Rightarrow> 'a \<Rightarrow> ('s, 'r) act" where
  "AuthorizedDurableMemoryService_rejectProposal guard delegate request =
     guarded guard (requires ''durableMemory.proposal.reject'' operators) (delegate request)"

definition AuthorizedDurableMemoryService_archiveProposal ::
    "'s guard \<Rightarrow> ('a \<Rightarrow> ('s, 'r) act) \<Rightarrow> 'a \<Rightarrow> ('s, 'r) act" where
  "AuthorizedDurableMemoryService_archiveProposal guard delegate request =
     guarded guard (requires ''durableMemory.proposal.archive'' operators) (delegate request)"

definition AuthorizedDurableMemoryService_createSnapshot ::
    "'s guard \<Rightarrow> ('a \<Rightarrow> ('s, 'r) act) \<Rightarrow> 'a \<Rightarrow> ('s, 'r) act" where
  "AuthorizedDurableMemoryService_createSnapshot guard delegate request =
     guarded guard (requires ''durableMemory.snapshot.create'' operators) (delegate request)"

definition AuthorizedDurableMemoryService_listSnapshots ::
    "'s guard \<Rightarrow> ('a \<Rightarrow> ('s, 'r) act) \<Rightarrow> 'a \<Rightarrow> ('s, 'r) act" where
  "AuthorizedDurableMemoryService_listSnapshots guard delegate request =
     guarded guard (requires ''durableMemory.snapshot.list'' anyone) (delegate request)"

definition AuthorizedDurableMemoryService_restoreSnapshot ::
    "'s guard \<Rightarrow> ('a \<Rightarrow> ('s, 'r) act) \<Rightarrow> 'a \<Rightarrow> ('s, 'r) act" where
  "AuthorizedDurableMemoryService_restoreSnapshot guard delegate request =
     guarded guard (requires ''durableMemory.snapshot.restore'' operators) (delegate request)"

definition AuthorizedDurableMemoryService_getHealth ::
    "'s guard \<Rightarrow> ('s, 'r) act \<Rightarrow> ('s, 'r) act" where
  "AuthorizedDurableMemoryService_getHealth guard delegate =
     guarded guard (requires ''durableMemory.health'' anyone) delegate"

definition AuthorizedLspService_getDefinition ::
    "'s guard \<Rightarrow> ('a \<Rightarrow> 'b \<Rightarrow> 'c \<Rightarrow> ('s, 'r) act) \<Rightarrow> 'a \<Rightarrow> 'b \<Rightarrow> 'c \<Rightarrow> ('s, 'r) act" where
  "AuthorizedLspService_getDefinition guard delegate path line character =
     guarded guard (requires ''lsp.definition'' anyone) (delegate path line character)"

definition AuthorizedLspService_getReferences ::
    "'s guard \<Rightarrow> ('a \<Rightarrow> 'b \<Rightarrow> 'c \<Rightarrow> ('s, 'r) act) \<Rightarrow> 'a \<Rightarrow> 'b \<Rightarrow> 'c \<Rightarrow> ('s, 'r) act" where
  "AuthorizedLspService_getReferences guard delegate path line character =
     guarded guard (requires ''lsp.references'' anyone) (delegate path line character)"

definition AuthorizedLspService_getHoverInfo ::
    "'s guard \<Rightarrow> ('a \<Rightarrow> 'b \<Rightarrow> 'c \<Rightarrow> ('s, 'r) act) \<Rightarrow> 'a \<Rightarrow> 'b \<Rightarrow> 'c \<Rightarrow> ('s, 'r) act" where
  "AuthorizedLspService_getHoverInfo guard delegate path line character =
     guarded guard (requires ''lsp.hover'' anyone) (delegate path line character)"

definition AuthorizedLspService_getDocumentSymbols ::
    "'s guard \<Rightarrow> ('a \<Rightarrow> ('s, 'r) act) \<Rightarrow> 'a \<Rightarrow> ('s, 'r) act" where
  "AuthorizedLspService_getDocumentSymbols guard delegate path =
     guarded guard (requires ''lsp.symbols'' anyone) (delegate path)"

section \<open>Events, operations, audit, failed work and identities\<close>

record event_query =
  eq_sessionId :: "string option"

definition AuthorizedEventService_list ::
    "'s guard \<Rightarrow> ('m event_query_scheme option \<Rightarrow> ('s, 'r) act) \<Rightarrow> 'm event_query_scheme option \<Rightarrow> ('s, 'r) act" where
  "AuthorizedEventService_list guard delegate query =
     guarded guard ((requires ''events.list'' anyone)\<lparr>rq_sessionId :=
       (case query of None \<Rightarrow> None | Some q \<Rightarrow> given (eq_sessionId q))\<rparr>) (delegate query)"

definition AuthorizedEventService_emit ::
    "('a \<Rightarrow> ('s, 'r) act) \<Rightarrow> 'a \<Rightarrow> ('s, 'r) act" where
  "AuthorizedEventService_emit delegate event = delegate event"

definition AuthorizedOperationsService_getSummary ::
    "'s guard \<Rightarrow> ('s, 'r) act \<Rightarrow> ('s, 'r) act" where
  "AuthorizedOperationsService_getSummary guard delegate =
     guarded guard (requires ''operations.summary'' anyone) delegate"

definition AuthorizedOperationsService_getOperationsProviderCostSettings ::
    "'s guard \<Rightarrow> ('s, 'r) act \<Rightarrow> ('s, 'r) act" where
  "AuthorizedOperationsService_getOperationsProviderCostSettings guard delegate =
     guarded guard (requires ''operations.cost.settings.read'' anyone) delegate"

definition AuthorizedOperationsService_updateProviderCostSettings ::
    "'s guard \<Rightarrow> ('a \<Rightarrow> ('s, 'r) act) \<Rightarrow> 'a \<Rightarrow> ('s, 'r) act" where
  "AuthorizedOperationsService_updateProviderCostSettings guard delegate request =
     guarded guard (requires ''operations.cost.settings.write'' operators) (delegate request)"

definition AuthorizedOperationsService_exportMonthlyCostCsv ::
    "'s guard \<Rightarrow> ('a \<Rightarrow> ('s, 'r) act) \<Rightarrow> 'a \<Rightarrow> ('s, 'r) act" where
  "AuthorizedOperationsService_exportMonthlyCostCsv guard delegate request =
     guarded guard (requires ''operations.cost.export'' anyone) (delegate request)"

definition AuthorizedGovernanceAuditService_list ::
    "'s guard \<Rightarrow> ('a \<Rightarrow> ('s, 'r) act) \<Rightarrow> 'a \<Rightarrow> ('s, 'r) act" where
  "AuthorizedGovernanceAuditService_list guard delegate query =
     guarded guard (requires ''governance.audit.list'' admins) (delegate query)"

definition AuthorizedGovernanceAuditService_exportJsonl ::
    "'s guard \<Rightarrow> ('a \<Rightarrow> ('s, 'r) act) \<Rightarrow> 'a \<Rightarrow> ('s, 'r) act" where
  "AuthorizedGovernanceAuditService_exportJsonl guard delegate query =
     guarded guard (requires ''governance.audit.list'' admins) (delegate query)"

definition AuthorizedGovernanceAuditService_exportCsv ::
    "'s guard \<Rightarrow> ('a \<Rightarrow> ('s, 'r) act) \<Rightarrow> 'a \<Rightarrow> ('s, 'r) act" where
  "AuthorizedGovernanceAuditService_exportCsv guard delegate query =
     guarded guard (requires ''governance.audit.list'' admins) (delegate query)"

definition AuthorizedFailedWorkService_list ::
    "'s guard \<Rightarrow> ('a \<Rightarrow> ('s, 'r) act) \<Rightarrow> 'a \<Rightarrow> ('s, 'r) act" where
  "AuthorizedFailedWorkService_list guard delegate query =
     guarded guard (requires ''failedWork.list'' anyone) (delegate query)"

definition AuthorizedFailedWorkService_retry ::
    "'s guard \<Rightarrow> ('a \<Rightarrow> ('s, 'r) act) \<Rightarrow> 'a \<Rightarrow> ('s, 'r) act" where
  "AuthorizedFailedWorkService_retry guard delegate i =
     guarded guard (requires ''failedWork.retry'' operators) (delegate i)"

definition AuthorizedFailedWorkService_discard ::
    "'s guard \<Rightarrow> ('a \<Rightarrow> ('s, 'r) act) \<Rightarrow> 'a \<Rightarrow> ('s, 'r) act" where
  "AuthorizedFailedWorkService_discard guard delegate i =
     guarded guard (requires ''failedWork.discard'' operators) (delegate i)"

definition AuthorizedA2aFlowService_getTrace ::
    "'s guard \<Rightarrow> (string \<Rightarrow> 'b \<Rightarrow> ('s, 'r) act) \<Rightarrow> string \<Rightarrow> 'b \<Rightarrow> ('s, 'r) act" where
  "AuthorizedA2aFlowService_getTrace guard delegate traceId query =
     guarded guard (requires ''a2aFlow.get'' operators) (delegate traceId query)"

definition AuthorizedA2aObservabilityService_getSnapshot ::
    "'s guard \<Rightarrow> ('a \<Rightarrow> ('s, 'r) act) \<Rightarrow> 'a \<Rightarrow> ('s, 'r) act" where
  "AuthorizedA2aObservabilityService_getSnapshot guard delegate query =
     guarded guard (requires ''a2aObservability.get'' operators) (delegate query)"

definition AuthorizedA2aObservabilityService_listAlertHistory ::
    "'s guard \<Rightarrow> ('a \<Rightarrow> ('s, 'r) act) \<Rightarrow> 'a \<Rightarrow> ('s, 'r) act" where
  "AuthorizedA2aObservabilityService_listAlertHistory guard delegate query =
     guarded guard (requires ''a2aObservability.alertHistory.list'' operators) (delegate query)"

definition AuthorizedA2aObservabilityService_exportAlertHistoryCsv ::
    "'s guard \<Rightarrow> ('a \<Rightarrow> ('s, 'r) act) \<Rightarrow> 'a \<Rightarrow> ('s, 'r) act" where
  "AuthorizedA2aObservabilityService_exportAlertHistoryCsv guard delegate query =
     guarded guard (requires ''a2aObservability.alertHistory.export'' operators) (delegate query)"

definition AuthorizedIdentityService_listRoles ::
    "'s guard \<Rightarrow> ('s, 'r) act \<Rightarrow> ('s, 'r) act" where
  "AuthorizedIdentityService_listRoles guard delegate =
     guarded guard (requires ''identity.roles.list'' admins) delegate"

definition AuthorizedIdentityService_listAssignments ::
    "'s guard \<Rightarrow> ('s, 'r) act \<Rightarrow> ('s, 'r) act" where
  "AuthorizedIdentityService_listAssignments guard delegate =
     guarded guard (requires ''identity.assignments.list'' admins) delegate"

definition AuthorizedIdentityService_upsertAssignment ::
    "'s guard \<Rightarrow> ('a \<Rightarrow> ('s, 'r) act) \<Rightarrow> 'a \<Rightarrow> ('s, 'r) act" where
  "AuthorizedIdentityService_upsertAssignment guard delegate request =
     guarded guard (requires ''identity.assignments.upsert'' admins) (delegate request)"

definition AuthorizedIdentityService_removeAssignment ::
    "'s guard \<Rightarrow> (string \<Rightarrow> ('s, 'r) act) \<Rightarrow> string \<Rightarrow> ('s, 'r) act" where
  "AuthorizedIdentityService_removeAssignment guard delegate subject =
     guarded guard (requires ''identity.assignments.delete'' admins) (delegate subject)"

definition AuthorizedIdentityService_auditPermissions ::
    "'s guard \<Rightarrow> (string \<Rightarrow> ('s, 'r) act) \<Rightarrow> string \<Rightarrow> ('s, 'r) act" where
  "AuthorizedIdentityService_auditPermissions guard delegate subject =
     guarded guard (requires ''identity.audit'' admins) (delegate subject)"

section \<open>Refused calls\<close>

text \<open>
  The interface of an authorizer to the wrapped services: what it permits passes without effect, what it does not
  permit is refused, and the services behind it, \<open>service\<close> of the state, are not touched by the check.
\<close>

locale access_guard =
  fixes guard :: "'s guard"
    and permits :: "requirement \<Rightarrow> bool"
    and service :: "'s \<Rightarrow> 'w"
  assumes pass: "permits rq \<Longrightarrow> guard rq s = (s, Inr ())"
    and refuse: "\<not> permits rq \<Longrightarrow> \<exists>m. snd (guard rq s) = Inl (authz_denied m)"
    and service_kept: "service (fst (guard rq s)) = service s"

text \<open>A call that is refused, and one that is refused once \<open>get\<close> has found what it is about.\<close>

definition refused :: "('s \<Rightarrow> 'w) \<Rightarrow> ('s, 'r) act \<Rightarrow> bool" where
  "refused service m \<longleftrightarrow> (\<forall>s. service (fst (m s)) = service s \<and> (\<exists>msg. snd (m s) = Inl (authz_denied msg)))"

definition refused_after :: "('s \<Rightarrow> 'w) \<Rightarrow> ('s, 'x) act \<Rightarrow> ('s, 'r) act \<Rightarrow> bool" where
  "refused_after service get m \<longleftrightarrow> (\<forall>s. service (fst (m s)) = service (fst (get s)) \<and>
     (case snd (get s) of Inl e \<Rightarrow> snd (m s) = Inl e | Inr _ \<Rightarrow> \<exists>msg. snd (m s) = Inl (authz_denied msg)))"

lemma refused_thenA: "refused service m \<Longrightarrow> refused service (thenA m f)"
  unfolding refused_def
proof
  fix s assume r: "\<forall>s. service (fst (m s)) = service s \<and> (\<exists>msg. snd (m s) = Inl (authz_denied msg))"
  then obtain msg where "service (fst (m s)) = service s" "snd (m s) = Inl (authz_denied msg)" by blast
  then show "service (fst (thenA m f s)) = service s \<and> (\<exists>msg. snd (thenA m f s) = Inl (authz_denied msg))"
    by (cases "m s") (auto simp: thenA_def)
qed

lemma refused_liftA:
  assumes "\<And>e. r = Inl e \<Longrightarrow> \<exists>msg. e = authz_denied msg" "\<And>x. r = Inr x \<Longrightarrow> refused service (f x)"
  shows "refused service (thenA (liftA r) f)"
  using assms by (cases r) (auto simp: refused_def thenA_def liftA_def)

lemma resolveMutationWorkspaceId_error: "resolveMutationWorkspaceId ctx w = Inl e \<Longrightarrow> \<exists>msg. e = authz_denied msg"
  by (auto simp: resolveMutationWorkspaceId_def split: option.splits list.splits)

context access_guard
begin

lemma guarded_pass: "permits rq \<Longrightarrow> guarded guard rq m = m"
  by (rule ext) (simp add: guarded_def thenA_def pass)

lemma guarded_refused: "\<not> permits rq \<Longrightarrow> refused service (guarded guard rq m)"
  unfolding guarded_def by (rule refused_thenA) (use refuse service_kept in \<open>auto simp: refused_def\<close>)

lemma guarded_after:
  assumes "\<And>x. \<not> permits (rq x)"
  shows "refused_after service get (thenA get (\<lambda>x. guarded guard (rq x) (m x)))"
  unfolding refused_after_def
proof
  fix s
  obtain s' r where g: "get s = (s', r)" by (cases "get s")
  show "service (fst (thenA get (\<lambda>x. guarded guard (rq x) (m x)) s)) = service (fst (get s)) \<and>
      (case snd (get s) of Inl e \<Rightarrow> snd (thenA get (\<lambda>x. guarded guard (rq x) (m x)) s) = Inl e
       | Inr _ \<Rightarrow> \<exists>msg. snd (thenA get (\<lambda>x. guarded guard (rq x) (m x)) s) = Inl (authz_denied msg))"
  proof (cases r)
    case (Inr x)
    then show ?thesis using guarded_refused [OF assms, of x "m x"] g by (auto simp: thenA_def refused_def)
  qed (simp add: g thenA_def)
qed

lemma guarded_create:
  assumes "\<And>w. \<not> permits (rq w)"
  shows "refused service (thenA (liftA (resolveMutationWorkspaceId ctx v)) (\<lambda>w. guarded guard (rq w) (m w)))"
  by (rule refused_liftA) (use resolveMutationWorkspaceId_error guarded_refused [OF assms] in auto)

end

text \<open>The event log of the authorizer is a component of its own, behind which the services have their state.\<close>

definition log_emit :: "js \<Rightarrow> ('w \<times> js list, unit) act" where
  "log_emit e = doA (\<lambda>(w, log). (w, log @ [e]))"

lemma log_emit_simps: "log_emit e s = ((fst s, snd s @ [e]), Inr ())"
  by (simp add: log_emit_def doA_def split: prod.split)

lemma assertAllowed_log:
  "permitted cx rq \<Longrightarrow> assertAllowed (enforce_config d) log_emit (Some cx) rq s = (s, Inr ())"
  "\<not> permitted cx rq \<Longrightarrow> \<exists>m e. assertAllowed (enforce_config d) log_emit (Some cx) rq s = ((fst s, snd s @ [e]), Inl (authz_denied m))"
proof -
  show "assertAllowed (enforce_config d) log_emit (Some cx) rq s = (s, Inr ())" if "permitted cx rq"
  proof -
    have "evaluateDenied rq cx = None" using that by (simp add: evaluateDenied_None)
    then show ?thesis by (simp add: assertAllowed_def okA_def enforce_config)
  qed
  show "\<exists>m e. assertAllowed (enforce_config d) log_emit (Some cx) rq s = ((fst s, snd s @ [e]), Inl (authz_denied m))"
    if np: "\<not> permitted cx rq"
  proof -
    obtain r t where r: "evaluateDenied rq cx = Some (r, t)"
      using np evaluateDenied_None [of rq cx] by (cases "evaluateDenied rq cx") auto
    obtain m where m: "deny_error rq r = authz_denied m" unfolding deny_error_def by blast
    show ?thesis
      by (intro exI [of _ m] exI [of _ "denied_event cx rq r t"]) (simp add: r m assertAllowed_def enforce_config
          shouldDenyInMode_def Let_def thenA_def emitDenied_returns log_emit_simps throwA_def)
  qed
qed

abbreviation enforcing :: "decision \<Rightarrow> auth_context \<Rightarrow> ('w \<times> js list) guard" where
  "enforcing d cx \<equiv> assertAllowed (enforce_config d) log_emit (Some cx)"

interpretation enforced: access_guard "enforcing d cx" "permitted cx" fst for d cx
proof
  fix rq and s :: "'w \<times> js list"
  show "permitted cx rq \<Longrightarrow> enforcing d cx rq s = (s, Inr ())" by (rule assertAllowed_log)
  show "\<not> permitted cx rq \<Longrightarrow> \<exists>m. snd (enforcing d cx rq s) = Inl (authz_denied m)"
    using assertAllowed_log(2) [of cx rq d s] by auto
  show "fst (fst (enforcing d cx rq s)) = fst s"
    using assertAllowed_log [of cx rq d s] by (cases "permitted cx rq") auto
qed

lemmas changing_defs =
    AuthorizedRunService_cancel_def AuthorizedRunService_cancelByRunId_def AuthorizedScheduleService_upsert_def
    AuthorizedScheduleService_remove_def AuthorizedPolicyService_put_def AuthorizedDirectiveService_create_def
    AuthorizedWorkService_enqueue_def AuthorizedWorkService_drain_def AuthorizedWorkspaceService_create_def
    AuthorizedWorkspaceService_update_def AuthorizedWorkspaceService_delete_def
    AuthorizedConnectedRepositoryService_inspectPath_def AuthorizedDurableMemoryService_write_def
    AuthorizedDurableMemoryService_archive_def AuthorizedDurableMemoryService_delete_def
    AuthorizedDurableMemoryService_createProposal_def AuthorizedDurableMemoryService_approveProposal_def
    AuthorizedDurableMemoryService_rejectProposal_def AuthorizedDurableMemoryService_archiveProposal_def
    AuthorizedDurableMemoryService_createSnapshot_def AuthorizedDurableMemoryService_restoreSnapshot_def
    AuthorizedOperationsService_updateProviderCostSettings_def AuthorizedFailedWorkService_retry_def
    AuthorizedFailedWorkService_discard_def AuthorizedIdentityService_upsertAssignment_def
    AuthorizedIdentityService_removeAssignment_def AuthorizedModelProviderConfigService_create_def
    AuthorizedConnectedRepositoryService_create_def AuthorizedTaskWorkbenchService_create_def
    AuthorizedModelProviderConfigService_update_def AuthorizedModelProviderConfigService_delete_def
    AuthorizedModelProviderConfigService_test_def AuthorizedConnectedRepositoryService_delete_def
    AuthorizedConnectedRepositoryService_inspect_def AuthorizedTaskWorkbenchService_update_def
    AuthorizedTaskWorkbenchService_runTask_def AuthorizedTaskWorkbenchService_cancelRun_def
    guarded_in_workspace_def guarded_run_def

definition viewer_context :: "string \<Rightarrow> scope_set \<Rightarrow> auth_context" where
  "viewer_context n sc = \<lparr>cx_subject = n, cx_role = Viewer, cx_scope = sc\<rparr>"

abbreviation viewing :: "decision \<Rightarrow> string \<Rightarrow> scope_set \<Rightarrow> ('w \<times> js list) guard" where
  "viewing d n sc \<equiv> enforcing d (viewer_context n sc)"

lemma viewer_role: "cx_role (viewer_context n sc) = Viewer"
  by (simp add: viewer_context_def)

lemma not_permitted: "cx_role cx \<notin> set rs \<Longrightarrow> \<not> permitted cx (requires p rs)"
  "cx_role cx \<notin> set rs \<Longrightarrow> rq_requiredRoles rq = rs \<Longrightarrow> \<not> permitted cx rq"
  by (simp_all add: permitted_def requires_def)


section \<open>Workspaces\<close>

definition scoped_context :: "string \<Rightarrow> role \<Rightarrow> string list \<Rightarrow> auth_context" where
  "scoped_context n r ws = \<lparr>cx_subject = n, cx_role = r, cx_scope = open_scope\<lparr>sc_workspaces := Some ws\<rparr>\<rparr>"

text \<open>What a call returns lies in these workspaces; a call that returns has called \<open>m\<close> with a request for one of them.\<close>

definition confined :: "string list \<Rightarrow> ('x \<Rightarrow> string set) \<Rightarrow> ('s, 'x) act \<Rightarrow> bool" where
  "confined ws places m \<longleftrightarrow> (\<forall>s x. snd (m s) = Inr x \<longrightarrow> places x \<subseteq> set ws)"

definition creates_in ::
    "string list \<Rightarrow> ('m workspace_request_scheme \<Rightarrow> ('s, 'r) act) \<Rightarrow> 'm workspace_request_scheme \<Rightarrow> ('s, 'r) act \<Rightarrow> bool" where
  "creates_in ws m request c \<longleftrightarrow>
     (\<forall>s x. snd (c s) = Inr x \<longrightarrow> (\<exists>w \<in> set ws. c s = m (request\<lparr>wr_workspaceId := Some w\<rparr>) s))"

abbreviation item_places :: "('m workspaced_scheme, 'z) listing_scheme \<Rightarrow> string set" where
  "item_places l \<equiv> wo_workspaceId ` set (li_items l)"

lemma thenA_Inr: "snd (thenA m f s) = Inr y \<longleftrightarrow> (\<exists>s' x. m s = (s', Inr x) \<and> snd (f x s') = Inr y)"
  by (auto simp: thenA_def split: prod.split sum.split)

lemma confined_thenA: "(\<And>x. confined ws places (f x)) \<Longrightarrow> confined ws places (thenA m f)"
  by (fastforce simp: confined_def thenA_Inr)

lemma confined_guarded: "confined ws places m \<Longrightarrow> confined ws places (guarded guard rq m)"
  unfolding guarded_def by (rule confined_thenA)

lemma workspaceScopeIds_scoped [simp]: "workspaceScopeIds (Some (scoped_context n r (w # ws))) = Some (w # ws)"
  by (simp add: workspaceScopeIds_def scoped_context_def open_scope_def)

lemma filter_confined:
  "wo_workspaceId ` set (filterByWorkspaceScope (Some (scoped_context n r (w # ws))) items) \<subseteq> set (w # ws)"
  by (auto simp: filterByWorkspaceScope_def)

lemma filtered_list_confined:
  "confined (w # ws) item_places (thenA m (\<lambda>listed.
     let xs = filterByWorkspaceScope (Some (scoped_context n r (w # ws))) (li_items listed)
     in okA (listed\<lparr>li_items := xs, li_total := k xs\<rparr>)))"
proof (rule confined_thenA)
  fix listed :: "('a workspaced_scheme, 'b) listing_scheme"
  show "confined (w # ws) item_places (let xs = filterByWorkspaceScope (Some (scoped_context n r (w # ws))) (li_items listed)
     in okA (listed\<lparr>li_items := xs, li_total := k xs\<rparr>))"
    using filter_confined [of n r w ws "li_items listed"] by (simp add: confined_def okA_def Let_def)
qed

lemma permitted_workspace:
  assumes "isWorkspaceScopedOperation (rq_operation rq)" "rq_workspaceId rq = Some v"
    "permitted (scoped_context n r (w # ws)) rq"
  shows "v \<in> set (w # ws)"
  using assms by (auto simp: permitted_def within_scope_def scope_dimensions_def scoped_context_def open_scope_def)

lemma permitted_given_workspace:
  assumes "isWorkspaceScopedOperation (rq_operation rq)" "permitted (scoped_context n r (w # ws)) rq"
  shows "\<exists>v \<in> set (w # ws). rq_workspaceId rq = Some v"
  using assms by (auto simp: permitted_def within_scope_def scope_dimensions_def scoped_context_def open_scope_def)

lemma enforcing_Inr: "snd (guarded (enforcing d cx) rq m s) = Inr y \<Longrightarrow> permitted cx rq \<and> guarded (enforcing d cx) rq m s = m s"
proof (cases "permitted cx rq")
  case True
  then show ?thesis using enforced.guarded_pass [of cx rq d m] by simp
next
  case False
  assume r: "snd (guarded (enforcing d cx) rq m s) = Inr y"
  have "\<exists>msg. snd (guarded (enforcing d cx) rq m s) = Inl (authz_denied msg)"
    using enforced.guarded_refused [OF False, of d m] unfolding refused_def by blast
  then show ?thesis using r by auto
qed

lemma get_confined:
  assumes "isWorkspaceScopedOperation p"
  shows "confined (w # ws) (\<lambda>x. {wo_workspaceId x}) (guarded_in_workspace (enforcing d (scoped_context n r (w # ws))) p rs get okA)"
proof -
  let ?g = "enforcing d (scoped_context n r (w # ws))"
  have "wo_workspaceId y \<in> set (w # ws)"
    if r: "snd (guarded ?g ((requires p rs)\<lparr>rq_workspaceId := Some (wo_workspaceId x)\<rparr>) (okA x) s) = Inr y" for x y s
  proof -
    note e = enforcing_Inr [OF r]
    have "y = x" using r e by (auto simp: okA_def)
    then show ?thesis
      using permitted_workspace [of "(requires p rs)\<lparr>rq_workspaceId := Some (wo_workspaceId x)\<rparr>" "wo_workspaceId x" n r w ws]
        e assms by (simp add: requires_def)
  qed
  then show ?thesis unfolding confined_def guarded_in_workspace_def thenA_Inr by blast
qed

lemma run_confined:
  assumes "isWorkspaceScopedOperation p"
  shows "confined (w # ws) (\<lambda>x. {wo_workspaceId (rd_run x)})
     (guarded_run (enforcing d (scoped_context n r (w # ws))) p rs getRun runId okA)"
proof -
  let ?g = "enforcing d (scoped_context n r (w # ws))"
  let ?rq = "\<lambda>x. (requires p rs)\<lparr>rq_runId := Some runId, rq_workspaceId := Some (wo_workspaceId (rd_run x))\<rparr>"
  have "wo_workspaceId (rd_run y) \<in> set (w # ws)" if r: "snd (guarded ?g (?rq x) (okA x) s) = Inr y" for x y s
  proof -
    note e = enforcing_Inr [OF r]
    have "y = x" using r e by (auto simp: okA_def)
    then show ?thesis
      using permitted_workspace [of "?rq x" "wo_workspaceId (rd_run x)" n r w ws] e assms by (simp add: requires_def)
  qed
  then show ?thesis unfolding confined_def guarded_run_def thenA_Inr by blast
qed

lemma create_confined:
  assumes "isWorkspaceScopedOperation p"
  shows "creates_in (w # ws) m request (thenA (liftA (resolveMutationWorkspaceId (Some (scoped_context n r (w # ws))) v)) (\<lambda>u.
     guarded (enforcing d (scoped_context n r (w # ws))) ((requires p rs)\<lparr>rq_workspaceId := given u\<rparr>) (m (in_workspace u request))))"
    (is "creates_in _ _ _ ?c")
  unfolding creates_in_def
proof (intro allI impI)
  fix s x
  assume r: "snd (?c s) = Inr x"
  let ?g = "enforcing d (scoped_context n r (w # ws))"
  obtain u where u: "resolveMutationWorkspaceId (Some (scoped_context n r (w # ws))) v = Inr u"
    and g: "snd (guarded ?g ((requires p rs)\<lparr>rq_workspaceId := given u\<rparr>) (m (in_workspace u request)) s) = Inr x"
    using r by (auto simp: thenA_Inr liftA_def)
  note e = enforcing_Inr [OF g]
  obtain y where y: "y \<in> set (w # ws)" "given u = Some y"
    using permitted_given_workspace [of "(requires p rs)\<lparr>rq_workspaceId := given u\<rparr>" n r w ws] e assms by (auto simp: requires_def)
  then have "?c s = m (request\<lparr>wr_workspaceId := Some y\<rparr>) s"
    using e u by (simp add: thenA_def liftA_def in_workspace_def)
  then show "\<exists>w \<in> set (w # ws). ?c s = m (request\<lparr>wr_workspaceId := Some w\<rparr>) s" using y by blast
qed

text \<open>The list of tasks: the wrapper relies on the service to honour the workspace it asks for.\<close>

locale workspace_lister =
  fixes list :: "'q workspace_request_scheme \<Rightarrow> ('s, ('m workspaced_scheme, 'z) listing_scheme) act"
  assumes honours: "wr_workspaceId q = Some w \<Longrightarrow> w \<noteq> [] \<Longrightarrow> snd (list q s) = Inr l \<Longrightarrow> x \<in> set (li_items l) \<Longrightarrow>
    wo_workspaceId x = w"
begin

lemma list_confined:
  "confined (w # ws) item_places (AuthorizedTaskWorkbenchService_list guard (Some (scoped_context n r (w # ws))) list query)"
  unfolding AuthorizedTaskWorkbenchService_list_def
proof (intro confined_guarded, unfold confined_def, intro allI impI)
  fix s l
  let ?ctx = "Some (scoped_context n r (w # ws))"
  let ?last = "\<lambda>u listed. if given u \<noteq> None then listed
      else let tasks = filterByWorkspaceScope ?ctx (li_items listed) in listed\<lparr>li_items := tasks, li_total := int (length tasks)\<rparr>"
  assume "snd (thenA (liftA (resolveListWorkspaceId ?ctx (wr_workspaceId query))) (\<lambda>u.
    thenA (list (in_workspace u query)) (\<lambda>listed. okA (?last u listed))) s) = Inr l"
  then obtain u listed s' where u: "resolveListWorkspaceId ?ctx (wr_workspaceId query) = Inr u"
    and m: "list (in_workspace u query) s = (s', Inr listed)" and l: "l = ?last u listed"
    by (auto simp: thenA_Inr liftA_def okA_def)
  show "item_places l \<subseteq> set (w # ws)"
  proof (cases "given u")
    case None
    then show ?thesis using l filter_confined [of n r w ws "li_items listed"] by (simp add: Let_def)
  next
    case (Some v)
    then have "u = Some v" "v \<noteq> []" by (simp_all add: given_Some)
    have "v \<in> set (w # ws)"
      using u \<open>u = Some v\<close> by (auto simp: resolveListWorkspaceId_def split: option.splits list.splits if_splits)
    moreover have "wo_workspaceId x = v" if "x \<in> set (li_items listed)" for x
      using honours [of "in_workspace u query" v s listed x] m that Some \<open>v \<noteq> []\<close> by (simp add: in_workspace_def)
    ultimately show ?thesis using l Some by auto
  qed
qed

end

text \<open> C34 A Viewer may start runs: in enforce mode \<open>runs.create\<close> passes for every Viewer whose scope names no agents, and
  starting a schedule is not guarded at all, although neither is among the permissions that \<open>rbac.ts\<close> lists for
  Viewers.
\<close>

theorem viewer_starts_runs:
  "AuthorizedRunService_run (viewing d n (open_scope\<lparr>sc_sessionIds := sessions\<rparr>)) run request options s = run request options s \<and>
   AuthorizedScheduleService_run start i options' = start i options' \<and>
   ''runs.create'' \<notin> set (getPermissionsForRole Viewer) \<and> ''runs.create'' \<in> set (getPermissionsForRole Operator)"
proof -
  let ?cx = "viewer_context n (open_scope\<lparr>sc_sessionIds := sessions\<rparr>)"
  let ?rq = "(requires ''runs.create'' anyone)\<lparr>rq_sessionId := Some (rr_session request), rq_agentName := resolveAgentName (rr_metadata request)\<rparr>"
  have "permitted ?cx ?rq"
    by (simp add: permitted_def within_scope_def scope_dimensions_def viewer_context_def open_scope_def requires_def
        isSessionScopedOperation_def isRunScopedOperation_def isWorkspaceScopedOperation_def)
  moreover have "''runs.create'' \<notin> set VIEWER_PERMISSIONS" by (simp add: VIEWER_PERMISSIONS_def)
  moreover have "''runs.create'' \<in> set OPERATOR_ADDITIONAL_PERMISSIONS" by (simp add: OPERATOR_ADDITIONAL_PERMISSIONS_def)
  ultimately show ?thesis
    by (simp add: AuthorizedRunService_run_def AuthorizedScheduleService_run_def enforced.guarded_pass getPermissionsForRole_def)
qed

text \<open> The scopes act even when authorization is switched off: with mode \<open>off\<close> a caller whose scope names two
  workspaces cannot create a task without naming one, and the service is not called.
\<close>

theorem scope_refuses_when_off:
  "refused service (AuthorizedTaskWorkbenchService_create
      (assertAllowed \<lparr>ac_authEnabled = e, ac_authz = Some \<lparr>az_mode = ModeOff, az_defaultDecision = Allow\<rparr>\<rparr> emit ctx)
      (Some (scoped_context n r (v # w # ws))) m \<lparr>wr_workspaceId = None, \<dots> = more\<rparr>)"
  by (simp add: AuthorizedTaskWorkbenchService_create_def refused_def thenA_def liftA_def resolveMutationWorkspaceId_def
      given_def authz_denied_def)

end
