(* ===== verification/TaskService.thy ===== *)
theory TaskService
  imports WorkflowTasks AuthorizedServices
begin

text \<open>
  The task service, \<open>LocalTaskWorkbenchService\<close> of \<open>services/task-workbench.ts\<close>, as far as it reads and writes
  tasks: \<open>list\<close>, \<open>get\<close>, \<open>create\<close>, \<open>update\<close> and \<open>getRun\<close>, over the tables of \<open>WorkflowTasks\<close>, and the same methods
  behind the authorizing wrapper of \<open>AuthorizedServices\<close>. The readiness check that a task is shown with is an
  argument, and events and artifacts of a run are left out.
\<close>

section \<open>The tables the service reads\<close>

record agent_index =
  ag_id :: string
  ag_version :: string
  ag_pluginId :: string
  ag_pluginVersion :: string
  ag_capabilities :: "string list"
  ag_status :: string

record plugin_index =
  pg_id :: string
  pg_version :: string
  pg_enabled :: bool
  pg_status :: string

record task_app =
  ta_tasks :: "task_record list"
  ta_runs :: "task_run_record list"
  ta_agents :: "agent_index list"
  ta_plugins :: "plugin_index list"

record list_runs_options =
  lr_targetType :: "run_target option"
  lr_targetId :: "string option"
  lr_status :: "run_state option"
  lr_workspaceId :: "string option"
  lr_limit :: "jsnum option"

definition listTaskRuns :: "task_run_record list \<Rightarrow> list_runs_options \<Rightarrow> task_run_record list" where
  "listTaskRuns rows opts = map mapRunRow (take (nat (clampAppStateListLimit (lr_limit opts)))
     (sort_key (\<lambda>r. - rn_createdAt r) (filter (\<lambda>r.
       (lr_targetType opts = None \<or> lr_targetType opts = Some (rn_targetType r)) \<and>
       (text_col (lr_targetId opts) = None \<or> text_col (lr_targetId opts) = Some (rn_targetId r)) \<and>
       (lr_status opts = None \<or> lr_status opts = Some (rn_status r)) \<and>
       (text_col (lr_workspaceId opts) = None \<or> text_col (lr_workspaceId opts) = Some (rn_workspaceId r))) rows)))"

text \<open>\<open>agents.list().find\<close> over the index, ordered by id and version, and \<open>plugins.get\<close>.\<close>

definition findAgent :: "task_app \<Rightarrow> string \<Rightarrow> string option \<Rightarrow> agent_index option" where
  "findAgent app i version = find (\<lambda>a. ag_id a = i \<and> (given version = None \<or> given version = Some (ag_version a)))
     (sort_key (\<lambda>a. (ag_id a, ag_version a)) (ta_agents app))"

definition findPlugin :: "task_app \<Rightarrow> string \<Rightarrow> string \<Rightarrow> plugin_index option" where
  "findPlugin app i version = find (\<lambda>p. pg_id p = i \<and> pg_version p = version) (ta_plugins app)"

section \<open>What is checked and normalized before a task is written\<close>

definition validateReadyAssignment :: "task_status \<Rightarrow> string option \<Rightarrow> unit result" where
  "validateReadyAssignment status assigned =
     (if status = TaskReady \<and> given assigned = None then Inl (config_error ''ready tasks require assignedAgentId'') else Inr ())"

definition validateCompatibleAssignment :: "task_app \<Rightarrow> string option \<Rightarrow> string option \<Rightarrow> string list \<Rightarrow> unit result" where
  "validateCompatibleAssignment app assigned version capabilities = (case given assigned of
     None \<Rightarrow> Inr ()
   | Some i \<Rightarrow> (case findAgent app i version of
       None \<Rightarrow> Inl (config_error (''assigned agent not found: '' @ i))
     | Some a \<Rightarrow> (case findPlugin app (ag_pluginId a) (ag_pluginVersion a) of
         None \<Rightarrow> Inl (config_error (''assigned agent is not available: '' @ i))
       | Some p \<Rightarrow>
           if \<not> pg_enabled p \<or> pg_status p \<noteq> ''loaded'' \<or> ag_status a \<noteq> ''loaded''
           then Inl (config_error (''assigned agent is not available: '' @ i))
           else (let missing = filter (\<lambda>c. c \<notin> set (ag_capabilities a)) capabilities in
             if missing \<noteq> [] then Inl (config_error (''assigned agent '' @ i @ '' does not satisfy capability requirements: ''
                 @ join '', '' missing))
             else Inr ()))))"

definition readNonEmptyString :: "js \<Rightarrow> string option" where
  "readNonEmptyString v = (case v of JStr x \<Rightarrow> (if trim x \<noteq> [] then Some x else None) | _ \<Rightarrow> None)"

fun members :: "js \<Rightarrow> (string \<times> js) list" where
  "members (JObj kvs) = kvs"
| "members _ = []"

definition normalizeRepositoryInputShape :: "(string \<times> js) list \<Rightarrow> (string \<times> js) list" where
  "normalizeRepositoryInputShape inputs = (let repo = js_get (JObj inputs) ''repo'' in
     if \<not> is_record repo then inputs
     else (case or_first (readNonEmptyString (js_get repo ''path''))
           (or_first (readNonEmptyString (js_get (JObj inputs) ''repoPath'')) (readNonEmptyString (js_get repo ''workspacePath''))) of
         None \<Rightarrow> inputs
       | Some p \<Rightarrow> (let inputs' = AList.update ''repo'' (JObj (AList.update ''path'' (JStr p) (members repo))) inputs in
           if readNonEmptyString (js_get (JObj inputs) ''repoPath'') \<noteq> None then inputs'
           else AList.update ''repoPath'' (JStr p) inputs')))"

definition normalizeTaskInputsWithRunMode :: "js \<Rightarrow> js" where
  "normalizeTaskInputsWithRunMode inputs = (let values = normalizeRepositoryInputShape (members inputs) in
     JObj (if ''runMode'' \<notin> fst ` set values then AList.update ''runMode'' (JStr ''read-only'') values else values))"

definition normalizeTaskRepositoryError :: "error \<Rightarrow> error" where
  "normalizeTaskRepositoryError e = (case e of
     AthenaError c m r \<Rightarrow> e
   | JsError m \<Rightarrow> if has_substring ''ready tasks require assignedAgentId'' m then config_error m
       else AthenaError PROVIDER_ERROR m True)"

section \<open>The service\<close>

text \<open>A task as it is shown: the members the wrapper reads, its record, its latest run and its readiness.\<close>

record 'd task_view = workbench_item +
  tv_record :: task_record
  tv_readiness :: 'd
  tv_latestRun :: "task_run_record option"

definition mapTaskRecord :: "(task_app \<Rightarrow> task_record \<Rightarrow> 'd) \<Rightarrow> task_app \<Rightarrow> task_record \<Rightarrow> 'd task_view" where
  "mapTaskRecord readiness app t = \<lparr>wo_workspaceId = tk_workspaceId t, wi_assignedAgentId = given (tk_assignedAgentId t),
     tv_record = t, tv_readiness = readiness app t,
     tv_latestRun = (case listTaskRuns (ta_runs app) \<lparr>lr_targetType = Some TargetTask, lr_targetId = Some (tk_id t),
       lr_status = None, lr_workspaceId = None, lr_limit = Some (Fin 1)\<rparr> of [] \<Rightarrow> None | r # _ \<Rightarrow> Some r)\<rparr>"

record task_query = workspace_request +
  tq_includeArchived :: bool
  tq_status :: "task_status option"
  tq_missionId :: "string option"

definition task_not_found :: "string \<Rightarrow> error" where
  "task_not_found i = AthenaError PROVIDER_NOT_FOUND (''Task not found: '' @ i) False"

definition workbench_list ::
    "(task_app \<Rightarrow> task_record \<Rightarrow> 'd) \<Rightarrow> task_query \<Rightarrow> (task_app, 'd task_view listing) act" where
  "workbench_list readiness query = (\<lambda>app.
     let tasks = map (mapTaskRecord readiness app) (listTasks (ta_tasks app) \<lparr>lt_includeArchived = tq_includeArchived query,
           lt_status = tq_status query, lt_missionId = tq_missionId query, lt_workspaceId = wr_workspaceId query, lt_limit = None\<rparr>)
     in (app, Inr \<lparr>li_items = tasks, li_total = int (length tasks)\<rparr>))"

definition workbench_get ::
    "(task_app \<Rightarrow> task_record \<Rightarrow> 'd) \<Rightarrow> string \<Rightarrow> (task_app, 'd task_view) act" where
  "workbench_get readiness i = (\<lambda>app. (app, case getTask (ta_tasks app) i of
     None \<Rightarrow> Inl (task_not_found i) | Some t \<Rightarrow> Inr (mapTaskRecord readiness app t)))"

text \<open>A write of the task table: an error of the table is normalized and leaves the table as it was.\<close>

definition writeTask ::
    "(task_app \<Rightarrow> task_record \<Rightarrow> 'd) \<Rightarrow> (task_record list \<Rightarrow> (task_record list \<times> task_record) result) \<Rightarrow> (task_app, 'd task_view) act" where
  "writeTask readiness f = (\<lambda>app. case f (ta_tasks app) of
     Inl e \<Rightarrow> (app, Inl (normalizeTaskRepositoryError e))
   | Inr (rows, t) \<Rightarrow> (let app' = app\<lparr>ta_tasks := rows\<rparr> in (app', Inr (mapTaskRecord readiness app' t))))"

record create_request = workspace_request +
  cr_id :: "string option"
  cr_input :: task_input

definition workbench_create ::
    "(task_app \<Rightarrow> task_record \<Rightarrow> 'd) \<Rightarrow> string \<Rightarrow> time \<Rightarrow> create_request \<Rightarrow> (task_app, 'd task_view) act" where
  "workbench_create readiness uuid now request = (let input = cr_input request in
     thenA (liftA (validateReadyAssignment (or_else (ti_status input) TaskDraft) (ti_assignedAgentId input))) (\<lambda>_.
     thenA (\<lambda>app. (app, validateCompatibleAssignment app (ti_assignedAgentId input) (ti_assignedAgentVersion input)
       (or_else (ti_capabilityRequirements input) []))) (\<lambda>_.
     writeTask readiness (\<lambda>rows. createTask rows (or_else (cr_id request) (''task-'' @ uuid))
       (input\<lparr>ti_inputs := normalizeTaskInputsWithRunMode (ti_inputs input), ti_workspaceId := wr_workspaceId request\<rparr>) now))))"

definition workbench_update ::
    "(task_app \<Rightarrow> task_record \<Rightarrow> 'd) \<Rightarrow> time \<Rightarrow> string \<Rightarrow> task_input \<Rightarrow> (task_app, 'd task_view) act" where
  "workbench_update readiness now i request =
     thenA (\<lambda>app. (app, case getTask (ta_tasks app) i of None \<Rightarrow> Inl (task_not_found i) | Some t \<Rightarrow> Inr t)) (\<lambda>existing.
     let assigned = or_opt (ti_assignedAgentId request) (tk_assignedAgentId existing) in
     thenA (liftA (validateReadyAssignment (or_else (ti_status request) (tk_status existing)) assigned)) (\<lambda>_.
     thenA (\<lambda>app. (app, validateCompatibleAssignment app assigned
       (or_opt (ti_assignedAgentVersion request) (tk_assignedAgentVersion existing))
       (or_else (ti_capabilityRequirements request) (tk_capabilityRequirements existing)))) (\<lambda>_.
     writeTask readiness (\<lambda>rows. updateTask rows i (if ti_inputs request = JUndefined then request
       else request\<lparr>ti_inputs := normalizeTaskInputsWithRunMode (ti_inputs request)\<rparr>) now))))"

record task_run_view = workspaced +
  rv_run :: task_run_record

definition getTaskRun :: "task_run_record list \<Rightarrow> string \<Rightarrow> task_run_record option" where
  "getTaskRun rows i = map_option mapRunRow (find (\<lambda>r. rn_id r = i) rows)"

text \<open>The detail of a run, with its task if it is still there.\<close>

record 'd task_run_detail = "task_run_view run_detail" +
  td_task :: "'d task_view option"

definition workbench_getRun ::
    "(task_app \<Rightarrow> task_record \<Rightarrow> 'd) \<Rightarrow> string \<Rightarrow> (task_app, 'd task_run_detail) act" where
  "workbench_getRun readiness runId = (\<lambda>app. (app, case getTaskRun (ta_runs app) runId of
     None \<Rightarrow> Inl (AthenaError PROVIDER_NOT_FOUND (''Task run not found: '' @ runId) False)
   | Some r \<Rightarrow> if rn_targetType r \<noteq> TargetTask then Inl (AthenaError PROVIDER_NOT_FOUND (''Task run not found: '' @ runId) False)
       else Inr \<lparr>rd_run = \<lparr>wo_workspaceId = rn_workspaceId r, rv_run = r\<rparr>,
         td_task = map_option (mapTaskRecord readiness app) (getTask (ta_tasks app) (rn_targetId r))\<rparr>))"

section \<open>The service behind the wrapper\<close>

text \<open>The state of the wrapped service is its tables and the event log of the authorizer.\<close>

definition behind :: "('w, 'a) act \<Rightarrow> ('w \<times> 'l, 'a) act" where
  "behind m = (\<lambda>(w, log). case m w of (w', r) \<Rightarrow> ((w', log), r))"

lemma snd_behind: "snd (behind m s) = snd (m (fst s))"
  by (cases s) (simp add: behind_def split: prod.split)

lemma listTasks_workspace:
  "x \<in> set (listTasks rows opts) \<Longrightarrow> lt_workspaceId opts = Some w \<Longrightarrow> w \<noteq> [] \<Longrightarrow> tk_workspaceId x = w"
  by (auto simp: listTasks_def mapTaskRow_def newest_tasks_def text_col_def dest!: in_set_takeD)

interpretation local_tasks: workspace_lister "\<lambda>q. behind (workbench_list readiness q)"
  for readiness :: "task_app \<Rightarrow> task_record \<Rightarrow> 'd"
proof
  fix q :: task_query and w l x and s :: "task_app \<times> 'l"
  assume q: "wr_workspaceId q = Some w" "w \<noteq> []" and l: "snd (behind (workbench_list readiness q) s) = Inr l"
    and x: "x \<in> set (li_items l)"
  let ?opts = "\<lparr>lt_includeArchived = tq_includeArchived q, lt_status = tq_status q, lt_missionId = tq_missionId q,
    lt_workspaceId = wr_workspaceId q, lt_limit = None\<rparr>"
  obtain t where "t \<in> set (listTasks (ta_tasks (fst s)) ?opts)" "x = mapTaskRecord readiness (fst s) t"
    using l x by (auto simp: snd_behind workbench_list_def Let_def)
  then show "wo_workspaceId x = w"
    using listTasks_workspace [of t "ta_tasks (fst s)" ?opts w] q by (simp add: mapTaskRecord_def)
qed

abbreviation scoping :: "decision \<Rightarrow> string \<Rightarrow> role \<Rightarrow> string list \<Rightarrow> ('w \<times> js list) guard" where
  "scoping d n r ws \<equiv> enforcing d (scoped_context n r ws)"

lemmas isolating_defs =
  AuthorizedTaskWorkbenchService_get_def AuthorizedTaskWorkbenchService_getRun_def
  AuthorizedTaskWorkbenchService_create_def AuthorizedModelProviderConfigService_list_def
  AuthorizedModelProviderConfigService_get_def AuthorizedModelProviderConfigService_create_def
  AuthorizedConnectedRepositoryService_list_def AuthorizedConnectedRepositoryService_get_def
  AuthorizedConnectedRepositoryService_create_def


text \<open>A task of one workspace, not assigned to an agent.\<close>

definition lone_task :: "string \<Rightarrow> string \<Rightarrow> task_record" where
  "lone_task i w = \<lparr>tk_id = i, tk_title = ''t'', tk_description = [], tk_status = TaskDraft, tk_capabilityRequirements = [],
     tk_assignedAgentId = None, tk_assignedAgentVersion = None, tk_inputs = JObj [], tk_dependsOn = [], tk_missionId = None,
     tk_sourceRunId = None, tk_provenance = JUndefined, tk_createdBy = None, tk_workspaceId = w, tk_createdAt = 0,
     tk_updatedAt = 0, tk_archivedAt = None\<rparr>"

definition lone_app :: "string \<Rightarrow> string \<Rightarrow> task_app" where
  "lone_app i w = \<lparr>ta_tasks = [lone_task i w], ta_runs = [], ta_agents = [], ta_plugins = []\<rparr>"

text \<open> C33 An update is checked against the workspace the task has, not against the one it asks for: an Operator who
  is confined to workspace \<open>w\<close> moves a task into any workspace \<open>v\<close>, its own scope notwithstanding.
\<close>

theorem task_leaves_scope:
  "case AuthorizedTaskWorkbenchService_update (scoping d n Operator [c # w]) (\<lambda>i. behind (workbench_get readiness i))
      (\<lambda>i q. behind (workbench_update readiness now i q)) i (no_task_input\<lparr>ti_workspaceId := Some v\<rparr>) (lone_app i (c # w), events) of
     ((app, events'), r) \<Rightarrow> map tk_workspaceId (ta_tasks app) = [v] \<and> events' = events \<and> (\<exists>x. r = Inr x \<and> wo_workspaceId x = v)"
proof -
  let ?cx = "scoped_context n Operator [c # w]"
  let ?rq = "(requires ''taskWorkbench.update'' operators)\<lparr>rq_workspaceId := Some (c # w)\<rparr>"
  have "permitted ?cx ?rq"
    by (simp add: permitted_def within_scope_def scope_dimensions_def scoped_context_def open_scope_def requires_def
        isAgentScopedOperation_def isSessionScopedOperation_def isRunScopedOperation_def)
  moreover have "getTask (ta_tasks (lone_app i (c # w))) i = Some (lone_task i (c # w))"
    by (simp add: getTask_def lone_app_def lone_task_def mapTaskRow_def text_col_def)
  moreover have "validateReadyAssignment TaskDraft None = Inr ()" "validateCompatibleAssignment app None version capabilities = Inr ()"
    for app version capabilities
    by (simp_all add: validateReadyAssignment_def validateCompatibleAssignment_def given_def)
  moreover have "\<exists>t. updateTask [lone_task i (c # w)] i (no_task_input\<lparr>ti_workspaceId := Some v\<rparr>) now =
      Inr ([updated_task (lone_task i (c # w)) (no_task_input\<lparr>ti_workspaceId := Some v\<rparr>) now], t) \<and> tk_workspaceId t = v"
    by (simp add: updateTask_def requireTaskRow_def getTask_def mapTaskRow_def assertTaskReadyAssignment_def updated_task_def
        lone_task_def no_task_input_def  or_opt_def text_col_def Let_def)
  moreover have "tk_workspaceId (updated_task t (no_task_input\<lparr>ti_workspaceId := Some v\<rparr>) now) = v" for t
    by (simp add: updated_task_def  Let_def)
  ultimately show ?thesis
    by (auto simp: AuthorizedTaskWorkbenchService_update_def guarded_in_workspace_def enforced.guarded_pass
        workbench_get_def workbench_update_def writeTask_def behind_def thenA_def liftA_def mapTaskRecord_def lone_app_def
        no_task_input_def  or_opt_def Let_def lone_task_def)
qed

section \<open>What is written can be read\<close>

lemma writeTask_Inr:
  "writeTask readiness f app = (app', Inr x) \<longleftrightarrow>
     (\<exists>rows t. f (ta_tasks app) = Inr (rows, t) \<and> app' = app\<lparr>ta_tasks := rows\<rparr> \<and> x = mapTaskRecord readiness app' t)"
  by (auto simp: writeTask_def Let_def split: sum.splits)

lemma createTask_get:
  assumes "createTask rows i input now = Inr (rows', t)"
  shows "getTask rows' i = Some t" "getTask rows i = None" "j \<noteq> i \<Longrightarrow> getTask rows' j = getTask rows j"
proof -
  obtain e where e: "rows' = rows @ [e]" "tk_id e = i" "i \<notin> tk_id ` set rows" "requireTaskRow rows' i = Inr t"
    using assms by (auto simp: createTask_def bindR_eq_Inr Let_def split: if_splits)
  show "getTask rows' i = Some t" using e(4) by (auto simp: requireTaskRow_def split: option.splits)
  have "find (\<lambda>t. tk_id t = i) rows = None" using e(3) by (auto simp: find_eq_None)
  then show "getTask rows i = None" by (simp add: getTask_def)
  show "getTask rows' j = getTask rows j" if "j \<noteq> i"
    using that e(1,2) by (simp add: getTask_def find_append split: option.split)
qed

lemma updated_task_id: "tk_id (updated_task t input now) = tk_id t"
  by (simp add: updated_task_def Let_def)

lemma updateTask_get:
  assumes "updateTask rows i input now = Inr (rows', t)"
  shows "getTask rows' i = Some t" "j \<noteq> i \<Longrightarrow> getTask rows' j = getTask rows j"
proof -
  have e: "rows' = map (\<lambda>t. if tk_id t = i then updated_task (the (getTask rows i)) input now else t) rows"
    "requireTaskRow rows' i = Inr t" "getTask rows i \<noteq> None"
    using assms by (auto simp: updateTask_def bindR_eq_Inr requireTaskRow_def Let_def split: option.splits)
  show "getTask rows' i = Some t" using e(2) by (auto simp: requireTaskRow_def split: option.splits)
  have id: "tk_id (the (getTask rows i)) = i"
  proof -
    obtain t0 where "find (\<lambda>t. tk_id t = i) rows = Some t0" using e(3) by (auto simp: getTask_def)
    then show ?thesis by (auto simp: getTask_def mapTaskRow_def dest: find_SomeD)
  qed
  show "getTask rows' j = getTask rows j" if "j \<noteq> i"
  proof -
    have "find (\<lambda>t. tk_id t = j) (map (\<lambda>t. if tk_id t = i then updated_task r input now else t) xs) = find (\<lambda>t. tk_id t = j) xs"
      if "tk_id r = i" for r xs
      using that \<open>j \<noteq> i\<close> by (induction xs) (auto simp: updated_task_id)
    then show ?thesis using e(1) id by (simp add: getTask_def)
  qed
qed

text \<open> C27 A created task had no row before, has the id asked for or a fresh one, and is what \<open>get\<close> returns afterwards;
  an updated task is what \<open>get\<close> returns afterwards; neither changes what \<open>get\<close> finds of another task.
\<close>

theorem written_task_found:
  "(workbench_create readiness uuid now request app = (app', Inr x) \<longrightarrow>
      (let i = or_else (cr_id request) (''task-'' @ uuid) in getTask (ta_tasks app) i = None \<and>
        workbench_get readiness i app' = (app', Inr x) \<and> (\<forall>j. j \<noteq> i \<longrightarrow> getTask (ta_tasks app') j = getTask (ta_tasks app) j))) \<and>
   (workbench_update readiness now i change app = (app', Inr x) \<longrightarrow>
      workbench_get readiness i app' = (app', Inr x) \<and> (\<forall>j. j \<noteq> i \<longrightarrow> getTask (ta_tasks app') j = getTask (ta_tasks app) j))"
proof (intro conjI impI)
  assume c: "workbench_create readiness uuid now request app = (app', Inr x)"
  obtain rows t input where "createTask (ta_tasks app) (or_else (cr_id request) (''task-'' @ uuid)) input now = Inr (rows, t)"
    "app' = app\<lparr>ta_tasks := rows\<rparr>" "x = mapTaskRecord readiness app' t"
    using c by (auto simp: workbench_create_def thenA_def liftA_def Let_def writeTask_Inr split: sum.splits)
  then show "let i = or_else (cr_id request) (''task-'' @ uuid) in getTask (ta_tasks app) i = None \<and>
      workbench_get readiness i app' = (app', Inr x) \<and> (\<forall>j. j \<noteq> i \<longrightarrow> getTask (ta_tasks app') j = getTask (ta_tasks app) j)"
    using createTask_get [of "ta_tasks app" _ input now rows t] by (simp add: workbench_get_def Let_def)
next
  assume c: "workbench_update readiness now i change app = (app', Inr x)"
  obtain rows t input where u: "updateTask (ta_tasks app) i input now = Inr (rows, t)"
    "app' = app\<lparr>ta_tasks := rows\<rparr>" "x = mapTaskRecord readiness app' t"
    using c by (auto simp: workbench_update_def thenA_def liftA_def Let_def writeTask_Inr
        split: sum.splits option.splits if_splits)
  show "workbench_get readiness i app' = (app', Inr x)"
    using u updateTask_get(1) [OF u(1)] by (simp add: workbench_get_def)
  show "\<forall>j. j \<noteq> i \<longrightarrow> getTask (ta_tasks app') j = getTask (ta_tasks app) j"
    using u updateTask_get(2) [OF u(1)] by simp
qed

theorem written_task_found_witness:
  "fst (workbench_update (\<lambda>_ _. ()) 5 ''t'' (no_task_input\<lparr>ti_title := Some ''u''\<rparr>) (lone_app ''t'' ''a'')) = lone_app ''t'' ''a''
     \<lparr>ta_tasks := [(lone_task ''t'' ''a'')\<lparr>tk_title := ''u'', tk_updatedAt := 5\<rparr>]\<rparr> \<and>
   workbench_get (\<lambda>_ _. ()) ''t'' (lone_app ''t'' ''a''\<lparr>ta_tasks := [(lone_task ''t'' ''a'')\<lparr>tk_title := ''u'', tk_updatedAt := 5\<rparr>]\<rparr>) =
     workbench_update (\<lambda>_ _. ()) 5 ''t'' (no_task_input\<lparr>ti_title := Some ''u''\<rparr>) (lone_app ''t'' ''a'')"
proof -
  let ?u = "workbench_update (\<lambda>_ _. ()) 5 ''t'' (no_task_input\<lparr>ti_title := Some ''u''\<rparr>) (lone_app ''t'' ''a'')"
  have f: "fst ?u = lone_app ''t'' ''a''\<lparr>ta_tasks := [(lone_task ''t'' ''a'')\<lparr>tk_title := ''u'', tk_updatedAt := 5\<rparr>]\<rparr>"
    by code_simp
  have "\<not> isl (snd ?u)" by code_simp
  then obtain x where "snd ?u = Inr x" by (cases "snd ?u") auto
  then have "?u = (fst ?u, Inr x)" by (metis prod.collapse)
  then show ?thesis using f written_task_found [of "\<lambda>_ _. ()" undefined 5 undefined "lone_app ''t'' ''a''" "fst ?u" x "''t''"
      "no_task_input\<lparr>ti_title := Some ''u''\<rparr>"] by simp
qed

end
