(* ===== verification/Missions.thy ===== *)
theory Missions
  imports WorkflowTasks
begin

text \<open>
  The mission table, \<open>MissionRepository\<close> of \<open>app-state/domain-repositories/missions.ts\<close>. A row holds what its JSON
  columns parse to.
\<close>

datatype mission_status = MissionDraft | MissionReady | MissionRunning | MissionBlocked | MissionCompleted
  | MissionFailed | MissionCancelled | MissionArchived

record mission_record =
  ms_id :: string
  ms_title :: string
  ms_goal :: string
  ms_context :: js
  ms_status :: mission_status
  ms_taskOrder :: "string list"
  ms_createdAt :: time
  ms_updatedAt :: time
  ms_archivedAt :: "time option"

record mission_input =
  mi_title :: "string option"
  mi_goal :: "string option"
  mi_context :: js
  mi_status :: "mission_status option"
  mi_taskOrder :: "string list option"

definition no_mission_input :: mission_input where
  "no_mission_input = \<lparr>mi_title = None, mi_goal = None, mi_context = JUndefined, mi_status = None, mi_taskOrder = None\<rparr>"

definition getMission :: "mission_record list \<Rightarrow> string \<Rightarrow> mission_record option" where
  "getMission rows i = find (\<lambda>m. ms_id m = i) rows"

definition requireMission :: "mission_record list \<Rightarrow> string \<Rightarrow> mission_record result" where
  "requireMission rows i = (case getMission rows i of
     None \<Rightarrow> Inl (JsError (''Mission not found: '' @ i)) | Some m \<Rightarrow> Inr m)"

definition createMission ::
    "mission_record list \<Rightarrow> string \<Rightarrow> mission_input \<Rightarrow> time \<Rightarrow> (mission_record list \<times> mission_record) result" where
  "createMission rows i input now =
     (if i \<in> ms_id ` set rows then Inl (JsError ''UNIQUE constraint failed: missions.id'')
      else (let status = or_else (mi_status input) MissionDraft;
                rows' = rows @ [\<lparr>ms_id = i, ms_title = or_else (mi_title input) [], ms_goal = or_else (mi_goal input) [],
                  ms_context = json_value (or_js (mi_context input) (JObj [])), ms_status = status,
                  ms_taskOrder = or_else (mi_taskOrder input) [], ms_createdAt = now, ms_updatedAt = now,
                  ms_archivedAt = (if status = MissionArchived then Some now else None)\<rparr>]
        in bindR (requireMission rows' i) (\<lambda>m. Inr (rows', m))))"

definition listMissions :: "mission_record list \<Rightarrow> bool \<Rightarrow> mission_record list" where
  "listMissions rows includeArchived = filter (\<lambda>m. includeArchived \<or> ms_status m \<noteq> MissionArchived)
     (sort_key (\<lambda>m. (- ms_updatedAt m, - ms_createdAt m)) rows)"

definition updated_mission :: "mission_record \<Rightarrow> mission_input \<Rightarrow> time \<Rightarrow> mission_record" where
  "updated_mission existing input now = (let status = or_else (mi_status input) (ms_status existing) in existing\<lparr>
     ms_title := or_else (mi_title input) (ms_title existing),
     ms_goal := or_else (mi_goal input) (ms_goal existing),
     ms_context := json_value (or_js (mi_context input) (ms_context existing)),
     ms_status := status,
     ms_taskOrder := or_else (mi_taskOrder input) (ms_taskOrder existing),
     ms_updatedAt := now,
     ms_archivedAt := (if status = MissionArchived then Some (or_else (ms_archivedAt existing) now) else ms_archivedAt existing)\<rparr>)"

definition updateMission ::
    "mission_record list \<Rightarrow> string \<Rightarrow> mission_input \<Rightarrow> time \<Rightarrow> (mission_record list \<times> mission_record) result" where
  "updateMission rows i input now = bindR (requireMission rows i) (\<lambda>existing.
     let rows' = map (\<lambda>m. if ms_id m = i then updated_mission existing input now else m) rows in
     bindR (requireMission rows' i) (\<lambda>m. Inr (rows', m)))"

definition archiveMission :: "mission_record list \<Rightarrow> string \<Rightarrow> time \<Rightarrow> (mission_record list \<times> mission_record) result" where
  "archiveMission rows i now = updateMission rows i (no_mission_input\<lparr>mi_status := Some MissionArchived\<rparr>) now"

lemma updated_mission_simps [simp]:
  "ms_id (updated_mission m input now) = ms_id m"
  "ms_status (updated_mission m input now) = or_else (mi_status input) (ms_status m)"
  by (simp_all add: updated_mission_def Let_def)

lemma find_map_update:
  "(\<And>x. k x = i \<Longrightarrow> k (f x) = i) \<Longrightarrow>
     find (\<lambda>x. k x = i) (map (\<lambda>x. if k x = i then f x else x) rows) = map_option f (find (\<lambda>x. k x = i) rows)"
  by (induction rows) auto

lemma updateMission_eq:
  assumes "getMission rows i = Some m"
  shows "\<exists>m'. updateMission rows i input now = Inr (map (\<lambda>x. if ms_id x = i then updated_mission m input now else x) rows, m')"
proof -
  have "ms_id m = i" using assms by (auto simp: getMission_def dest: find_SomeD)
  then have "getMission (map (\<lambda>x. if ms_id x = i then updated_mission m input now else x) rows) i = Some (updated_mission m input now)"
    using assms find_map_update [of ms_id i "\<lambda>_. updated_mission m input now" rows] by (simp add: getMission_def)
  then show ?thesis using assms by (simp add: updateMission_def requireMission_def Let_def)
qed

text \<open>Looking up a key in a table without duplicates.\<close>

lemma map_key_distinct:
  assumes "distinct (map k rows)" "find (\<lambda>x. k x = i) rows = Some r"
  shows "map (\<lambda>x. if k x = i then f r else x) rows = map (\<lambda>x. if k x = i then f x else x) rows"
proof (rule map_cong [OF refl])
  fix x assume x: "x \<in> set rows"
  have "r \<in> set rows" "k r = i" using find_SomeD [OF assms(2)] by auto
  then have "k x = i \<Longrightarrow> x = r" using assms(1) x by (auto simp: distinct_map inj_on_def)
  then show "(if k x = i then f r else x) = (if k x = i then f x else x)" by auto
qed

end
