(* ===== verification/StaleRecovery.thy ===== *)
theory StaleRecovery
  imports TaskService Missions WorkflowSafety
begin

text \<open>
  What a process does at its start about runs that were left running: \<open>services/stale-run-recovery.ts\<close>.
  \<open>recoverStaleWorkflowDagRuns\<close> fails the running steps of workflow runs and makes the runs resumable;
  \<open>recoverStaleTaskAndMissionRuns\<close> fails the running runs of tasks and missions, and their tasks and missions.
  Both read pages of at most 1000 running runs until a page gives them nothing to do. Neither loop has an obvious
  bound, so both are \<open>partial_function (option)\<close>, and that they return is proved.
\<close>

section \<open>Workflow runs\<close>

definition staleRuns :: "dag_db \<Rightarrow> run_record list" where
  "staleRuns db = filter (\<lambda>r. list_ex (\<lambda>s. sr_status s = StepRunning) (listSteps db (rr_id r)))
     (WorkflowStore.listRuns db (Some RunRunning) (Some (Fin 1000)))"

text \<open>The runs of one page, one after the other; each is a transaction of its own.\<close>

primrec recoverPage :: "time \<Rightarrow> run_record list \<Rightarrow> (dag_db, unit) act" where
  "recoverPage now [] = okA ()"
| "recoverPage now (r # rs) = seqA (\<lambda>db. case recoverStaleRunningSteps db (rr_id r) now of
     Inl e \<Rightarrow> (db, Inl e) | Inr (db', _) \<Rightarrow> (db', Inr ())) (recoverPage now rs)"

partial_function (option) recoverPages :: "time \<Rightarrow> string list \<Rightarrow> dag_db \<Rightarrow> (dag_db \<times> string list result) option" where
  "recoverPages now ids db = (if staleRuns db = [] then Some (db, Inr ids)
     else (case recoverPage now (staleRuns db) db of
        (db', Inl e) \<Rightarrow> Some (db', Inl e)
      | (db', Inr _) \<Rightarrow> recoverPages now (ids @ map rr_id (staleRuns db)) db'))"

record stale_dag_result =
  sd_workflowDagRunsRecovered :: nat
  sd_recoveredWorkflowDagRunIds :: "string list"

definition recoverStaleWorkflowDagRuns :: "dag_db \<Rightarrow> time \<Rightarrow> (dag_db \<times> stale_dag_result result) option" where
  "recoverStaleWorkflowDagRuns db now = map_option (\<lambda>(db', r). (db', bindR r (\<lambda>ids.
     Inr \<lparr>sd_workflowDagRunsRecovered = length ids, sd_recoveredWorkflowDagRunIds = ids\<rparr>))) (recoverPages now [] db)"

subsection \<open>One page\<close>

definition running_run :: "dag_db \<Rightarrow> string \<Rightarrow> bool" where
  "running_run db i \<longleftrightarrow> run_of db i \<noteq> None \<and> ds_status (abs_dag db i) = RunRunning"

definition stale_run :: "dag_db \<Rightarrow> string \<Rightarrow> bool" where
  "stale_run db i \<longleftrightarrow> running_run db i \<and> list_ex (step_is (abs_dag db i) StepRunning) (ds_order (abs_dag db i))"

definition running_rows :: "dag_db \<Rightarrow> run_row list" where
  "running_rows db = filter (\<lambda>r. run_status_col r = RunRunning) (db_runs db)"

lemma running_row: "wf_db db \<Longrightarrow> r \<in> set (running_rows db) \<Longrightarrow> running_run db (run_id r)"
  using find_key_distinct [of run_id "db_runs db" r]
  by (auto simp: running_rows_def running_run_def wf_db_def run_of_def abs_dag_status)

lemma running_run_row: "running_run db i \<Longrightarrow> \<exists>r \<in> set (running_rows db). run_id r = i"
proof -
  assume i: "running_run db i"
  then obtain r where r: "run_of db i = Some r" by (auto simp: running_run_def)
  then have "run_status_col r = RunRunning" using i by (simp add: running_run_def abs_dag_status)
  then show ?thesis using run_of_SomeD [OF r] by (auto simp: running_rows_def)
qed

lemma staleRuns_eq:
  "staleRuns db = filter (\<lambda>r. list_ex (\<lambda>s. sr_status s = StepRunning) (listSteps db (rr_id r)))
     (map mapWorkflowDagRunRow (take 1000 (newest_first (running_rows db))))"
proof -
  have page: "nat (clampWorkflowDagRunListLimit (Some (Fin 1000))) = 1000"
    by (simp add: clampWorkflowDagRunListLimit_def trunc_rat_def)
  have rows: "filter (\<lambda>r. Some RunRunning = None \<or> Some RunRunning = Some (run_status_col r)) (db_runs db) = running_rows db"
    unfolding running_rows_def by (rule filter_cong) auto
  show ?thesis unfolding staleRuns_def WorkflowStore.listRuns_def page rows ..
qed

lemma running_steps:
  assumes "wf_db db"
  shows "list_ex (\<lambda>s. sr_status s = StepRunning) (listSteps db i) \<longleftrightarrow>
    list_ex (step_is (abs_dag db i) StepRunning) (ds_order (abs_dag db i))"
  using step_is_row [OF assms, of _ i] by (auto simp: list_ex_iff listSteps_def abs_dag_def)

lemma staleRuns_stale: "wf_db db \<Longrightarrow> i \<in> rr_id ` set (staleRuns db) \<Longrightarrow> stale_run db i"
  by (auto simp: staleRuns_eq stale_run_def running_steps newest_first_def dest!: in_set_takeD running_row)

lemma staleRuns_distinct: "wf_db db \<Longrightarrow> distinct (map rr_id (staleRuns db))"
proof -
  assume "wf_db db"
  then have "distinct (map run_id (running_rows db))" by (simp add: wf_db_def running_rows_def distinct_map_filter)
  then have "distinct (map run_id (newest_first (running_rows db)))" by (simp add: newest_first_def distinct_map)
  then have "distinct (map run_id (take 1000 (newest_first (running_rows db))))" by (simp add: take_map [symmetric] distinct_take)
  then show ?thesis by (simp add: staleRuns_eq filter_map o_def distinct_map_filter)
qed

lemma staleRuns_complete:
  assumes "wf_db db" "length (running_rows db) \<le> 1000" "stale_run db i"
  shows "i \<in> rr_id ` set (staleRuns db)"
proof -
  obtain r where r: "r \<in> set (running_rows db)" "run_id r = i"
    using assms(3) running_run_row by (auto simp: stale_run_def)
  have "take 1000 (newest_first (running_rows db)) = newest_first (running_rows db)"
    using assms(2) by (simp add: newest_first_def)
  then show ?thesis
    using r assms(3) running_steps [OF assms(1), of i]
    by (auto simp: staleRuns_eq newest_first_def stale_run_def image_iff intro!: bexI [of _ "mapWorkflowDagRunRow r"])
qed

lemma recover_one:
  assumes wf: "wf_db db" and i: "run_of db i \<noteq> None"
  shows "\<exists>db' snap. recoverStaleRunningSteps db i now = Inr (db', snap) \<and> wf_db db' \<and>
    map run_id (db_runs db') = map run_id (db_runs db) \<and>
    (\<forall>j. abs_dag db' j = (if j = i then recover_spec (abs_dag db i) else abs_dag db j)) \<and> (reachable db \<longrightarrow> reachable db')"
proof -
  obtain r where r: "run_of db i = Some r" using i by auto
  obtain db' where db': "recoverStaleRunningSteps db i now = Inr (db', the (getSnapshot db' i))"
    "served db i (recover_spec (abs_dag db i)) db'"
    using recover_serves [OF wf r, of now] by (auto simp: serves_def)
  have "reachable db'" if "reachable db"
    using reachable.op [OF that, of i OpRecover now db' "the (getSnapshot db' i)"] db'(1) by simp
  then show ?thesis using db' only_run_other [of db i db'] by (auto simp: served_def only_run_def)
qed

lemma run_of_ids: "map run_id (db_runs db') = map run_id (db_runs db) \<Longrightarrow> run_of db' i = None \<longleftrightarrow> run_of db i = None"
  by (metis run_of_None list.set_map)

text \<open>How a database looks after the runs \<open>ids\<close> were recovered.\<close>

definition recovered :: "dag_db \<Rightarrow> string set \<Rightarrow> dag_db \<Rightarrow> bool" where
  "recovered db ids db' \<longleftrightarrow> wf_db db' \<and> map run_id (db_runs db') = map run_id (db_runs db) \<and>
     (\<forall>i. abs_dag db' i = (if i \<in> ids then recover_spec (abs_dag db i) else abs_dag db i)) \<and> (reachable db \<longrightarrow> reachable db')"

lemma recovered_refl: "wf_db db \<Longrightarrow> recovered db {} db"
  by (simp add: recovered_def)

lemma recovered_trans:
  "recovered db ids db' \<Longrightarrow> recovered db' ids' db'' \<Longrightarrow> ids \<inter> ids' = {} \<Longrightarrow> recovered db (ids \<union> ids') db''"
  by (auto simp: recovered_def)

lemma recoverPage_recovered:
  "wf_db db \<Longrightarrow> distinct (map rr_id rs) \<Longrightarrow> \<forall>r \<in> set rs. run_of db (rr_id r) \<noteq> None \<Longrightarrow>
    \<exists>db'. recoverPage now rs db = (db', Inr ()) \<and> recovered db (rr_id ` set rs) db'"
proof (induction rs arbitrary: db)
  case Nil
  then show ?case by (simp add: okA_def recovered_refl)
next
  case (Cons r rs)
  have "run_of db (rr_id r) \<noteq> None" using Cons.prems(3) by simp
  then obtain d snap where d1: "recoverStaleRunningSteps db (rr_id r) now = Inr (d, snap)" "wf_db d"
      "map run_id (db_runs d) = map run_id (db_runs db)"
      "\<forall>j. abs_dag d j = (if j = rr_id r then recover_spec (abs_dag db (rr_id r)) else abs_dag db j)"
      "reachable db \<longrightarrow> reachable d"
    using recover_one [OF Cons.prems(1), of "rr_id r" now] by blast
  then have d: "recoverStaleRunningSteps db (rr_id r) now = Inr (d, snap)" "recovered db {rr_id r} d"
    by (simp_all add: recovered_def)
  have "\<forall>r \<in> set rs. run_of d (rr_id r) \<noteq> None"
    using Cons.prems(3) run_of_ids [OF d1(3)] by simp
  moreover have "wf_db d" "distinct (map rr_id rs)" using d(2) Cons.prems(2) by (simp_all add: recovered_def)
  ultimately obtain db' where db': "recoverPage now rs d = (db', Inr ())" "recovered d (rr_id ` set rs) db'"
    using Cons.IH [of d] by blast
  have "recovered db ({rr_id r} \<union> rr_id ` set rs) db'"
    using recovered_trans [OF d(2) db'(2)] Cons.prems(2) by simp
  then show ?case using d(1) db'(1) by (simp add: thenA_def)
qed

subsection \<open>All pages\<close>

lemma running_set: "wf_db db \<Longrightarrow> {i. running_run db i} = run_id ` set (running_rows db)"
  using running_row running_run_row by blast

lemma running_count: "wf_db db \<Longrightarrow> card {i. running_run db i} = length (running_rows db)"
proof -
  assume wf: "wf_db db"
  then have "distinct (map run_id (running_rows db))" by (simp add: wf_db_def running_rows_def distinct_map_filter)
  then show ?thesis using distinct_card [of "map run_id (running_rows db)"] by (simp add: running_set [OF wf])
qed

lemma recover_spec_status: "stale_run db i \<Longrightarrow> ds_status (recover_spec (abs_dag db i)) = RunResumable"
  by (simp add: stale_run_def recover_spec_def)

lemma recovered_running:
  assumes "recovered db ids db'" "\<forall>i \<in> ids. stale_run db i"
  shows "{i. running_run db' i} = {i. running_run db i} - ids"
proof -
  have "running_run db' i \<longleftrightarrow> running_run db i \<and> i \<notin> ids" for i
    using assms recover_spec_status [of db i] run_of_ids [of db' db i] by (auto simp: recovered_def running_run_def)
  then show ?thesis by auto
qed

lemma recovered_stale:
  assumes "recovered db ids db'" "\<forall>i \<in> ids. stale_run db i"
  shows "stale_run db' i \<longleftrightarrow> stale_run db i \<and> i \<notin> ids"
  using assms recovered_running [OF assms] by (auto simp: stale_run_def recovered_def)

lemma diff_psubset: "P \<noteq> {} \<Longrightarrow> P \<subseteq> A \<Longrightarrow> A - P \<subset> A"
  by blast

lemma recoverPages_returns:
  assumes "wf_db db"
  shows "\<exists>db' new. recoverPages now ids db = Some (db', Inr (ids @ new)) \<and> distinct new \<and> (\<forall>i \<in> set new. stale_run db i) \<and>
    recovered db (set new) db' \<and> staleRuns db' = []"
  using assms
proof (induction "card {i. running_run db i}" arbitrary: db ids rule: less_induct)
  case less
  show ?case
  proof (cases "staleRuns db = []")
    case True
    then show ?thesis using recovered_refl [OF less.prems] by (simp add: recoverPages.simps [of now ids db])
  next
    case False
    let ?page = "rr_id ` set (staleRuns db)"
    have stale: "\<forall>i \<in> ?page. stale_run db i" using staleRuns_stale [OF less.prems] by blast
    then obtain d where d: "recoverPage now (staleRuns db) db = (d, Inr ())" "recovered db ?page d"
      using recoverPage_recovered [OF less.prems staleRuns_distinct [OF less.prems], of now]
      by (auto simp: stale_run_def running_run_def)
    have "?page \<noteq> {}" "?page \<subseteq> {i. running_run db i}" using False stale by (auto simp: stale_run_def)
    moreover have "finite {i. running_run db i}" by (simp add: running_set [OF less.prems])
    moreover have "{i. running_run db i} - ?page \<subset> {i. running_run db i}"
      using \<open>?page \<noteq> {}\<close> \<open>?page \<subseteq> {i. running_run db i}\<close> by (rule diff_psubset)
    ultimately have "card {i. running_run d i} < card {i. running_run db i}"
      unfolding recovered_running [OF d(2) stale] by (intro psubset_card_mono)
    moreover have "wf_db d" using d(2) by (simp add: recovered_def)
    ultimately obtain db' new where n: "recoverPages now (ids @ map rr_id (staleRuns db)) d = Some (db', Inr ((ids @ map rr_id (staleRuns db)) @ new))"
      "distinct new" "\<forall>i \<in> set new. stale_run d i" "recovered d (set new) db'" "staleRuns db' = []"
      using less.hyps [of d "ids @ map rr_id (staleRuns db)"] by blast
    have new: "\<forall>i \<in> set new. stale_run db i \<and> i \<notin> ?page" using n(3) recovered_stale [OF d(2) stale] by blast
    have "recoverPages now ids db = Some (db', Inr (ids @ (map rr_id (staleRuns db) @ new)))"
      using False d(1) n(1) by (simp add: recoverPages.simps [of now ids db])
    moreover have "distinct (map rr_id (staleRuns db) @ new)"
      using staleRuns_distinct [OF less.prems] n(2) new by auto
    moreover have "recovered db (set (map rr_id (staleRuns db) @ new)) db'"
      using recovered_trans [OF d(2) n(4)] new by auto
    ultimately show ?thesis using stale new n(5) by (intro exI [of _ db'] exI [of _ "map rr_id (staleRuns db) @ new"]) auto
  qed
qed

text \<open> C17 Recovery of workflow runs at start returns on every reachable database. The runs it reports are different running
  runs that had a running step; each of them has become resumable with its running steps failed, no other run has
  changed, and the database is one that requests could have produced. If at most 1000 runs were running, every such
  run is recovered.
\<close>

theorem stale_workflow_runs_recovered:
  assumes "reachable db"
  shows "\<exists>db' ids. recoverStaleWorkflowDagRuns db now =
      Some (db', Inr \<lparr>sd_workflowDagRunsRecovered = length ids, sd_recoveredWorkflowDagRunIds = ids\<rparr>) \<and>
    reachable db' \<and> distinct ids \<and> (\<forall>i \<in> set ids. stale_run db i) \<and>
    (\<forall>i. abs_dag db' i = (if i \<in> set ids then recover_spec (abs_dag db i) else abs_dag db i)) \<and>
    (length (running_rows db) \<le> 1000 \<longrightarrow> (\<forall>i. stale_run db i \<longrightarrow> i \<in> set ids))"
proof -
  have wf: "wf_db db" using reachable_inv [OF assms] by simp
  obtain db' ids where r: "recoverPages now [] db = Some (db', Inr ids)" "distinct ids" "\<forall>i \<in> set ids. stale_run db i"
    "recovered db (set ids) db'" "staleRuns db' = []"
    using recoverPages_returns [OF wf, of now "[]"] by auto
  have "i \<in> set ids" if "length (running_rows db) \<le> 1000" "stale_run db i" for i
  proof (rule ccontr)
    assume "i \<notin> set ids"
    then have s: "stale_run db' i" using that(2) recovered_stale [OF r(4,3)] by simp
    have wf': "wf_db db'" using r(4) by (simp add: recovered_def)
    have "{i. running_run db' i} \<subseteq> {i. running_run db i}" using recovered_running [OF r(4,3)] by blast
    then have "card {i. running_run db' i} \<le> card {i. running_run db i}"
      by (intro card_mono) (simp_all add: running_set [OF wf])
    then have "length (running_rows db') \<le> 1000" using that(1) running_count wf wf' by simp
    then show False using staleRuns_complete [OF wf' _ s] r(5) by simp
  qed
  then show ?thesis using r assms
    by (intro exI [of _ db'] exI [of _ ids]) (simp add: recoverStaleWorkflowDagRuns_def recovered_def)
qed

theorem stale_workflow_runs_recovered_witness:
  "\<exists>db' ids. recoverStaleWorkflowDagRuns demo_started 40 =
      Some (db', Inr \<lparr>sd_workflowDagRunsRecovered = length ids, sd_recoveredWorkflowDagRunIds = ids\<rparr>) \<and>
    ds_status (abs_dag db' ''r1'') = RunResumable"
proof -
  obtain db' ids where r: "recoverStaleWorkflowDagRuns demo_started 40 =
      Some (db', Inr \<lparr>sd_workflowDagRunsRecovered = length ids, sd_recoveredWorkflowDagRunIds = ids\<rparr>)"
    "\<forall>i. abs_dag db' i = (if i \<in> set ids then recover_spec (abs_dag demo_started i) else abs_dag demo_started i)"
    "length (running_rows demo_started) \<le> 1000 \<longrightarrow> (\<forall>i. stale_run demo_started i \<longrightarrow> i \<in> set ids)"
    using stale_workflow_runs_recovered [OF demo_reachable(2), of 40] by blast
  have "length (running_rows demo_started) = 1" by code_simp
  moreover have "list_ex (step_is (abs_dag demo_started ''r1'') StepRunning) (ds_order (abs_dag demo_started ''r1''))"
    "run_of demo_started ''r1'' \<noteq> None" "ds_status (abs_dag demo_started ''r1'') = RunRunning"
    "ds_status (recover_spec (abs_dag demo_started ''r1'')) = RunResumable" by code_simp+
  ultimately have "''r1'' \<in> set ids" using r(3) by (simp add: stale_run_def running_run_def)
  then show ?thesis using r(1,2) \<open>ds_status (recover_spec (abs_dag demo_started ''r1'')) = RunResumable\<close> by auto
qed

section \<open>Runs of tasks and missions\<close>

record run_event_input =
  rv_runId :: string
  rv_taskId :: "string option"
  rv_missionId :: "string option"
  rv_agentId :: "string option"
  rv_type :: string
  rv_level :: string
  rv_timestamp :: time
  rv_message :: string
  rv_payload :: js

record run_tables =
  rt_runs :: "task_run_record list"
  rt_tasks :: "task_record list"
  rt_missions :: "mission_record list"
  rt_events :: "run_event_input list"

record stale_run_result =
  sv_taskRunsRecovered :: nat
  sv_missionRunsRecovered :: nat
  sv_recoveredRunIds :: "string list"

definition STALE_RUNNING_RUN_CODE :: string where
  "STALE_RUNNING_RUN_CODE = ''STALE_RUNNING_RUN''"

definition STALE_RUNNING_RUN_EVENT_TYPE :: string where
  "STALE_RUNNING_RUN_EVENT_TYPE = ''run.recovered_stale''"

fun run_target_text :: "run_target \<Rightarrow> string" where
  "run_target_text TargetTask = ''task''"
| "run_target_text TargetMission = ''mission''"

definition stale_message :: "run_target \<Rightarrow> string" where
  "stale_message target = (if target = TargetTask then ''Recovered stale running task run after process startup.''
     else ''Recovered stale running mission run after process startup.'')"

definition stale_failure :: "(time \<Rightarrow> string) \<Rightarrow> time \<Rightarrow> task_run_record \<Rightarrow> js" where
  "stale_failure isoStr now current = JObj [(''code'', JStr STALE_RUNNING_RUN_CODE),
     (''message'', JStr (stale_message (rn_targetType current))), (''recoveredAt'', JStr (isoStr now)),
     (''previousStatus'', JStr (run_state_text (rn_status current))),
     (''targetType'', JStr (run_target_text (rn_targetType current))), (''targetId'', JStr (rn_targetId current))]"

definition stale_run_input :: "(time \<Rightarrow> string) \<Rightarrow> time \<Rightarrow> task_run_record \<Rightarrow> task_run_input" where
  "stale_run_input isoStr now current = no_run_input\<lparr>ri_status := Some RunBroken, ri_endedAt := Some now,
     ri_failure := stale_failure isoStr now current\<rparr>"

definition stale_event :: "(time \<Rightarrow> string) \<Rightarrow> time \<Rightarrow> task_run_record \<Rightarrow> task_run_record \<Rightarrow> string option \<Rightarrow> run_event_input" where
  "stale_event isoStr now current updated target = \<lparr>rv_runId = rn_id updated,
     rv_taskId = (if rn_targetType updated = TargetTask then target else None),
     rv_missionId = (if rn_targetType updated = TargetTask then None else target),
     rv_agentId = (if rn_targetType updated = TargetTask then given (rn_agentId updated) else None),
     rv_type = STALE_RUNNING_RUN_EVENT_TYPE, rv_level = ''warning'', rv_timestamp = now,
     rv_message = stale_message (rn_targetType current), rv_payload = stale_failure isoStr now current\<rparr>"

text \<open>A task or mission that is still running fails with its run.\<close>

definition failRunningTask :: "task_record list \<Rightarrow> string \<Rightarrow> time \<Rightarrow> task_record list result" where
  "failRunningTask tasks i now = (case getTask tasks i of
     None \<Rightarrow> Inr tasks
   | Some t \<Rightarrow> if tk_status t = TaskRunning
       then bindR (updateTask tasks (tk_id t) (no_task_input\<lparr>ti_status := Some TaskFailed\<rparr>) now) (\<lambda>(tasks', _). Inr tasks')
       else Inr tasks)"

definition failRunningMission :: "mission_record list \<Rightarrow> string \<Rightarrow> time \<Rightarrow> mission_record list result" where
  "failRunningMission missions i now = (case getMission missions i of
     None \<Rightarrow> Inr missions
   | Some m \<Rightarrow> if ms_status m = MissionRunning
       then bindR (updateMission missions (ms_id m) (no_mission_input\<lparr>mi_status := Some MissionFailed\<rparr>) now) (\<lambda>(missions', _). Inr missions')
       else Inr missions)"

text \<open>One run of a page: \<open>recover\<close> reads it again and skips it if it is gone or no longer running.\<close>

definition recoverRun :: "(time \<Rightarrow> string) \<Rightarrow> time \<Rightarrow> run_tables \<times> stale_run_result \<Rightarrow> task_run_record \<Rightarrow>
    (run_tables \<times> stale_run_result) result" where
  "recoverRun isoStr now = (\<lambda>(st, acc) run. (case getTaskRun (rt_runs st) (rn_id run) of
     None \<Rightarrow> Inr (st, acc)
   | Some current \<Rightarrow> if rn_status current \<noteq> RunActive then Inr (st, acc) else
       bindR (updateTaskRun (rt_runs st) (rn_id current) (stale_run_input isoStr now current) now) (\<lambda>(runs, updated).
       if rn_targetType updated = TargetTask then
         bindR (failRunningTask (rt_tasks st) (rn_targetId updated) now) (\<lambda>tasks.
         Inr (st\<lparr>rt_runs := runs, rt_tasks := tasks, rt_events := rt_events st @
             [stale_event isoStr now current updated (map_option tk_id (getTask (rt_tasks st) (rn_targetId updated)))]\<rparr>,
           acc\<lparr>sv_taskRunsRecovered := sv_taskRunsRecovered acc + 1,
             sv_recoveredRunIds := sv_recoveredRunIds acc @ [rn_id updated]\<rparr>))
       else
         bindR (failRunningMission (rt_missions st) (rn_targetId updated) now) (\<lambda>missions.
         Inr (st\<lparr>rt_runs := runs, rt_missions := missions, rt_events := rt_events st @
             [stale_event isoStr now current updated (map_option ms_id (getMission (rt_missions st) (rn_targetId updated)))]\<rparr>,
           acc\<lparr>sv_missionRunsRecovered := sv_missionRunsRecovered acc + 1,
             sv_recoveredRunIds := sv_recoveredRunIds acc @ [rn_id updated]\<rparr>)))))"

definition recoverableRuns :: "run_tables \<Rightarrow> task_run_record list" where
  "recoverableRuns st = filter (\<lambda>r. rn_targetType r = TargetTask \<or> rn_targetType r = TargetMission)
     (listTaskRuns (rt_runs st) \<lparr>lr_targetType = None, lr_targetId = None, lr_status = Some RunActive, lr_workspaceId = None,
       lr_limit = Some (Fin 1000)\<rparr>)"

text \<open>A page is one transaction: if it throws, the tables are as they were before it.\<close>

partial_function (option) recoverRuns :: "(time \<Rightarrow> string) \<Rightarrow> time \<Rightarrow> run_tables \<Rightarrow> stale_run_result \<Rightarrow>
    (run_tables \<times> stale_run_result result) option" where
  "recoverRuns isoStr now st acc = (if recoverableRuns st = [] then Some (st, Inr acc)
     else (case foldR (recoverRun isoStr now) (st, acc) (recoverableRuns st) of
        Inl e \<Rightarrow> Some (st, Inl e)
      | Inr (st', acc') \<Rightarrow> recoverRuns isoStr now st' acc'))"

definition recoverStaleTaskAndMissionRuns ::
    "(time \<Rightarrow> string) \<Rightarrow> run_tables \<Rightarrow> time \<Rightarrow> (run_tables \<times> stale_run_result result) option" where
  "recoverStaleTaskAndMissionRuns isoStr st now = recoverRuns isoStr now st
     \<lparr>sv_taskRunsRecovered = 0, sv_missionRunsRecovered = 0, sv_recoveredRunIds = []\<rparr>"

subsection \<open>The reference\<close>

definition failed_run :: "(time \<Rightarrow> string) \<Rightarrow> time \<Rightarrow> task_run_record \<Rightarrow> task_run_record" where
  "failed_run isoStr now r = updated_run (mapRunRow r) (stale_run_input isoStr now (mapRunRow r)) now"

definition failed_task :: "time \<Rightarrow> task_record \<Rightarrow> task_record" where
  "failed_task now t = updated_task (mapTaskRow t) (no_task_input\<lparr>ti_status := Some TaskFailed\<rparr>) now"

definition failed_mission :: "time \<Rightarrow> mission_record \<Rightarrow> mission_record" where
  "failed_mission now m = updated_mission m (no_mission_input\<lparr>mi_status := Some MissionFailed\<rparr>) now"

text \<open>The ids of the tasks, or missions, that the runs \<open>ids\<close> belong to; the tables after these runs were recovered.\<close>

definition targets :: "run_tables \<Rightarrow> run_target \<Rightarrow> string set \<Rightarrow> string set" where
  "targets st target ids = rn_targetId ` {r \<in> set (rt_runs st). rn_targetType r = target \<and> rn_id r \<in> ids}"

definition closed_runs :: "(time \<Rightarrow> string) \<Rightarrow> time \<Rightarrow> run_tables \<Rightarrow> string set \<Rightarrow> task_run_record list" where
  "closed_runs isoStr now st ids = map (\<lambda>r. if rn_id r \<in> ids then failed_run isoStr now r else r) (rt_runs st)"

definition closed_tasks :: "time \<Rightarrow> run_tables \<Rightarrow> string set \<Rightarrow> task_record list" where
  "closed_tasks now st ids = map (\<lambda>t. if tk_status t = TaskRunning \<and> tk_id t \<in> targets st TargetTask ids
     then failed_task now t else t) (rt_tasks st)"

definition closed_missions :: "time \<Rightarrow> run_tables \<Rightarrow> string set \<Rightarrow> mission_record list" where
  "closed_missions now st ids = map (\<lambda>m. if ms_status m = MissionRunning \<and> ms_id m \<in> targets st TargetMission ids
     then failed_mission now m else m) (rt_missions st)"

definition active_ids :: "run_tables \<Rightarrow> string set" where
  "active_ids st = rn_id ` {r \<in> set (rt_runs st). rn_status r = RunActive}"

definition keyed :: "run_tables \<Rightarrow> bool" where
  "keyed st \<longleftrightarrow> distinct (map rn_id (rt_runs st)) \<and> distinct (map tk_id (rt_tasks st)) \<and> distinct (map ms_id (rt_missions st))"

lemma failed_run_simps [simp]:
  "rn_id (failed_run isoStr now r) = rn_id r" "rn_status (failed_run isoStr now r) = RunBroken"
  "rn_targetType (failed_run isoStr now r) = rn_targetType r" "rn_targetId (failed_run isoStr now r) = rn_targetId r"
  by (simp_all add: failed_run_def updated_run_def stale_run_input_def mapRunRow_def)

lemma failed_task_simps [simp]: "tk_id (failed_task now t) = tk_id t" "tk_status (failed_task now t) = TaskFailed"
  by (simp_all add: failed_task_def updated_task_def mapTaskRow_def Let_def)

lemma failed_mission_simps [simp]: "ms_id (failed_mission now m) = ms_id m" "ms_status (failed_mission now m) = MissionFailed"
  by (simp_all add: failed_mission_def)

lemma mapRunRow_keeps [simp]:
  "rn_id (mapRunRow r) = rn_id r" "rn_status (mapRunRow r) = rn_status r"
  "rn_targetType (mapRunRow r) = rn_targetType r" "rn_targetId (mapRunRow r) = rn_targetId r"
  by (simp_all add: mapRunRow_def)

lemma mapTaskRow_keeps [simp]: "tk_id (mapTaskRow t) = tk_id t" "tk_status (mapTaskRow t) = tk_status t"
  by (simp_all add: mapTaskRow_def)

lemma find_distinct: "distinct (map k rows) \<Longrightarrow> x \<in> set rows \<Longrightarrow> find (\<lambda>y. k y = k x) rows = Some x"
  by (induction rows) auto

subsection \<open>One run\<close>

lemma updateTaskRun_failed:
  assumes "distinct (map rn_id rows)" "find (\<lambda>r. rn_id r = i) rows = Some r"
  shows "\<exists>u. updateTaskRun rows i (stale_run_input isoStr now (mapRunRow r)) now =
      Inr (map (\<lambda>x. if rn_id x = i then failed_run isoStr now x else x) rows, u) \<and>
    rn_id u = i \<and> rn_targetType u = rn_targetType r \<and> rn_targetId u = rn_targetId r"
proof -
  have id: "rn_id r = i" using find_SomeD [OF assms(2)] by simp
  let ?rows = "map (\<lambda>x. if rn_id x = i then failed_run isoStr now x else x) rows"
  let ?f = "updated_run (mapRunRow r) (stale_run_input isoStr now (mapRunRow r)) now"
  have f: "failed_run isoStr now r = ?f" by (simp add: failed_run_def)
  have m: "map (\<lambda>x. if rn_id x = i then ?f else x) rows = ?rows"
    using map_key_distinct [OF assms, of "failed_run isoStr now"] unfolding f .
  have u: "find (\<lambda>x. rn_id x = i) ?rows = Some (failed_run isoStr now r)"
    using find_map_update [of rn_id i "failed_run isoStr now" rows] assms(2) by simp
  have "updateTaskRun rows i (stale_run_input isoStr now (mapRunRow r)) now = Inr (?rows, mapRunRow (failed_run isoStr now r))"
    by (simp only: updateTaskRun_def requireTaskRun_def Let_def assms(2) m u option.case bindR_Inr)
  then show ?thesis using id by simp
qed

lemma failRunningTask_eq:
  assumes d: "distinct (map tk_id rows)"
  shows "failRunningTask rows i now =
    Inr (map (\<lambda>t. if tk_status t = TaskRunning \<and> tk_id t = i then failed_task now t else t) rows)"
proof (cases "find (\<lambda>t. tk_id t = i) rows")
  case None
  then have "map (\<lambda>t. if tk_status t = TaskRunning \<and> tk_id t = i then failed_task now t else t) rows = rows"
    by (intro map_idI) (auto simp: find_eq_None)
  then show ?thesis using None by (simp add: failRunningTask_def getTask_def)
next
  case (Some t)
  have t: "t \<in> set rows" "tk_id t = i" using find_SomeD [OF Some] by auto
  have only: "x \<in> set rows \<Longrightarrow> tk_id x = i \<Longrightarrow> x = t" for x using d t by (auto simp: distinct_map inj_on_def)
  show ?thesis
  proof (cases "tk_status t = TaskRunning")
    case False
    then have "map (\<lambda>t. if tk_status t = TaskRunning \<and> tk_id t = i then failed_task now t else t) rows = rows"
      using only by (intro map_idI) auto
    then show ?thesis using Some False by (simp add: failRunningTask_def getTask_def)
  next
    case True
    let ?rows = "map (\<lambda>t. if tk_status t = TaskRunning \<and> tk_id t = i then failed_task now t else t) rows"
    let ?f = "updated_task (mapTaskRow t) (no_task_input\<lparr>ti_status := Some TaskFailed\<rparr>) now"
    have f: "failed_task now t = ?f" by (simp add: failed_task_def)
    have m: "map (\<lambda>x. if tk_id x = i then ?f else x) rows = ?rows"
      unfolding f [symmetric] using only True by (intro map_cong) auto
    have u: "getTask ?rows i = Some (mapTaskRow (failed_task now t))"
      unfolding m [symmetric] getTask_def
      using find_map_update [of tk_id i "\<lambda>_. ?f" rows] Some t f by (simp add: updated_task_id)
    have g: "getTask rows i = Some (mapTaskRow t)" using Some by (simp add: getTask_def)
    have c: "assertTaskReadyAssignment (or_else (ti_status (no_task_input\<lparr>ti_status := Some TaskFailed\<rparr>)) x) y = Inr ()" for x y
      by (simp add: assertTaskReadyAssignment_def)
    have "updateTask rows i (no_task_input\<lparr>ti_status := Some TaskFailed\<rparr>) now = Inr (?rows, mapTaskRow (failed_task now t))"
      by (simp only: updateTask_def requireTaskRow_def Let_def g c m u option.case bindR_Inr)
    then show ?thesis using g True t by (simp add: failRunningTask_def)
  qed
qed

lemma failRunningMission_eq:
  assumes d: "distinct (map ms_id rows)"
  shows "failRunningMission rows i now =
    Inr (map (\<lambda>m. if ms_status m = MissionRunning \<and> ms_id m = i then failed_mission now m else m) rows)"
proof (cases "getMission rows i")
  case None
  then have "map (\<lambda>m. if ms_status m = MissionRunning \<and> ms_id m = i then failed_mission now m else m) rows = rows"
    by (intro map_idI) (auto simp: find_eq_None getMission_def)
  then show ?thesis using None by (simp add: failRunningMission_def)
next
  case (Some m)
  have m: "m \<in> set rows" "ms_id m = i" using find_SomeD [OF Some [unfolded getMission_def]] by auto
  have only: "x \<in> set rows \<Longrightarrow> ms_id x = i \<Longrightarrow> x = m" for x using d m by (auto simp: distinct_map inj_on_def)
  let ?rows = "map (\<lambda>m. if ms_status m = MissionRunning \<and> ms_id m = i then failed_mission now m else m) rows"
  show ?thesis
  proof (cases "ms_status m = MissionRunning")
    case True
    have f: "failed_mission now m = updated_mission m (no_mission_input\<lparr>mi_status := Some MissionFailed\<rparr>) now"
      by (simp add: failed_mission_def)
    have r: "map (\<lambda>x. if ms_id x = i then updated_mission m (no_mission_input\<lparr>mi_status := Some MissionFailed\<rparr>) now else x) rows = ?rows"
      unfolding f [symmetric] using only True by (intro map_cong) auto
    obtain m' where "updateMission rows i (no_mission_input\<lparr>mi_status := Some MissionFailed\<rparr>) now = Inr (?rows, m')"
      using updateMission_eq [OF Some, of "no_mission_input\<lparr>mi_status := Some MissionFailed\<rparr>" now] unfolding r by blast
    then show ?thesis using Some m True by (simp add: failRunningMission_def)
  next
    case False
    then have "?rows = rows" using only by (intro map_idI) auto
    then show ?thesis using Some False by (simp add: failRunningMission_def)
  qed
qed

subsection \<open>All runs\<close>

text \<open>The tables once the runs \<open>ids\<close> of \<open>st\<close> were recovered.\<close>

definition after :: "(time \<Rightarrow> string) \<Rightarrow> time \<Rightarrow> run_tables \<Rightarrow> string set \<Rightarrow> run_tables \<Rightarrow> bool" where
  "after isoStr now st ids st' \<longleftrightarrow> rt_runs st' = closed_runs isoStr now st ids \<and> rt_tasks st' = closed_tasks now st ids \<and>
     rt_missions st' = closed_missions now st ids"

lemma after_none: "after isoStr now st {} st"
  by (simp add: after_def closed_runs_def closed_tasks_def closed_missions_def targets_def)

lemma after_keyed: "keyed st \<Longrightarrow> after isoStr now st ids st' \<Longrightarrow> keyed st'"
  by (simp add: keyed_def after_def closed_runs_def closed_tasks_def closed_missions_def o_def if_distrib cong: if_cong)

lemma closed_runs_insert:
  "map (\<lambda>x. if rn_id x = i then failed_run isoStr now x else x) (closed_runs isoStr now st ids) = closed_runs isoStr now st (insert i ids)"
  if "i \<notin> ids"
  using that by (auto simp: closed_runs_def)

lemma targets_insert:
  assumes "distinct (map rn_id (rt_runs st))" "r \<in> set (rt_runs st)"
  shows "targets st target (insert (rn_id r) ids) =
    (if rn_targetType r = target then insert (rn_targetId r) (targets st target ids) else targets st target ids)"
proof -
  have "x = r" if "x \<in> set (rt_runs st)" "rn_id x = rn_id r" for x
    using that assms by (auto simp: distinct_map inj_on_def)
  then show ?thesis using assms(2) by (auto simp: targets_def)
qed

lemma closed_tasks_insert:
  "map (\<lambda>t. if tk_status t = TaskRunning \<and> tk_id t = i then failed_task now t else t)
     (map (\<lambda>t. if tk_status t = TaskRunning \<and> tk_id t \<in> T then failed_task now t else t) rows) =
   map (\<lambda>t. if tk_status t = TaskRunning \<and> tk_id t \<in> insert i T then failed_task now t else t) rows"
  by auto

lemma closed_missions_insert:
  "map (\<lambda>m. if ms_status m = MissionRunning \<and> ms_id m = i then failed_mission now m else m)
     (map (\<lambda>m. if ms_status m = MissionRunning \<and> ms_id m \<in> T then failed_mission now m else m) rows) =
   map (\<lambda>m. if ms_status m = MissionRunning \<and> ms_id m \<in> insert i T then failed_mission now m else m) rows"
  by auto

definition counted :: "stale_run_result \<Rightarrow> bool" where
  "counted acc \<longleftrightarrow> sv_taskRunsRecovered acc + sv_missionRunsRecovered acc = length (sv_recoveredRunIds acc)"

lemma recoverRun_after:
  assumes k: "keyed st" and a: "after isoStr now st ids st'" and r: "r \<in> set (rt_runs st)" "rn_status r = RunActive"
    and i: "rn_id r \<notin> ids" "rn_id run = rn_id r" and c: "counted acc"
  shows "\<exists>st'' acc'. recoverRun isoStr now (st', acc) run = Inr (st'', acc') \<and> after isoStr now st (insert (rn_id r) ids) st'' \<and>
    counted acc' \<and> sv_recoveredRunIds acc' = sv_recoveredRunIds acc @ [rn_id r]"
proof -
  have k': "keyed st'" by (rule after_keyed [OF k a])
  have d: "distinct (map rn_id (rt_runs st'))" "distinct (map tk_id (rt_tasks st'))" "distinct (map ms_id (rt_missions st'))"
    and ds: "distinct (map rn_id (rt_runs st))" using k k' by (simp_all add: keyed_def)
  have "r \<in> set (rt_runs st')" using a r(1) i(1) by (auto simp: after_def closed_runs_def image_iff intro!: bexI [of _ r])
  then have f: "find (\<lambda>x. rn_id x = rn_id r) (rt_runs st') = Some r" by (rule find_distinct [OF d(1)])
  obtain u where u: "updateTaskRun (rt_runs st') (rn_id r) (stale_run_input isoStr now (mapRunRow r)) now =
      Inr (map (\<lambda>x. if rn_id x = rn_id r then failed_run isoStr now x else x) (rt_runs st'), u)"
    "rn_id u = rn_id r" "rn_targetType u = rn_targetType r" "rn_targetId u = rn_targetId r"
    using updateTaskRun_failed [OF d(1) f, of isoStr now] by blast
  have runs: "map (\<lambda>x. if rn_id x = rn_id r then failed_run isoStr now x else x) (rt_runs st') = closed_runs isoStr now st (insert (rn_id r) ids)"
    using a i(1) closed_runs_insert by (simp add: after_def)
  have tasks: "closed_tasks now st (insert (rn_id r) ids) = (if rn_targetType r = TargetTask
      then map (\<lambda>t. if tk_status t = TaskRunning \<and> tk_id t = rn_targetId r then failed_task now t else t) (rt_tasks st') else rt_tasks st')"
    using a targets_insert [OF ds r(1), of TargetTask ids]
    by (simp add: after_def closed_tasks_def closed_tasks_insert del: map_map)
  have missions: "closed_missions now st (insert (rn_id r) ids) = (if rn_targetType r = TargetMission
      then map (\<lambda>m. if ms_status m = MissionRunning \<and> ms_id m = rn_targetId r then failed_mission now m else m) (rt_missions st')
      else rt_missions st')"
    using a targets_insert [OF ds r(1), of TargetMission ids]
    by (simp add: after_def closed_missions_def closed_missions_insert del: map_map)
  have g: "getTaskRun (rt_runs st') (rn_id run) = Some (mapRunRow r)" using f i(2) by (simp add: getTaskRun_def)
  show ?thesis
  proof (cases "rn_targetType r")
    case TargetTask
    then show ?thesis
      using g r(2) u c runs tasks missions
      by (simp add: recoverRun_def failRunningTask_eq [OF d(2)] after_def counted_def)
  next
    case TargetMission
    then show ?thesis
      using g r(2) u c runs tasks missions
      by (simp add: recoverRun_def failRunningMission_eq [OF d(3)] after_def counted_def)
  qed
qed

lemma recoverRun_page:
  assumes k: "keyed st"
  shows "after isoStr now st ids st' \<Longrightarrow> counted acc \<Longrightarrow> distinct (map rn_id page) \<Longrightarrow> rn_id ` set page \<subseteq> active_ids st - ids \<Longrightarrow>
    \<exists>st'' acc'. foldR (recoverRun isoStr now) (st', acc) page = Inr (st'', acc') \<and>
      after isoStr now st (ids \<union> rn_id ` set page) st'' \<and> counted acc' \<and>
      sv_recoveredRunIds acc' = sv_recoveredRunIds acc @ map rn_id page"
proof (induction page arbitrary: ids st' acc)
  case (Cons run page)
  obtain r where r: "r \<in> set (rt_runs st)" "rn_status r = RunActive" "rn_id run = rn_id r" "rn_id r \<notin> ids"
    using Cons.prems(4) by (auto simp: active_ids_def)
  obtain st1 acc1 where s: "recoverRun isoStr now (st', acc) run = Inr (st1, acc1)" "after isoStr now st (insert (rn_id r) ids) st1"
    "counted acc1" "sv_recoveredRunIds acc1 = sv_recoveredRunIds acc @ [rn_id r]"
    using recoverRun_after [OF k Cons.prems(1) r(1,2,4,3) Cons.prems(2)] by blast
  have "rn_id r \<notin> rn_id ` set page" "distinct (map rn_id page)" using Cons.prems(3) r(3) by simp_all
  moreover have "rn_id ` set page \<subseteq> active_ids st - ids" using Cons.prems(4) by simp
  ultimately have "rn_id ` set page \<subseteq> active_ids st - insert (rn_id r) ids" "distinct (map rn_id page)" by blast+
  then obtain st2 acc2 where "foldR (recoverRun isoStr now) (st1, acc1) page = Inr (st2, acc2)"
    "after isoStr now st (insert (rn_id r) ids \<union> rn_id ` set page) st2" "counted acc2"
    "sv_recoveredRunIds acc2 = sv_recoveredRunIds acc1 @ map rn_id page"
    using Cons.IH [OF s(2,3)] by blast
  then show ?case using s r(3) by simp
qed simp

lemma recoverableRuns_eq:
  "recoverableRuns st = map mapRunRow (take 1000 (sort_key (\<lambda>r. - rn_createdAt r) (filter (\<lambda>r. rn_status r = RunActive) (rt_runs st))))"
proof -
  have page: "nat (clampAppStateListLimit (Some (Fin 1000))) = 1000"
    by (simp add: clampAppStateListLimit_def trunc_rat_def)
  have rows: "filter (\<lambda>r. (None = None \<or> None = Some (rn_targetType r)) \<and> (text_col None = None \<or> text_col None = Some (rn_targetId r)) \<and>
      (Some RunActive = None \<or> Some RunActive = Some (rn_status r)) \<and> (text_col None = None \<or> text_col None = Some (rn_workspaceId r))) xs =
      filter (\<lambda>r. rn_status r = RunActive) xs" for xs
    by (rule filter_cong) (auto simp: text_col_def)
  have all: "filter (\<lambda>r. rn_targetType r = TargetTask \<or> rn_targetType r = TargetMission) xs = xs" for xs
    using run_target.exhaust by (auto simp: filter_id_conv)
  show ?thesis by (simp only: recoverableRuns_def listTaskRuns_def list_runs_options.select_convs page rows all)
qed

lemma recoverableRuns_ids:
  assumes "keyed st"
  shows "distinct (map rn_id (recoverableRuns st))" "rn_id ` set (recoverableRuns st) \<subseteq> active_ids st"
    "recoverableRuns st = [] \<Longrightarrow> active_ids st = {}"
proof -
  let ?rows = "filter (\<lambda>r. rn_status r = RunActive) (rt_runs st)"
  have "distinct (map rn_id ?rows)" using assms by (simp add: keyed_def distinct_map_filter)
  then have "distinct (map rn_id (sort_key (\<lambda>r. - rn_createdAt r) ?rows))" by (simp add: distinct_map)
  then have "distinct (map rn_id (take 1000 (sort_key (\<lambda>r. - rn_createdAt r) ?rows)))" by (simp add: take_map [symmetric] distinct_take)
  then show "distinct (map rn_id (recoverableRuns st))" by (simp add: recoverableRuns_eq o_def)
  show "rn_id ` set (recoverableRuns st) \<subseteq> active_ids st"
    by (auto simp: recoverableRuns_eq active_ids_def dest!: in_set_takeD)
  show "active_ids st = {}" if "recoverableRuns st = []"
  proof -
    have "length (sort_key (\<lambda>r. - rn_createdAt r) ?rows) = 0" using that by (auto simp: recoverableRuns_eq)
    then have "?rows = []" by simp
    then show ?thesis by (auto simp: active_ids_def filter_empty_conv)
  qed
qed

lemma after_active: "after isoStr now st ids st' \<Longrightarrow> active_ids st' = active_ids st - ids"
  by (auto simp: after_def active_ids_def closed_runs_def image_iff split: if_splits)

lemma recoverRuns_returns:
  assumes k: "keyed st"
  shows "after isoStr now st ids st' \<Longrightarrow> counted acc \<Longrightarrow> ids = set (sv_recoveredRunIds acc) \<Longrightarrow> distinct (sv_recoveredRunIds acc) \<Longrightarrow>
    ids \<subseteq> active_ids st \<Longrightarrow>
    \<exists>st'' acc'. recoverRuns isoStr now st' acc = Some (st'', Inr acc') \<and> after isoStr now st (active_ids st) st'' \<and> counted acc' \<and>
      distinct (sv_recoveredRunIds acc') \<and> set (sv_recoveredRunIds acc') = active_ids st"
proof (induction "card (active_ids st - ids)" arbitrary: ids st' acc rule: less_induct)
  case less
  have k': "keyed st'" by (rule after_keyed [OF k less.prems(1)])
  note act = after_active [OF less.prems(1)]
  let ?page = "recoverableRuns st'"
  show ?case
  proof (cases "?page = []")
    case True
    then have "active_ids st - ids = {}" using recoverableRuns_ids(3) [OF k'] act by simp
    then have "ids = active_ids st" using less.prems(5) by blast
    then show ?thesis using True less.prems by (simp add: recoverRuns.simps [of isoStr now st' acc])
  next
    case False
    have sub: "rn_id ` set ?page \<subseteq> active_ids st - ids" using recoverableRuns_ids(2) [OF k'] act by simp
    obtain st1 acc1 where s: "foldR (recoverRun isoStr now) (st', acc) ?page = Inr (st1, acc1)"
      "after isoStr now st (ids \<union> rn_id ` set ?page) st1" "counted acc1"
      "sv_recoveredRunIds acc1 = sv_recoveredRunIds acc @ map rn_id ?page"
      using recoverRun_page [OF k less.prems(1,2) recoverableRuns_ids(1) [OF k'] sub] by blast
    have "rn_id ` set ?page \<noteq> {}" using False by simp
    then have "active_ids st - ids - rn_id ` set ?page \<subset> active_ids st - ids" using sub by (rule diff_psubset)
    moreover have "active_ids st - (ids \<union> rn_id ` set ?page) = active_ids st - ids - rn_id ` set ?page" by blast
    ultimately have "card (active_ids st - (ids \<union> rn_id ` set ?page)) < card (active_ids st - ids)"
      by (simp add: psubset_card_mono active_ids_def)
    moreover have "distinct (sv_recoveredRunIds acc1)"
      using s(4) less.prems(3,4) recoverableRuns_ids(1) [OF k'] sub by auto
    moreover have "ids \<union> rn_id ` set ?page = set (sv_recoveredRunIds acc1)" using s(4) less.prems(3) by simp
    moreover have "ids \<union> rn_id ` set ?page \<subseteq> active_ids st" using sub less.prems(5) by blast
    ultimately obtain st2 acc2 where "recoverRuns isoStr now st1 acc1 = Some (st2, Inr acc2)" "after isoStr now st (active_ids st) st2"
      "counted acc2" "distinct (sv_recoveredRunIds acc2)" "set (sv_recoveredRunIds acc2) = active_ids st"
      using less.hyps [OF _ s(2,3)] by blast
    then show ?thesis using False s(1) by (simp add: recoverRuns.simps [of isoStr now st' acc])
  qed
qed

text \<open> C18 Recovery of task and mission runs at start returns, however many runs there are, and does what this reference
  says: every running run is failed, once, every running task and mission that such a run belongs to is failed, and
  every other row stays as it is.
\<close>

theorem stale_task_runs_recovered:
  assumes "keyed st"
  shows "\<exists>st' acc. recoverStaleTaskAndMissionRuns isoStr st now = Some (st', Inr acc) \<and>
    rt_runs st' = closed_runs isoStr now st (active_ids st) \<and> rt_tasks st' = closed_tasks now st (active_ids st) \<and>
    rt_missions st' = closed_missions now st (active_ids st) \<and> active_ids st' = {} \<and>
    distinct (sv_recoveredRunIds acc) \<and> set (sv_recoveredRunIds acc) = active_ids st \<and>
    sv_taskRunsRecovered acc + sv_missionRunsRecovered acc = length (sv_recoveredRunIds acc)"
proof -
  let ?acc = "\<lparr>sv_taskRunsRecovered = 0, sv_missionRunsRecovered = 0, sv_recoveredRunIds = []\<rparr>"
  obtain st' acc where r: "recoverRuns isoStr now st ?acc = Some (st', Inr acc)" "after isoStr now st (active_ids st) st'"
    "counted acc" "distinct (sv_recoveredRunIds acc)" "set (sv_recoveredRunIds acc) = active_ids st"
    using recoverRuns_returns [OF assms after_none, of ?acc isoStr now] by (auto simp: counted_def)
  then show ?thesis using after_active [OF r(2)]
    by (intro exI [of _ st'] exI [of _ acc]) (simp add: recoverStaleTaskAndMissionRuns_def after_def counted_def)
qed

lemma active_ids_list: "active_ids st = set (map rn_id (filter (\<lambda>r. rn_status r = RunActive) (rt_runs st)))"
  by (simp add: active_ids_def)

lemma targets_list: "targets st x ids = set (map rn_targetId (filter (\<lambda>r. rn_targetType r = x \<and> rn_id r \<in> ids) (rt_runs st)))"
  by (simp add: targets_def)

definition demo_run :: "string \<Rightarrow> run_state \<Rightarrow> task_run_record" where
  "demo_run i x = \<lparr>rn_id = i, rn_targetType = TargetTask, rn_targetId = ''t'', rn_status = x, rn_backend = None, rn_agentId = None,
     rn_agentVersion = None, rn_startedAt = None, rn_endedAt = None, rn_output = JUndefined, rn_failure = JUndefined,
     rn_safetyStop = JUndefined, rn_verificationStatus = None, rn_verificationFailures = JUndefined, rn_workspaceId = ''default'',
     rn_createdAt = 1, rn_updatedAt = 1\<rparr>"

definition demo_tables :: run_tables where
  "demo_tables = \<lparr>rt_runs = [demo_run ''r1'' RunDone, demo_run ''r2'' RunActive],
     rt_tasks = [(lone_task ''t'' ''a'')\<lparr>tk_status := TaskRunning\<rparr>], rt_missions = [], rt_events = []\<rparr>"

theorem stale_task_runs_recovered_witness:
  "\<exists>st' acc. recoverStaleTaskAndMissionRuns demo_iso demo_tables 9 = Some (st', Inr acc) \<and>
     map rn_status (rt_runs st') = [RunDone, RunBroken] \<and> map tk_status (rt_tasks st') = [TaskFailed] \<and>
     sv_recoveredRunIds acc = [''r2'']"
proof -
  have k: "keyed demo_tables" by (simp add: keyed_def demo_tables_def demo_run_def)
  have a: "active_ids demo_tables = {''r2''}" by (simp add: active_ids_list demo_tables_def demo_run_def)
  obtain st' acc where r: "recoverStaleTaskAndMissionRuns demo_iso demo_tables 9 = Some (st', Inr acc)"
    "rt_runs st' = closed_runs demo_iso 9 demo_tables {''r2''}" "rt_tasks st' = closed_tasks 9 demo_tables {''r2''}"
    "distinct (sv_recoveredRunIds acc)" "set (sv_recoveredRunIds acc) = {''r2''}"
    using stale_task_runs_recovered [OF k, of demo_iso 9, unfolded a] by (elim exE conjE) (rule that)
  have "map rn_status (rt_runs st') = [RunDone, RunBroken]"
    unfolding r(2) by (simp add: closed_runs_def demo_tables_def demo_run_def failed_run_simps)
  moreover have "map tk_status (rt_tasks st') = [TaskFailed]"
    unfolding r(3) by (simp add: closed_tasks_def targets_list demo_tables_def demo_run_def lone_task_def)
  moreover have "sv_recoveredRunIds acc = [''r2'']"
  proof -
    have "length (sv_recoveredRunIds acc) = 1" using distinct_card [OF r(4)] unfolding r(5) by simp
    then obtain x where "sv_recoveredRunIds acc = [x]" by (auto simp: length_Suc_conv)
    then show ?thesis using r(5) by simp
  qed
  ultimately show ?thesis using r(1) by (intro exI [of _ st'] exI [of _ acc] conjI)
qed

end
