(* ===== verification/Identity.thy ===== *)
theory Identity
  imports Authorization
begin

text \<open>
  Who a caller is: the role assignments of \<open>control-plane/identity-store.ts\<close> with their state file and cache, the
  resolution of a role in \<open>control-plane/auth.ts\<close>, the service on top of it (\<open>services/identity.ts\<close>) and the
  extraction of the caller from the headers of a request (\<open>api/middleware/auth.ts\<close>).

  Time stamps are texts here, because the store keeps any text that \<open>Date.parse\<close> accepts; \<open>parses\<close> says which. The
  order of \<open>localeCompare\<close> is given by a collation key \<open>rank\<close>. Subjects that are names of members of
  \<open>Object.prototype\<close>, which a lookup in the configured role map would find, are left aside.
\<close>

section \<open>Assignments\<close>

datatype subject_type = Identity | ServiceToken

fun subject_type_text :: "subject_type \<Rightarrow> string" where
  "subject_type_text Identity = ''identity''"
| "subject_type_text ServiceToken = ''service-token''"

definition role_of_text :: "string \<Rightarrow> role option" where
  "role_of_text s = (if s = ''Viewer'' then Some Viewer else if s = ''Operator'' then Some Operator
     else if s = ''Admin'' then Some Admin else None)"

definition subject_type_of_text :: "string \<Rightarrow> subject_type option" where
  "subject_type_of_text s = (if s = ''identity'' then Some Identity else if s = ''service-token'' then Some ServiceToken else None)"

record role_assignment =
  ra_subject :: string
  ra_subjectType :: subject_type
  ra_role :: role
  ra_createdAt :: string
  ra_updatedAt :: string
  ra_updatedBy :: "string option"

definition normalizeSubject :: "js \<Rightarrow> string option" where
  "normalizeSubject v = (case v of JStr s \<Rightarrow> given (Some (trim s)) | _ \<Rightarrow> None)"

definition toIso :: "(string \<Rightarrow> bool) \<Rightarrow> js \<Rightarrow> string option" where
  "toIso parses v = (case v of JStr s \<Rightarrow> if trim s = [] \<or> \<not> parses (trim s) then None else Some (trim s) | _ \<Rightarrow> None)"

definition normalizeAssignment :: "(string \<Rightarrow> bool) \<Rightarrow> string \<Rightarrow> js \<Rightarrow> role_assignment option" where
  "normalizeAssignment parses nowIso v =
     (if \<not> is_record v then None
      else (let createdAt = (case toIso parses (js_get v ''createdAt'') of Some t \<Rightarrow> t | None \<Rightarrow> nowIso) in
        case (normalizeSubject (js_get v ''subject''), case js_get v ''role'' of JStr s \<Rightarrow> role_of_text s | _ \<Rightarrow> None) of
          (Some subject, Some role) \<Rightarrow> Some \<lparr>ra_subject = subject,
            ra_subjectType = (case js_get v ''subjectType'' of
               JStr s \<Rightarrow> (case subject_type_of_text s of Some t \<Rightarrow> t | None \<Rightarrow> Identity) | _ \<Rightarrow> Identity),
            ra_role = role, ra_createdAt = createdAt,
            ra_updatedAt = (case toIso parses (js_get v ''updatedAt'') of Some t \<Rightarrow> t | None \<Rightarrow> createdAt),
            ra_updatedBy = normalizeSubject (js_get v ''updatedBy'')\<rparr>
        | _ \<Rightarrow> None))"

definition sortAssignments :: "(string \<Rightarrow> 'k::linorder) \<Rightarrow> role_assignment list \<Rightarrow> role_assignment list" where
  "sortAssignments rank = sort_key (\<lambda>a. rank (ra_subject a))"

text \<open>
  \<open>normalizeState\<close> returns an array of its own, or the array of \<open>DEFAULT_STATE\<close>: \<open>{ ...DEFAULT_STATE }\<close> copies the
  object but not the array in it, so all stores of the process share that one.
\<close>

datatype list_ref = OwnList "role_assignment list" | DefaultList

definition normalizeState :: "(string \<Rightarrow> bool) \<Rightarrow> (string \<Rightarrow> 'k::linorder) \<Rightarrow> string \<Rightarrow> js \<Rightarrow> list_ref" where
  "normalizeState parses rank nowIso v =
     (if \<not> is_record v then DefaultList
      else OwnList (sortAssignments rank (case js_get v ''assignments'' of
        JArr rows \<Rightarrow> List.map_filter (normalizeAssignment parses nowIso) rows | _ \<Rightarrow> [])))"

section \<open>The store\<close>

text \<open>The state file with its modification time and size, the cache of the store and the array of \<open>DEFAULT_STATE\<close>.\<close>

record state_file =
  sf_content :: file_content
  sf_mtimeMs :: int
  sf_size :: nat

record sync_cache =
  ca_mtimeMs :: int
  ca_size :: nat
  ca_assignments :: list_ref

record identity_world =
  iw_file :: "state_file option"
  iw_cache :: "sync_cache option"
  iw_default :: "role_assignment list"

text \<open>What the store gets from its surroundings: time, the parser and order of texts, the size of a written file.\<close>

record 'k identity_env =
  ie_parses :: "string \<Rightarrow> bool"
  ie_rank :: "string \<Rightarrow> 'k"
  ie_nowIso :: string
  ie_mtimeMs :: int
  ie_size :: "js \<Rightarrow> nat"

fun deref :: "identity_world \<Rightarrow> list_ref \<Rightarrow> role_assignment list" where
  "deref w (OwnList xs) = xs"
| "deref w DefaultList = iw_default w"

definition cache_hit :: "state_file \<Rightarrow> sync_cache option \<Rightarrow> list_ref option" where
  "cache_hit f cache = (case cache of None \<Rightarrow> None
   | Some c \<Rightarrow> if ca_mtimeMs c = sf_mtimeMs f \<and> ca_size c = sf_size f then Some (ca_assignments c) else None)"

definition loadAssignmentsSync ::
    "('k::linorder) identity_env \<Rightarrow> identity_world \<Rightarrow> role_assignment list \<times> identity_world" where
  "loadAssignmentsSync env w = (case iw_file w of
     None \<Rightarrow> ([], w\<lparr>iw_cache := Some \<lparr>ca_mtimeMs = -1, ca_size = 0, ca_assignments = OwnList []\<rparr>\<rparr>)
   | Some f \<Rightarrow> (case cache_hit f (iw_cache w) of
       Some l \<Rightarrow> (deref w l, w)
     | None \<Rightarrow> (case sf_content f of
         NotJson \<Rightarrow> ([], w)
       | Json v \<Rightarrow> (let l = normalizeState (ie_parses env) (ie_rank env) (ie_nowIso env) v
           in (deref w l, w\<lparr>iw_cache := Some \<lparr>ca_mtimeMs = sf_mtimeMs f, ca_size = sf_size f, ca_assignments = l\<rparr>\<rparr>)))))"

definition resolveSync ::
    "('k::linorder) identity_env \<Rightarrow> identity_world \<Rightarrow> string \<Rightarrow> role_assignment option \<times> identity_world" where
  "resolveSync env w subject = (case given (Some (trim subject)) of
     None \<Rightarrow> (None, w)
   | Some normalized \<Rightarrow> (let (assignments, w') = loadAssignmentsSync env w
       in (find (\<lambda>a. ra_subject a = normalized) assignments, w')))"

definition loadState :: "('k::linorder) identity_env \<Rightarrow> identity_world \<Rightarrow> list_ref result" where
  "loadState env w = (case iw_file w of
     None \<Rightarrow> Inr (OwnList [])
   | Some f \<Rightarrow> (case sf_content f of
       NotJson \<Rightarrow> Inl (JsError ''Unexpected token in JSON'')
     | Json v \<Rightarrow> Inr (normalizeState (ie_parses env) (ie_rank env) (ie_nowIso env) v)))"

definition listAssignments :: "('k::linorder) identity_env \<Rightarrow> identity_world \<Rightarrow> role_assignment list result" where
  "listAssignments env w = bindR (loadState env w) (\<lambda>l. Inr (deref w l))"

definition assignment_js :: "role_assignment \<Rightarrow> js" where
  "assignment_js a = JObj ([(''subject'', JStr (ra_subject a)), (''subjectType'', JStr (subject_type_text (ra_subjectType a))),
     (''role'', JStr (role_text (ra_role a))), (''createdAt'', JStr (ra_createdAt a)), (''updatedAt'', JStr (ra_updatedAt a))] @
     opt_field ''updatedBy'' (map_option JStr (ra_updatedBy a)))"

definition state_js :: "role_assignment list \<Rightarrow> js" where
  "state_js xs = JObj [(''schemaVersion'', JInt 1), (''assignments'', JArr (map assignment_js xs))]"

text \<open>\<open>saveState\<close>, and the array of the state that was changed in place.\<close>

definition saveState :: "'k identity_env \<Rightarrow> identity_world \<Rightarrow> role_assignment list \<Rightarrow> identity_world" where
  "saveState env w xs = w\<lparr>iw_file := Some \<lparr>sf_content = Json (state_js xs), sf_mtimeMs = ie_mtimeMs env,
     sf_size = ie_size env (state_js xs)\<rparr>\<rparr>"

definition changed :: "list_ref \<Rightarrow> role_assignment list \<Rightarrow> identity_world \<Rightarrow> identity_world" where
  "changed l xs w = (case l of OwnList _ \<Rightarrow> w | DefaultList \<Rightarrow> w\<lparr>iw_default := xs\<rparr>)"

definition forget_cache :: "identity_world \<Rightarrow> identity_world" where
  "forget_cache w = w\<lparr>iw_cache := None\<rparr>"

definition requireSubject :: "string \<Rightarrow> string \<Rightarrow> string result" where
  "requireSubject value ctx = (case given (Some (trim value)) of
     None \<Rightarrow> Inl (config_error (ctx @ '' must be a non-empty string.'')) | Some s \<Rightarrow> Inr s)"

definition requireRole :: "string \<Rightarrow> string \<Rightarrow> role result" where
  "requireRole value ctx = (case role_of_text value of
     None \<Rightarrow> Inl (config_error (ctx @ '' must be Viewer|Operator|Admin.'')) | Some r \<Rightarrow> Inr r)"

definition requireSubjectType :: "string \<Rightarrow> string \<Rightarrow> subject_type result" where
  "requireSubjectType value ctx = (case subject_type_of_text value of
     None \<Rightarrow> Inl (config_error (ctx @ '' must be identity|service-token.'')) | Some t \<Rightarrow> Inr t)"

record upsert_request =
  up_subject :: string
  up_subjectType :: string
  up_role :: string
  up_updatedBy :: "string option"

text \<open>The row that is replaced, and the new list of rows before it is sorted.\<close>

definition put_assignment :: "role_assignment \<Rightarrow> role_assignment list \<Rightarrow> role_assignment list" where
  "put_assignment a xs = (case find_index (\<lambda>x. ra_subject x = ra_subject a) xs of
     Some i \<Rightarrow> xs[i := a] | None \<Rightarrow> xs @ [a])"

definition new_assignment :: "string \<Rightarrow> string \<Rightarrow> subject_type \<Rightarrow> role \<Rightarrow> string option \<Rightarrow> role_assignment option \<Rightarrow> role_assignment" where
  "new_assignment nowIso subject subjectType role updatedBy previous = \<lparr>ra_subject = subject, ra_subjectType = subjectType,
     ra_role = role, ra_createdAt = (case previous of Some p \<Rightarrow> ra_createdAt p | None \<Rightarrow> nowIso), ra_updatedAt = nowIso,
     ra_updatedBy = given (map_option trim updatedBy)\<rparr>"

text \<open>\<open>lock\<close> is what acquiring the lock of the store comes to.\<close>

definition upsertAssignment ::
    "('k::linorder) identity_env \<Rightarrow> unit result \<Rightarrow> upsert_request \<Rightarrow> (identity_world, role_assignment \<times> role_assignment option) act" where
  "upsertAssignment env lock input =
     thenA (liftA (requireSubject (up_subject input) ''rbac.assignments.upsert.subject'')) (\<lambda>subject.
     thenA (liftA (requireSubjectType (up_subjectType input) ''rbac.assignments.upsert.subjectType'')) (\<lambda>subjectType.
     thenA (liftA (requireRole (up_role input) ''rbac.assignments.upsert.role'')) (\<lambda>role.
     seqA (liftA lock)
     (thenA (\<lambda>w. (w, loadState env w)) (\<lambda>l.
      thenA (getA (\<lambda>w. deref w l)) (\<lambda>xs.
      let previous = find (\<lambda>a. ra_subject a = subject) xs;
          a = new_assignment (ie_nowIso env) subject subjectType role (up_updatedBy input) previous;
          ys = sortAssignments (ie_rank env) (put_assignment a xs)
      in seqA (doA (\<lambda>w. forget_cache (saveState env (changed l ys w) ys))) (okA (a, previous))))))))"

fun remove_at :: "nat \<Rightarrow> 'a list \<Rightarrow> 'a list" where
  "remove_at i xs = take i xs @ drop (Suc i) xs"

definition removeAssignment ::
    "('k::linorder) identity_env \<Rightarrow> unit result \<Rightarrow> string \<Rightarrow> (identity_world, bool \<times> role_assignment option) act" where
  "removeAssignment env lock subject =
     thenA (liftA (requireSubject subject ''rbac.assignments.delete.subject'')) (\<lambda>normalized.
     seqA (liftA lock)
     (thenA (\<lambda>w. (w, loadState env w)) (\<lambda>l.
      thenA (getA (\<lambda>w. deref w l)) (\<lambda>xs.
      case find_index (\<lambda>a. ra_subject a = normalized) xs of
        None \<Rightarrow> okA (False, None)
      | Some i \<Rightarrow> (let ys = remove_at i xs in
          seqA (doA (\<lambda>w. forget_cache (saveState env (changed l ys w) ys))) (okA (True, Some (xs ! i))))))))"

section \<open>Roles, service and middleware\<close>

record auth_settings =
  au_apiToken :: "string option"
  au_identityHeader :: string
  au_defaultRole :: "role option"
  au_identityRoleMap :: "(string \<times> role) list"

definition or_role :: "role option \<Rightarrow> role option \<Rightarrow> role option" where
  "or_role a b = (case a of Some r \<Rightarrow> Some r | None \<Rightarrow> b)"

definition configuredRole :: "auth_settings option \<Rightarrow> string \<Rightarrow> role option" where
  "configuredRole auth subject = (case auth of None \<Rightarrow> None
   | Some au \<Rightarrow> or_role (map_of (au_identityRoleMap au) subject) (map_of (au_identityRoleMap au) ''*''))"

definition defaultRole :: "auth_settings option \<Rightarrow> role" where
  "defaultRole auth = (case auth of None \<Rightarrow> Viewer | Some au \<Rightarrow> (case au_defaultRole au of None \<Rightarrow> Viewer | Some r \<Rightarrow> r))"

definition effectiveRole :: "auth_settings option \<Rightarrow> role_assignment option \<Rightarrow> string \<Rightarrow> role" where
  "effectiveRole auth persisted subject =
     (case or_role (map_option ra_role persisted) (configuredRole auth subject) of Some r \<Rightarrow> r | None \<Rightarrow> defaultRole auth)"

definition resolveIdentity ::
    "('k::linorder) identity_env \<Rightarrow> auth_settings option \<Rightarrow> string \<Rightarrow> (identity_world, auth_context) act" where
  "resolveIdentity env auth identity = (let subject = trim identity in
     if subject = [] then throwA (AthenaError AUTH_IDENTITY_MISSING ''Request identity header is empty.'' False)
     else (\<lambda>w. let (persisted, w') = resolveSync env w subject; role = effectiveRole auth persisted subject
       in (w', Inr \<lparr>cx_subject = subject, cx_role = role, cx_scope = \<lparr>sc_global = (role = Admin), sc_agents = [],
         sc_sessionIds = [], sc_runIds = [], sc_workspaces = Some []\<rparr>\<rparr>)))"

subsection \<open>The identity service\<close>

definition upserted_event :: "role_assignment \<Rightarrow> role_assignment option \<Rightarrow> js" where
  "upserted_event a previous = JObj [(''type'', JStr ''rbac.assignment.upserted''), (''payload'', JObj ([(''schemaVersion'', JInt 1),
     (''subject'', JStr (ra_subject a)), (''subjectType'', JStr (subject_type_text (ra_subjectType a))),
     (''role'', JStr (role_text (ra_role a))), (''createdAt'', JStr (ra_createdAt a)), (''updatedAt'', JStr (ra_updatedAt a))] @
     opt_field ''updatedBy'' (map_option JStr (given (ra_updatedBy a))) @
     opt_field ''previous'' (map_option (\<lambda>p. JObj ([(''role'', JStr (role_text (ra_role p))), (''updatedAt'', JStr (ra_updatedAt p))] @
       opt_field ''updatedBy'' (map_option JStr (given (ra_updatedBy p))))) previous)))]"

definition removed_event :: "string \<Rightarrow> role_assignment option \<Rightarrow> js" where
  "removed_event subject previous = JObj [(''type'', JStr ''rbac.assignment.removed''), (''payload'', JObj ([(''schemaVersion'', JInt 1),
     (''subject'', JStr (case previous of Some p \<Rightarrow> ra_subject p | None \<Rightarrow> trim subject))] @
     opt_field ''previous'' (map_option (\<lambda>p. JObj ([(''subjectType'', JStr (subject_type_text (ra_subjectType p))),
       (''role'', JStr (role_text (ra_role p))), (''createdAt'', JStr (ra_createdAt p)), (''updatedAt'', JStr (ra_updatedAt p))] @
       opt_field ''updatedBy'' (map_option JStr (given (ra_updatedBy p))))) previous)))]"

definition LocalIdentityService_upsertAssignment ::
    "('k::linorder) identity_env \<Rightarrow> unit result \<Rightarrow> (js \<Rightarrow> (identity_world, unit) act) \<Rightarrow> upsert_request \<Rightarrow>
       (identity_world, role_assignment) act" where
  "LocalIdentityService_upsertAssignment env lock emit request =
     thenA (upsertAssignment env lock request) (\<lambda>(a, previous). seqA (emit (upserted_event a previous)) (okA a))"

definition LocalIdentityService_removeAssignment ::
    "('k::linorder) identity_env \<Rightarrow> unit result \<Rightarrow> (js \<Rightarrow> (identity_world, unit) act) \<Rightarrow> string \<Rightarrow>
       (identity_world, string \<times> bool) act" where
  "LocalIdentityService_removeAssignment env lock emit subject =
     thenA (removeAssignment env lock subject) (\<lambda>(removed, previous).
       seqA (if removed then emit (removed_event subject previous) else okA ()) (okA (trim subject, removed)))"

datatype role_source = Persisted | Configured | DefaultRole

record role_audit =
  ru_subject :: string
  ru_role :: role
  ru_source :: role_source
  ru_permissions :: "string list"
  ru_scope :: scope_set
  ru_assignment :: "role_assignment option"

definition auditPermissions ::
    "('k::linorder) identity_env \<Rightarrow> auth_settings option \<Rightarrow> string \<Rightarrow> (identity_world, role_audit) act" where
  "auditPermissions env auth subject = (\<lambda>w. let normalized = trim subject; (persisted, w') = resolveSync env w normalized;
       role = effectiveRole auth persisted normalized
     in (w', Inr \<lparr>ru_subject = normalized, ru_role = role,
       ru_source = (if persisted \<noteq> None then Persisted else if configuredRole auth normalized \<noteq> None then Configured else DefaultRole),
       ru_permissions = getPermissionsForRole role, ru_scope = \<lparr>sc_global = (role = Admin), sc_agents = [], sc_sessionIds = [],
         sc_runIds = [], sc_workspaces = None\<rparr>, ru_assignment = persisted\<rparr>))"

subsection \<open>The caller of a request\<close>

datatype header_value = OneValue string | ManyValues "string list"

type_synonym headers = "string \<Rightarrow> header_value option"

definition first_text :: "string list \<Rightarrow> string option" where
  "first_text xs = find (\<lambda>s. s \<noteq> []) (map trim xs)"

definition parseIdentityHeaderValue :: "header_value option \<Rightarrow> string option" where
  "parseIdentityHeaderValue v = (case v of
     None \<Rightarrow> None
   | Some (ManyValues xs) \<Rightarrow> first_text xs
   | Some (OneValue s) \<Rightarrow> first_text (split_on CHR '','' s))"

definition parseScopeGlobal :: "header_value option \<Rightarrow> bool" where
  "parseScopeGlobal v = (case map_option to_lower (parseIdentityHeaderValue v) of
     None \<Rightarrow> False | Some s \<Rightarrow> s = ''true'' \<or> s = ''1'' \<or> s = ''yes'' \<or> s = ''on'')"

definition parseScopeList :: "header_value option \<Rightarrow> string list" where
  "parseScopeList v = (let raw = (case v of None \<Rightarrow> [] | Some (ManyValues xs) \<Rightarrow> xs | Some (OneValue s) \<Rightarrow> if s = [] then [] else [s])
     in js_set (filter (\<lambda>s. s \<noteq> []) (map trim (concat (map (split_on CHR '','') raw)))))"

definition parseScopeHeaders :: "headers \<Rightarrow> bool \<Rightarrow> scope_set" where
  "parseScopeHeaders h adminGlobal = \<lparr>sc_global = (adminGlobal \<or> parseScopeGlobal (h ''x-athena-scope-global'')),
     sc_agents = parseScopeList (h ''x-athena-scope-agents''), sc_sessionIds = parseScopeList (h ''x-athena-scope-sessions''),
     sc_runIds = parseScopeList (h ''x-athena-scope-runs''), sc_workspaces = Some (parseScopeList (h ''x-athena-scope-workspaces''))\<rparr>"

text \<open>\<open>sha256\<close> stands for the digest of \<open>node:crypto\<close>.\<close>

definition constantTimeEquals :: "(string \<Rightarrow> string) \<Rightarrow> string \<Rightarrow> string \<Rightarrow> bool" where
  "constantTimeEquals sha256 left right \<longleftrightarrow> sha256 left = sha256 right \<and> length left = length right"

definition presentedToken :: "headers \<Rightarrow> string option" where
  "presentedToken h = (case parseIdentityHeaderValue (h ''authorization'') of
     Some a \<Rightarrow> if starts_with ''bearer '' (to_lower a) then Some (trim (drop 7 a))
       else parseIdentityHeaderValue (h ''x-athena-api-token'')
   | None \<Rightarrow> parseIdentityHeaderValue (h ''x-athena-api-token''))"

definition assertValidApiToken :: "(string \<Rightarrow> string) \<Rightarrow> headers \<Rightarrow> string \<Rightarrow> unit result" where
  "assertValidApiToken sha256 h expected = (case given (presentedToken h) of
     None \<Rightarrow> Inl (AthenaError AUTH_TOKEN_MISSING ''Missing required API bearer token.'' False)
   | Some token \<Rightarrow> if constantTimeEquals sha256 token expected then Inr ()
       else Inl (AthenaError AUTH_TOKEN_INVALID ''Invalid API bearer token.'' False))"

definition extractIdentity ::
    "(string \<Rightarrow> string) \<Rightarrow> ('k::linorder) identity_env \<Rightarrow> auth_settings \<Rightarrow> headers \<Rightarrow> (identity_world, auth_context) act" where
  "extractIdentity sha256 env au h = (let headerName = to_lower (au_identityHeader au) in
     seqA (case given (au_apiToken au) of None \<Rightarrow> okA () | Some t \<Rightarrow> liftA (assertValidApiToken sha256 h t))
     (case parseIdentityHeaderValue (h headerName) of
        None \<Rightarrow> throwA (AthenaError AUTH_IDENTITY_MISSING (''Missing required header: '' @ headerName @ ''.'') False)
      | Some subject \<Rightarrow> thenA (resolveIdentity env (Some au) subject) (\<lambda>cx.
          okA (cx\<lparr>cx_scope := parseScopeHeaders h (cx_role cx = Admin)\<rparr>))))"

section \<open>What the store keeps\<close>

definition clean :: "string \<Rightarrow> bool" where
  "clean s \<longleftrightarrow> trim s = s \<and> s \<noteq> []"

definition wf_assignment :: "(string \<Rightarrow> bool) \<Rightarrow> role_assignment \<Rightarrow> bool" where
  "wf_assignment parses a \<longleftrightarrow> clean (ra_subject a) \<and> clean (ra_createdAt a) \<and> parses (ra_createdAt a) \<and>
     clean (ra_updatedAt a) \<and> parses (ra_updatedAt a) \<and> (\<forall>u. ra_updatedBy a = Some u \<longrightarrow> clean u)"

definition clock_ok :: "'k identity_env \<Rightarrow> bool" where
  "clock_ok env \<longleftrightarrow> clean (ie_nowIso env) \<and> ie_parses env (ie_nowIso env)"

lemma given_trim: "given (Some (trim s)) = Some x \<longleftrightarrow> x = trim s \<and> clean x"
  by (auto simp: given_def clean_def)

lemma given_map_trim: "given (map_option trim v) = Some x \<Longrightarrow> clean x"
  by (cases v) (auto simp: given_def clean_def split: if_splits)

lemma normalizeSubject_clean: "normalizeSubject v = Some x \<Longrightarrow> clean x"
  by (auto simp: normalizeSubject_def given_trim split: js.splits)

lemma toIso_clean: "toIso parses v = Some x \<Longrightarrow> clean x \<and> parses x"
  by (auto simp: toIso_def clean_def split: js.splits if_splits)

lemma normalizeAssignment_wf:
  assumes "clock_ok env" "normalizeAssignment (ie_parses env) (ie_nowIso env) v = Some a"
  shows "wf_assignment (ie_parses env) a"
  using assms by (auto simp: normalizeAssignment_def wf_assignment_def clock_ok_def Let_def
      dest: normalizeSubject_clean toIso_clean split: if_splits option.splits)

lemma role_of_text_text [simp]: "role_of_text (role_text r) = Some r"
  by (cases r) (simp_all add: role_of_text_def)

lemma subject_type_of_text_text [simp]: "subject_type_of_text (subject_type_text t) = Some t"
  by (cases t) (simp_all add: subject_type_of_text_def)

lemma normalize_assignment_js:
  assumes "wf_assignment parses a"
  shows "normalizeAssignment parses now (assignment_js a) = Some a"
proof -
  have "js_get (assignment_js a) ''updatedBy'' = (case ra_updatedBy a of None \<Rightarrow> JUndefined | Some u \<Rightarrow> JStr u)"
    by (simp add: assignment_js_def opt_field_def split: option.splits)
  then have "normalizeSubject (js_get (assignment_js a) ''updatedBy'') = ra_updatedBy a"
    using assms by (auto simp: normalizeSubject_def wf_assignment_def clean_def given_def split: option.splits)
  then show ?thesis
    using assms by (simp add: normalizeAssignment_def assignment_js_def wf_assignment_def clean_def toIso_def Let_def
        normalizeSubject_def given_def)
qed

lemma map_filter_js: "list_all (wf_assignment parses) xs \<Longrightarrow> List.map_filter (normalizeAssignment parses now) (map assignment_js xs) = xs"
  by (induction xs) (simp_all add: normalize_assignment_js)

lemma list_all_sort: "list_all P (sortAssignments rank xs) = list_all P xs"
  by (simp add: sortAssignments_def list_all_iff)

lemma normalizeState_js:
  assumes "list_all (wf_assignment parses) xs" "sorted (map (\<lambda>a. rank (ra_subject a)) xs)"
  shows "normalizeState parses rank now (state_js xs) = OwnList xs"
  using assms by (simp add: normalizeState_def state_js_def map_filter_js sortAssignments_def sorted_sort_id sort_key_id_if_sorted)

text \<open>A world whose shared array holds assignments as the store makes them; the file may hold anything.\<close>

definition wf_world :: "'k identity_env \<Rightarrow> identity_world \<Rightarrow> bool" where
  "wf_world env w \<longleftrightarrow> list_all (wf_assignment (ie_parses env)) (iw_default w)"

lemma loadState_wf:
  assumes "clock_ok env" "wf_world env w" "loadState env w = Inr l"
  shows "list_all (wf_assignment (ie_parses env)) (deref w l)"
proof (cases l)
  case DefaultList
  then show ?thesis using assms(2) by (simp add: wf_world_def)
next
  case (OwnList xs)
  have "list_all (wf_assignment (ie_parses env)) (List.map_filter (normalizeAssignment (ie_parses env) (ie_nowIso env)) rows)" for rows
    using normalizeAssignment_wf [OF assms(1)] by (auto simp: list_all_iff List.map_filter_def)
  then show ?thesis
    using assms(3) OwnList by (auto simp: loadState_def normalizeState_def list_all_sort split: option.splits file_content.splits js.splits if_splits)
qed

lemma find_index_find: "find_index P xs = Some i \<Longrightarrow> find P xs = Some (xs ! i) \<and> i < length xs"
  by (induction xs arbitrary: i) (auto split: if_splits)

lemma find_index_find_None: "find_index P xs = None \<longleftrightarrow> find P xs = None"
  by (simp add: find_index_None find_eq_None)

lemma list_all_put: "list_all P xs \<Longrightarrow> P a \<Longrightarrow> list_all P (put_assignment a xs)"
  by (auto simp: put_assignment_def list_all_iff split: option.split dest: set_update_subset_insert [THEN subsetD])

lemma new_assignment_wf:
  assumes "clock_ok env" "clean subject" "\<forall>p. previous = Some p \<longrightarrow> wf_assignment (ie_parses env) p"
  shows "wf_assignment (ie_parses env) (new_assignment (ie_nowIso env) subject st role updatedBy previous)"
  using assms by (auto simp: new_assignment_def wf_assignment_def clock_ok_def split: option.split dest: given_map_trim)

text \<open>A sequence of steps that returned took each step.\<close>

lemma thenA_returned: "thenA m f s = (s', Inr x) \<longleftrightarrow> (\<exists>s1 y. m s = (s1, Inr y) \<and> f y s1 = (s', Inr x))"
  by (auto simp: thenA_def split: prod.splits sum.splits)

lemmas returned = thenA_returned liftA_def getA_def doA_def okA_def

lemma requireSubject_returned: "requireSubject v c = Inr x \<longleftrightarrow> x = trim v \<and> clean x"
  by (cases "given (Some (trim v))") (auto simp: requireSubject_def given_trim [symmetric] simp flip: given_trim)

lemma requireRole_returned: "requireRole v c = Inr r \<longleftrightarrow> role_of_text v = Some r"
  by (cases "role_of_text v") (simp_all add: requireRole_def)

lemma requireSubjectType_returned: "requireSubjectType v c = Inr t \<longleftrightarrow> subject_type_of_text v = Some t"
  by (cases "subject_type_of_text v") (simp_all add: requireSubjectType_def)

definition stored_rows :: "('k::linorder) identity_env \<Rightarrow> role_assignment list \<Rightarrow> identity_world \<Rightarrow> list_ref \<Rightarrow> identity_world" where
  "stored_rows env ys w l = forget_cache (saveState env (changed l ys w) ys)"

lemma upsert_returned:
  assumes "upsertAssignment env lock input w = (w', Inr (a, previous))"
  obtains l st role where "loadState env w = Inr l" "clean (ra_subject a)" "ra_subject a = trim (up_subject input)"
    "role_of_text (up_role input) = Some role" "previous = find (\<lambda>x. ra_subject x = ra_subject a) (deref w l)"
    "a = new_assignment (ie_nowIso env) (ra_subject a) st role (up_updatedBy input) previous"
    "w' = stored_rows env (sortAssignments (ie_rank env) (put_assignment a (deref w l))) w l"
proof -
  obtain subject st role l where *: "requireSubject (up_subject input) ''rbac.assignments.upsert.subject'' = Inr subject"
    "requireRole (up_role input) ''rbac.assignments.upsert.role'' = Inr role" "loadState env w = Inr l"
    "previous = find (\<lambda>x. ra_subject x = subject) (deref w l)"
    "a = new_assignment (ie_nowIso env) subject st role (up_updatedBy input) previous"
    "w' = stored_rows env (sortAssignments (ie_rank env) (put_assignment a (deref w l))) w l"
    using assms unfolding upsertAssignment_def Let_def stored_rows_def returned
    by clarsimp
  have subject: "ra_subject a = subject" "clean subject" "trim (up_subject input) = subject"
    using *(1,5) by (auto simp: new_assignment_def requireSubject_returned)
  show thesis
    using *(2,4,5) that [OF *(3) _ _ _ _ _ *(6)] subject by (simp add: requireRole_returned)
qed

definition removal :: "('k::linorder) identity_env \<Rightarrow> identity_world \<Rightarrow> string \<Rightarrow> list_ref \<Rightarrow>
     identity_world \<times> (bool \<times> role_assignment option) result" where
  "removal env w n l = (case find_index (\<lambda>x. ra_subject x = n) (deref w l) of
     None \<Rightarrow> (w, Inr (False, None))
   | Some i \<Rightarrow> (stored_rows env (remove_at i (deref w l)) w l, Inr (True, Some (deref w l ! i))))"

lemma removeAssignment_run:
  "removeAssignment env lock subject w = (case requireSubject subject ''rbac.assignments.delete.subject'' of
     Inl e \<Rightarrow> (w, Inl e)
   | Inr n \<Rightarrow> (case lock of Inl e \<Rightarrow> (w, Inl e) | Inr _ \<Rightarrow> (case loadState env w of Inl e \<Rightarrow> (w, Inl e)
     | Inr l \<Rightarrow> removal env w n l)))"
  by (simp add: removeAssignment_def removal_def thenA_def liftA_def getA_def doA_def okA_def Let_def stored_rows_def
      split: sum.split option.split)

lemma case_returned: "(case r of Inl e \<Rightarrow> (w, Inl e) | Inr x \<Rightarrow> f x) = (w', Inr y) \<Longrightarrow> \<exists>x. r = Inr x \<and> f x = (w', Inr y)"
  by (cases r) auto

lemma remove_returned:
  assumes "removeAssignment env lock subject w = (w', Inr (removed, previous))"
  obtains (absent) l where "loadState env w = Inr l" "find_index (\<lambda>x. ra_subject x = trim subject) (deref w l) = None"
      "\<not> removed" "previous = None" "w' = w"
  | (present) l i where "loadState env w = Inr l" "find_index (\<lambda>x. ra_subject x = trim subject) (deref w l) = Some i"
      "removed" "previous = Some (deref w l ! i)" "w' = stored_rows env (remove_at i (deref w l)) w l"
proof -
  obtain n where n: "requireSubject subject ''rbac.assignments.delete.subject'' = Inr n" and 1: "(case lock of
       Inl e \<Rightarrow> (w, Inl e) | Inr _ \<Rightarrow> (case loadState env w of Inl e \<Rightarrow> (w, Inl e) | Inr l \<Rightarrow> removal env w n l)) = (w', Inr (removed, previous))"
    using case_returned [OF assms [unfolded removeAssignment_run]] by (elim exE conjE)
  obtain u where 2: "(case loadState env w of Inl e \<Rightarrow> (w, Inl e) | Inr l \<Rightarrow> removal env w n l) = (w', Inr (removed, previous))"
    using case_returned [OF 1] by (elim exE conjE)
  obtain l where l: "loadState env w = Inr l" "removal env w n l = (w', Inr (removed, previous))"
    using case_returned [OF 2] by (elim exE conjE)
  have s: "n = trim subject" using n by (simp add: requireSubject_returned)
  show thesis
  proof (cases "find_index (\<lambda>x. ra_subject x = trim subject) (deref w l)")
    case None
    then have "(w, Inr (False, None)) = (w', Inr (removed, previous) :: (bool \<times> role_assignment option) result)"
      using l(2) unfolding s removal_def by simp
    then show thesis using absent [OF l(1) None] by blast
  next
    case (Some i)
    then have "(stored_rows env (remove_at i (deref w l)) w l, Inr (True, Some (deref w l ! i))) =
        (w', Inr (removed, previous) :: (bool \<times> role_assignment option) result)"
      using l(2) unfolding s removal_def by (simp del: remove_at.simps)
    then show thesis using present [OF l(1) Some] by blast
  qed
qed

text \<open>A store whose texts are ordered by length, for the examples.\<close>

definition sample_env :: "nat identity_env" where
  "sample_env = \<lparr>ie_parses = (\<lambda>_. True), ie_rank = size, ie_nowIso = ''t1'', ie_mtimeMs = 5, ie_size = (\<lambda>_. 9)\<rparr>"

definition sample_input :: upsert_request where
  "sample_input = \<lparr>up_subject = '' ada '', up_subjectType = ''identity'', up_role = ''Operator'', up_updatedBy = None\<rparr>"

definition sample_row :: role_assignment where
  "sample_row = \<lparr>ra_subject = ''ada'', ra_subjectType = Identity, ra_role = Operator, ra_createdAt = ''t1'', ra_updatedAt = ''t1'',
     ra_updatedBy = None\<rparr>"

definition sample_world :: "file_content \<Rightarrow> identity_world" where
  "sample_world c = \<lparr>iw_file = Some \<lparr>sf_content = c, sf_mtimeMs = 1, sf_size = 2\<rparr>, iw_cache = None, iw_default = []\<rparr>"

definition sample_result :: "file_content \<Rightarrow> identity_world" where
  "sample_result c = fst (upsertAssignment sample_env (Inr ()) sample_input (sample_world c))"

lemma sample_upsert:
  "upsertAssignment sample_env (Inr ()) sample_input (sample_world (Json (JArr []))) = (sample_result (Json (JArr [])), Inr (sample_row, None))"
  by code_simp

lemma sample_ok: "clock_ok sample_env" "wf_world sample_env (sample_world c)" "\<not> is_record (JArr [])"
  by (code_simp, simp add: wf_world_def sample_world_def, code_simp)

section \<open>What a save leaves behind\<close>

definition saved :: "('k::linorder) identity_env \<Rightarrow> identity_world \<Rightarrow> role_assignment list \<Rightarrow> bool" where
  "saved env w ys \<longleftrightarrow> map_option sf_content (iw_file w) = Some (Json (state_js ys)) \<and>
     list_all (wf_assignment (ie_parses env)) ys \<and> sorted (map (\<lambda>a. ie_rank env (ra_subject a)) ys) \<and>
     loadState env w = Inr (OwnList ys) \<and> iw_cache w = None"

lemma sorted_sortAssignments: "sorted (map (\<lambda>a. rank (ra_subject a)) (sortAssignments rank xs))"
  by (simp add: sortAssignments_def)

lemma stored_rows_saved:
  assumes "list_all (wf_assignment (ie_parses env)) ys" "sorted (map (\<lambda>a. ie_rank env (ra_subject a)) ys)"
  shows "saved env (stored_rows env ys w l) ys"
  using assms normalizeState_js [OF assms]
  by (simp add: saved_def stored_rows_def forget_cache_def saveState_def loadState_def)

lemma stored_rows_wf:
  assumes "wf_world env w" "list_all (wf_assignment (ie_parses env)) ys"
  shows "wf_world env (stored_rows env ys w l)"
  using assms by (cases l) (simp_all add: wf_world_def stored_rows_def forget_cache_def saveState_def changed_def)

lemma in_put: "a \<in> set (put_assignment a xs)"
  by (auto simp: put_assignment_def split: option.split dest: find_index_find intro: set_update_memI)

lemma upserted_rows_wf:
  assumes "clock_ok env" "wf_world env w" "loadState env w = Inr l" "clean (ra_subject a)"
    "previous = find (\<lambda>x. ra_subject x = ra_subject a) (deref w l)"
    "a = new_assignment (ie_nowIso env) (ra_subject a) st role u previous"
  shows "wf_assignment (ie_parses env) a" "list_all (wf_assignment (ie_parses env)) (put_assignment a (deref w l))"
proof -
  have xs: "list_all (wf_assignment (ie_parses env)) (deref w l)" by (rule loadState_wf [OF assms(1-3)])
  have "\<forall>p. previous = Some p \<longrightarrow> wf_assignment (ie_parses env) p"
    using assms(5) xs by (auto simp: list_all_iff find_Some_iff)
  then show a: "wf_assignment (ie_parses env) a"
    using new_assignment_wf [OF assms(1,4), of previous st role u] assms(6) by simp
  then show "list_all (wf_assignment (ie_parses env)) (put_assignment a (deref w l))" using list_all_put [OF xs] by blast
qed

text \<open> C28 The state file of role assignments is well-formed whatever was in it before: after an assignment is stored,
  every row has a subject and time stamps that are trimmed and not empty, the stamps can be parsed, the rows are
  ordered by subject, and reading the file gives back exactly these rows; the shared default array stays well-formed.
\<close>

theorem stored_assignments_well_formed:
  assumes "clock_ok env" and "wf_world env w" and "upsertAssignment env lock input w = (w', Inr (a, previous))"
  shows "wf_world env w' \<and> wf_assignment (ie_parses env) a \<and> (\<exists>ys. saved env w' ys \<and> a \<in> set ys)"
proof -
  obtain l st role where u: "loadState env w = Inr l" "clean (ra_subject a)"
    "previous = find (\<lambda>x. ra_subject x = ra_subject a) (deref w l)"
    "a = new_assignment (ie_nowIso env) (ra_subject a) st role (up_updatedBy input) previous"
    and w': "w' = stored_rows env (sortAssignments (ie_rank env) (put_assignment a (deref w l))) w l"
    by (rule upsert_returned [OF assms(3)])
  let ?ys = "sortAssignments (ie_rank env) (put_assignment a (deref w l))"
  have a: "wf_assignment (ie_parses env) a" by (rule upserted_rows_wf [OF assms(1,2) u])
  have ys: "list_all (wf_assignment (ie_parses env)) ?ys"
    using upserted_rows_wf(2) [OF assms(1,2) u] by (simp add: list_all_sort)
  have "a \<in> set ?ys" by (simp add: sortAssignments_def in_put)
  then show ?thesis
    using a stored_rows_wf [OF assms(2) ys] stored_rows_saved [OF ys sorted_sortAssignments] unfolding w' by blast
qed

theorem stored_assignments_well_formed_witness:
  "wf_world sample_env (sample_result (Json (JArr []))) \<and> wf_assignment (ie_parses sample_env) sample_row \<and>
   (\<exists>ys. saved sample_env (sample_result (Json (JArr []))) ys \<and> sample_row \<in> set ys)"
  by (rule stored_assignments_well_formed [OF sample_ok(1,2) sample_upsert])

section \<open>What a lookup finds\<close>

lemma find_filter: "find P xs = (case filter P xs of [] \<Rightarrow> None | x # _ \<Rightarrow> Some x)"
  by (induction xs) auto

lemma find_sorted: "find (\<lambda>a. ra_subject a = s) (sortAssignments rank xs) = find (\<lambda>a. ra_subject a = s) xs"
proof -
  have split: "filter (\<lambda>a. ra_subject a = s) ys = filter (\<lambda>a. ra_subject a = s) (filter (\<lambda>a. rank (ra_subject a) = rank s) ys)" for ys
    by (induction ys) auto
  have "filter (\<lambda>a. ra_subject a = s) (sortAssignments rank xs) =
      filter (\<lambda>a. ra_subject a = s) (filter (\<lambda>a. rank (ra_subject a) = rank s) (sortAssignments rank xs))" by (rule split)
  also have "\<dots> = filter (\<lambda>a. ra_subject a = s) (filter (\<lambda>a. rank (ra_subject a) = rank s) xs)"
    unfolding sortAssignments_def by (simp only: sort_key_stable)
  also have "\<dots> = filter (\<lambda>a. ra_subject a = s) xs" by (rule split [symmetric])
  finally have "filter (\<lambda>a. ra_subject a = s) (sortAssignments rank xs) = filter (\<lambda>a. ra_subject a = s) xs" .
  then show ?thesis by (simp only: find_filter)
qed

lemma find_put:
  "find (\<lambda>x. ra_subject x = s) (put_assignment a xs) = (if s = ra_subject a then Some a else find (\<lambda>x. ra_subject x = s) xs)"
  by (induction xs) (auto simp: put_assignment_def split: option.splits nat.splits)

lemma resolve_saved:
  assumes "saved env w ys" "iw_file w = Some f" "cache_hit f cache = None" "ie_parses env' = ie_parses env" "ie_rank env' = ie_rank env"
  shows "fst (resolveSync env' (w\<lparr>iw_cache := cache\<rparr>) s) = (if trim s = [] then None else find (\<lambda>a. ra_subject a = trim s) ys)"
proof -
  have "sf_content f = Json (state_js ys)" and ys: "list_all (wf_assignment (ie_parses env)) ys"
    "sorted (map (\<lambda>a. ie_rank env (ra_subject a)) ys)"
    using assms(1,2) by (simp_all add: saved_def)
  then have "fst (loadAssignmentsSync env' (w\<lparr>iw_cache := cache\<rparr>)) = ys"
    using assms(2-5) normalizeState_js [OF ys] by (simp add: loadAssignmentsSync_def)
  then show ?thesis by (auto simp: resolveSync_def given_def split: prod.split)
qed

text \<open> C30 A role takes effect with the next lookup. Once an assignment was stored, any store of this file that does not
  hold a cache entry with the time and size of the new file resolves its subject to exactly this assignment and every
  other subject to what was found before; the caller with that subject gets the assigned role whatever the configured
  role map says.
\<close>

theorem assignment_takes_effect:
  assumes "clock_ok env" and "wf_world env w" and "upsertAssignment env lock input w = (w', Inr (a, previous))"
    and "iw_file w' = Some f" and "cache_hit f cache = None"
    and "ie_parses env' = ie_parses env" and "ie_rank env' = ie_rank env"
  shows "(\<exists>rows. listAssignments env w = Inr rows \<and> (\<forall>s. fst (resolveSync env' (w'\<lparr>iw_cache := cache\<rparr>) s) =
      (if trim s = [] then None else if trim s = ra_subject a then Some a else find (\<lambda>x. ra_subject x = trim s) rows))) \<and>
    (\<exists>w2 cx. resolveIdentity env' auth (up_subject input) (w'\<lparr>iw_cache := cache\<rparr>) = (w2, Inr cx) \<and>
      cx_subject cx = ra_subject a \<and> cx_role cx = ra_role a \<and> role_of_text (up_role input) = Some (ra_role a))"
proof -
  obtain l st role where u: "loadState env w = Inr l" "clean (ra_subject a)"
    "previous = find (\<lambda>x. ra_subject x = ra_subject a) (deref w l)"
    "a = new_assignment (ie_nowIso env) (ra_subject a) st role (up_updatedBy input) previous"
    and w': "w' = stored_rows env (sortAssignments (ie_rank env) (put_assignment a (deref w l))) w l"
    and subject: "ra_subject a = trim (up_subject input)" and role: "role_of_text (up_role input) = Some role"
    by (rule upsert_returned [OF assms(3)])
  let ?ys = "sortAssignments (ie_rank env) (put_assignment a (deref w l))"
  have "list_all (wf_assignment (ie_parses env)) ?ys"
    using upserted_rows_wf(2) [OF assms(1,2) u] by (simp add: list_all_sort)
  from stored_rows_saved [OF this sorted_sortAssignments] have "saved env w' ?ys" unfolding w' .
  from resolve_saved [OF this assms(4-7)]
  have found: "fst (resolveSync env' (w'\<lparr>iw_cache := cache\<rparr>) s) =
      (if trim s = [] then None else if trim s = ra_subject a then Some a else find (\<lambda>x. ra_subject x = trim s) (deref w l))" for s
    by (simp only: find_sorted find_put)
  have s: "trim (ra_subject a) = ra_subject a" "ra_subject a \<noteq> []" using u(2) by (simp_all add: clean_def)
  have r: "ra_role a = role" using arg_cong [OF u(4), of ra_role] by (simp add: new_assignment_def)
  obtain x w2 where x: "resolveSync env' (w'\<lparr>iw_cache := cache\<rparr>) (ra_subject a) = (x, w2)" by (rule prod.exhaust)
  then have "x = Some a" using found [of "ra_subject a"] s by simp
  then have "\<exists>w2 cx. resolveIdentity env' auth (up_subject input) (w'\<lparr>iw_cache := cache\<rparr>) = (w2, Inr cx) \<and>
      cx_subject cx = ra_subject a \<and> cx_role cx = ra_role a \<and> role_of_text (up_role input) = Some (ra_role a)"
    using x s r role by (simp add: resolveIdentity_def subject [symmetric] effectiveRole_def or_role_def Let_def)
  moreover have "\<exists>rows. listAssignments env w = Inr rows \<and> (\<forall>s. fst (resolveSync env' (w'\<lparr>iw_cache := cache\<rparr>) s) =
      (if trim s = [] then None else if trim s = ra_subject a then Some a else find (\<lambda>x. ra_subject x = trim s) rows))"
    using u(1) found by (simp add: listAssignments_def)
  ultimately show ?thesis by blast
qed

theorem assignment_takes_effect_witness:
  "\<exists>f. iw_file (sample_result (Json (JArr []))) = Some f \<and> cache_hit f None = None \<and>
    (\<exists>w2 cx. resolveIdentity sample_env None (up_subject sample_input) ((sample_result (Json (JArr [])))\<lparr>iw_cache := None\<rparr>) = (w2, Inr cx) \<and>
      cx_subject cx = ''ada'' \<and> cx_role cx = Operator)"
proof -
  have stored: "iw_file (sample_result (Json (JArr []))) = Some \<lparr>sf_content = Json (state_js [sample_row]), sf_mtimeMs = 5, sf_size = 9\<rparr>"
    by code_simp
  have hit: "cache_hit f None = None" for f by (simp add: cache_hit_def)
  have row: "ra_subject sample_row = ''ada''" "ra_role sample_row = Operator" by (simp_all add: sample_row_def)
  show ?thesis
    using assignment_takes_effect [OF sample_ok(1,2) sample_upsert stored hit refl refl, of None] stored hit unfolding row by blast
qed

section \<open>The shared array of the default state\<close>

lemma loadState_default:
  assumes "iw_file w = Some f" "sf_content f = Json v" "\<not> is_record v"
  shows "loadState env w = Inr DefaultList"
  using assms by (simp add: loadState_def normalizeState_def)

text \<open> C38 Assignments leak between stores: when one is stored over a file that holds JSON but no object, every other
  store of the process, on a file of its own that holds JSON but no object, lists it too.
\<close>

theorem assignments_leak:
  assumes "iw_file w = Some f" and "sf_content f = Json v" and "\<not> is_record v"
    and "upsertAssignment env lock input w = (w', Inr (a, previous))"
    and "sf_content g = Json v'" and "\<not> is_record v'"
  shows "\<exists>rows. listAssignments env' (w'\<lparr>iw_file := Some g\<rparr>) = Inr rows \<and> a \<in> set rows"
proof -
  obtain l st role where "loadState env w = Inr l"
    and w': "w' = stored_rows env (sortAssignments (ie_rank env) (put_assignment a (deref w l))) w l"
    by (rule upsert_returned [OF assms(4)])
  then have "iw_default w' = sortAssignments (ie_rank env) (put_assignment a (iw_default w))"
    using loadState_default [OF assms(1-3), of env]
    by (simp add: stored_rows_def forget_cache_def saveState_def changed_def)
  then have "a \<in> set (iw_default w')" by (simp add: sortAssignments_def in_put)
  then show ?thesis
    using assms(5,6) loadState_default [of "w'\<lparr>iw_file := Some g\<rparr>" g v' env'] by (simp add: listAssignments_def)
qed

theorem assignments_leak_witness:
  "\<exists>rows. listAssignments sample_env ((sample_result (Json (JArr [])))\<lparr>iw_file := Some \<lparr>sf_content = Json JNull, sf_mtimeMs = 3, sf_size = 4\<rparr>\<rparr>) =
      Inr rows \<and> sample_row \<in> set rows"
  by (rule assignments_leak [where v' = JNull, OF _ _ sample_ok(3) sample_upsert]) (simp add: sample_world_def, simp_all)

section \<open>The caller\<close>

lemma first_text_clean: "first_text xs = Some x \<Longrightarrow> clean x"
  by (auto simp: first_text_def find_Some_iff clean_def)

lemma header_value_clean: "parseIdentityHeaderValue v = Some x \<Longrightarrow> clean x"
  by (auto simp: parseIdentityHeaderValue_def intro: first_text_clean split: option.splits header_value.splits)

lemma valid_token:
  "assertValidApiToken sha256 h t = Inr () \<Longrightarrow> \<exists>token. presentedToken h = Some token \<and> sha256 token = sha256 t \<and> length token = length t"
  by (auto simp: assertValidApiToken_def constantTimeEquals_def given_def split: option.splits if_splits)

text \<open> C25 Where a token is configured, a request gets an identity only if it presented a token of the same digest and
  length; the subject is the one the identity header names, trimmed and not empty, the role is the stored one, else the
  configured one, else the default, and the scope is what the scope headers say, global for Admins.
\<close>

theorem caller_authenticated:
  assumes "given (au_apiToken au) = Some t" and "extractIdentity sha256 env au h w = (w', Inr cx)"
  shows "(\<exists>token. presentedToken h = Some token \<and> sha256 token = sha256 t \<and> length token = length t) \<and>
    parseIdentityHeaderValue (h (to_lower (au_identityHeader au))) = Some (cx_subject cx) \<and> clean (cx_subject cx) \<and>
    cx_role cx = effectiveRole (Some au) (fst (resolveSync env w (cx_subject cx))) (cx_subject cx) \<and>
    cx_scope cx = parseScopeHeaders h (cx_role cx = Admin)"
proof -
  have token: "assertValidApiToken sha256 h t = Inr ()"
    using assms unfolding extractIdentity_def Let_def returned by simp
  obtain subject where subject: "parseIdentityHeaderValue (h (to_lower (au_identityHeader au))) = Some subject"
    using assms(2) token assms(1) by (cases "parseIdentityHeaderValue (h (to_lower (au_identityHeader au)))")
      (simp_all add: extractIdentity_def Let_def thenA_def liftA_def throwA_def)
  have clean: "clean subject" by (rule header_value_clean [OF subject])
  then show ?thesis
    using assms token subject valid_token [OF token]
    by (auto simp: extractIdentity_def Let_def thenA_def liftA_def okA_def resolveIdentity_def clean_def split: prod.splits)
qed

definition sample_auth :: auth_settings where
  "sample_auth = \<lparr>au_apiToken = Some ''key'', au_identityHeader = ''X-Id'', au_defaultRole = None, au_identityRoleMap = [(''*'', Operator)]\<rparr>"

definition sample_headers :: headers where
  "sample_headers n = (if n = ''authorization'' then Some (OneValue ''Bearer key'') else if n = ''x-id'' then Some (OneValue '', ada'') else None)"

theorem caller_authenticated_witness:
  "parseIdentityHeaderValue (sample_headers (to_lower (au_identityHeader sample_auth))) = Some ''ada'' \<and>
   cx_role (case extractIdentity id sample_env sample_auth sample_headers (sample_world NotJson) of (_, Inr cx) \<Rightarrow> cx | _ \<Rightarrow> undefined) = Operator \<and>
   (\<exists>token. presentedToken sample_headers = Some token \<and> id token = id ''key'' \<and> length token = length ''key'')"
proof -
  have t: "given (au_apiToken sample_auth) = Some ''key''" by code_simp
  have run: "extractIdentity id sample_env sample_auth sample_headers (sample_world NotJson) =
     (sample_world NotJson, Inr \<lparr>cx_subject = ''ada'', cx_role = Operator, cx_scope = \<lparr>sc_global = False, sc_agents = [],
        sc_sessionIds = [], sc_runIds = [], sc_workspaces = Some []\<rparr>\<rparr>)"
    by code_simp
  show ?thesis using caller_authenticated [OF t run] unfolding run by simp
qed

section \<open>The audit of a subject\<close>

text \<open>The audit of a subject names the role that the resolver gives it, and where it comes from.\<close>

lemma audit_agrees:
  assumes "trim subject \<noteq> []"
  shows "\<exists>w1 a w2 cx. auditPermissions env auth subject w = (w1, Inr a) \<and> resolveIdentity env auth subject w = (w2, Inr cx) \<and>
    w1 = w2 \<and> ru_role a = cx_role cx \<and> ru_permissions a = getPermissionsForRole (cx_role cx) \<and>
    (ru_source a = DefaultRole \<longrightarrow> ru_role a = defaultRole auth)"
proof -
  obtain p w' where r: "resolveSync env w (trim subject) = (p, w')" by (rule prod.exhaust)
  show ?thesis using assms r
    by (cases p; cases "configuredRole auth (trim subject)") (simp_all add: auditPermissions_def resolveIdentity_def effectiveRole_def or_role_def Let_def)
qed

end
