(* ===== verification/Spec2Isabelle.thy ===== *)
theory Spec2Isabelle
  imports WorkflowDag WorkflowSafety RetryPolicy LeaseLock RedisLock K8sLock SessionLock EgressPolicy PolicyDocument SandboxRun WorkQueue WorkflowProgress StaleRecovery Identity
begin

text \<open>
  Verification of the control plane of AthenaConsole (\<open>packages/core/src\<close>): the part that plans and runs
  workflows of agent tasks, guards runs by policy, and keeps concurrent workers apart by locks and queues. The
  paths below are relative to \<open>packages/core/src\<close>.

  1. How the program is put together. A workflow template names steps and their dependencies. It is parsed and
  ordered by \<open>control-plane/workflow-template-dag.ts\<close>; \<open>services/workflow-state.ts\<close> creates a run of it, stores
  the run, its steps, their attempts and its events through \<open>app-state/workflow-state-repository.ts\<close>, and moves
  them on; \<open>services/workflow-dag-executor.ts\<close> selects the next ready step, asks \<open>services/task-workbench.ts\<close> to
  run its task, and retries it as \<open>services/workflow-retry-policy.ts\<close> says. Every run of an agent goes through
  the execution backend of \<open>services/policy.ts\<close>: concurrency limit, egress policy, sandbox with its quotas and
  workspace, fallback to the unsandboxed backend. Replicas and processes exclude each other by the distributed
  locks of \<open>distributed-lock/\<close> and the lock files of \<open>runtime/session-lock.ts\<close>, and the work of a session waits in
  the queue of \<open>work/index.ts\<close>. The services are wrapped by the authorizer of \<open>services/authorization.ts\<close>, which
  decides by role and scope of the caller, and at its start a process recovers the runs that were left running
  (\<open>services/stale-run-recovery.ts\<close>).

  2. The theories.

  \<open>Prelude\<close>: the thrown errors (\<open>error\<close>), results \<open>error + 'a\<close> with \<open>bindR\<close> and \<open>foldR\<close>, the values of JavaScript
  that arrive as \<open>unknown\<close> (\<open>js\<close>), \<open>Map\<close> and \<open>Set\<close> as association lists in insertion order, trimming and
  lower case, number formatting, and the lemmas on lists and maps the other theories share.
  \<open>Effects\<close>: actions \<open>'s \<Rightarrow> 's \<times> (error + 'a)\<close> for code that changes a state and may throw, keeping the
  changes made before the throw; the weakest precondition \<open>wp\<close> and its rules (\<open>wp_simps\<close>).
  \<open>Pagination\<close>: \<open>services/pagination.ts\<close>, cursors and pages.

  Workflows. \<open>WorkflowDag\<close>: \<open>workflow-template-dag.ts\<close> (validation, cycle search, Kahn's ordering with a
  sorted ready list). \<open>WorkflowStore\<close>: the four tables and every operation of the repository.
  \<open>WorkflowState\<close>: each request of \<open>workflow-state.ts\<close> as a composition of repository operations, an abstract
  machine on the status of each step (\<open>dag_state\<close>), and the simulation of the requests by that machine.
  \<open>WorkflowSafety\<close>: the database reachable by requests (an inductive relation \<open>reachable\<close>, whose steps are the
  requests, also those that throw) and the invariants of every reachable run. \<open>RetryPolicy\<close>: retry decision and
  backoff. \<open>WorkflowTasks\<close>: the task and run tables and \<open>runTask\<close> with every kind of outcome of the process.
  \<open>WorkflowExecutor\<close>: the executor's loop over those tables; \<open>WorkflowProgress\<close>: what an execution achieves.

  Policy. \<open>PolicyDocument\<close>: \<open>get\<close> and \<open>put\<close> of the policy and its file. \<open>EgressPolicy\<close>: allow and deny lists, the
  declarations of a run and the token that carries them. \<open>SandboxConfig\<close>: isolation profile, workspace paths,
  quotas and their violation. \<open>ConcurrencyLimit\<close>: the slots of the lease manager. \<open>RejectionLog\<close>: the log of
  rejected runs and its pages. \<open>SandboxRun\<close>: the policy-aware execution of a request, which uses all of them.

  Locks and queues. \<open>LeaseLock\<close>: the contract \<open>distributed-lock/types.ts\<close> as a locale, the in-memory and the file
  provider. \<open>RedisLock\<close>: the Redis provider with its scripts. \<open>K8sLock\<close>: leases with optimistic concurrency.
  \<open>SessionLock\<close>: lock files with stale-lock removal, as a step relation of processes that interleave.
  \<open>WorkQueue\<close>: the queue of a session, its deduplication, and the drain loop.

  Access and tables. \<open>Authorization\<close>: requirements, scopes, modes and the decision of \<open>ServiceAuthorizer\<close>, with the
  permission tables of \<open>control-plane/rbac.ts\<close>. \<open>AuthorizedServices\<close>: every method of the wrapping services over
  the method it delegates to. \<open>TaskService\<close>: the task routes of \<open>services/task-workbench.ts\<close> over the tables, alone
  and behind the wrapper. \<open>Missions\<close>: the mission table. \<open>StaleRecovery\<close>: both recoveries with their loops.
  \<open>Identity\<close>: role assignments (\<open>control-plane/identity-store.ts\<close>), the role of a caller (\<open>control-plane/auth.ts\<close>), and
  the headers it comes from (\<open>api/middleware/auth.ts\<close>).

  3. How state and operations correspond to the code. A table of the database is a list of records in insertion
  order, and a statement of the repository is a function on it. A class with private fields is a record. A method
  that throws is a function to \<open>error + 'a\<close>, or an action of \<open>Effects\<close> where it changes state before it throws.
  Clocks, random identifiers, the environment, the file system's answers, and the outcome of a process are
  arguments; where the code asks them several times they are sequences or functions of the state. Numbers are
  \<open>int\<close> or \<open>rat\<close>: the code uses JavaScript numbers far below the bound of exact integers, except where the theory
  says otherwise. Code that interleaves (locks, slots, lock files) is a step relation with one step per
  awaited operation.

  4. What the lemmas show. For every component first its well-formedness invariant and that each operation keeps
  it, then the result of each operation on each branch; these are collected into bundles and \<open>named_theorems\<close>.
  Locales state the interfaces: the contract of a lock with leases, the API of a cluster and the client of Redis
  below it, what an authorizer promises to the services it guards, what the wrapper relies on when it lists tasks;
  each is interpreted on the model of the code that provides it. The properties are then: the ordering accepts exactly
  the acyclic templates and lists each step after its dependencies; requests refine the abstract machine; in
  every reachable database a step starts only after its dependencies completed, the ready steps are exactly those
  that can start, attempts and run status agree with the steps; an execution ends, and ends completed or with a
  failed step; a retry happens exactly when policy allows it; locks exclude; the number of runs never exceeds the
  limit while leases are renewed; a request that requires a sandbox never runs outside; a denied target is never
  reached; the drain of a queue returns and hands over each item exactly once; a call passes the authorizer exactly
  when role and scope admit it, Viewers change nothing through guarded methods, a caller scoped to workspaces is
  confined to them; a stored role takes effect with the next lookup, and a caller is who its token and headers say;
  recovery at start ends and recovers what was left running. Properties that show what the code
  does wrong are stated of the code as it is: a run revived by completion after cancellation, an expired Kubernetes
  lease taken by two, a stale lock removed twice, a lock file that blocks for ever after a crash, an invalid
  declaration that is let through, a limit that lapses, a sandbox left behind, a cancelled task that is retried,
  a Viewer who starts runs, a task that is moved out of the caller's scope, role assignments that leak into other stores.

  5. Bounds and fuel. Recursions over lists and finite sets are total functions with measures (the ready list of
  the ordering shrinks by a step per round, the cycle search by unvisited steps). Loops that could run for ever,
  the executor, the drain of a queue and the pages of a recovery, are \<open>partial_function (option)\<close>: not returning is the value \<open>None\<close>, and
  the termination properties show that it does not occur. No definition has fuel.

  6. Not modelled. Input and output itself (sqlite, the file system, http, docker and Kubernetes clients,
  providers of models), the schemas and contracts that are only types or generated tables, configuration
  parsing, the console, the command line, and the routes of the API, which decode a request and call one service.
  The manifest lists each of these parts with its reason.
\<close>

end
